(* ===== verification/Prelude.thy ===== *)
theory Prelude
  imports Main "HOL-Library.Word" "HOL-Library.Sublist"
begin

text \<open>
  Shared types and generic lemmas of the development.

  C types are modelled as follows. A \<open>char\<close> cell of a buffer or file is a \<open>byte\<close>
  (\<open>8 word\<close>). A C \<open>int\<close> that carries a character or the end-of-file mark is an \<open>int\<close>
  (\<open>EOF\<close> is \<open>-1\<close>). The type \<open>lin\<close> of diff.h (a signed pointer difference) is \<open>int\<close>,
  \<open>size_t\<close> is \<open>nat\<close>, and \<open>unsigned int\<close> is \<open>32 word\<close> where it wraps around.

  The program stops in two ways other than returning: \<open>fatal\<close> prints a message and exits
  with status 2, and \<open>PANIC\<close> reports a program-logic error through \<open>fatal\<close>. Both are
  values of \<open>fault\<close>, and an operation that can stop has a result of type \<open>'a res\<close>.
\<close>

type_synonym byte = "8 word"
type_synonym lin = int

datatype fault =
    Panic
  | Fatal string

type_synonym 'a res = "fault + 'a"

definition bind_res :: "'a res \<Rightarrow> ('a \<Rightarrow> 'b res) \<Rightarrow> 'b res" where
  "bind_res m f = (case m of Inl e \<Rightarrow> Inl e | Inr x \<Rightarrow> f x)"

lemma bind_res_simps [simp]:
  "bind_res (Inl e) f = Inl e"
  "bind_res (Inr x) f = f x"
  by (simp_all add: bind_res_def)

lemma bind_res_eq_Inr:
  "bind_res m f = Inr y \<longleftrightarrow> (\<exists>x. m = Inr x \<and> f x = Inr y)"
  by (cases m) auto

lemma bind_res_assoc: "bind_res (bind_res m f) g = bind_res m (\<lambda>x. bind_res (f x) g)"
  by (cases m) auto

text \<open>The value of the macro \<open>EOF\<close>.\<close>

abbreviation EOF :: int where
  "EOF \<equiv> - 1"

text \<open>The part of a list from index \<open>i\<close> up to but excluding index \<open>j\<close>.\<close>

definition slice :: "nat \<Rightarrow> nat \<Rightarrow> 'a list \<Rightarrow> 'a list" where
  "slice i j xs = take (j - i) (drop i xs)"

lemma slice_same [simp]: "slice i i xs = []"
  by (simp add: slice_def)

lemma slice_0 [simp]: "slice 0 j xs = take j xs"
  by (simp add: slice_def)

lemma length_slice: "j \<le> length xs \<Longrightarrow> length (slice i j xs) = j - i"
  by (simp add: slice_def)

lemma slice_append:
  assumes "i \<le> j" "j \<le> k"
  shows "slice i j xs @ slice j k xs = slice i k xs"
proof -
  have "slice i k xs = take ((j - i) + (k - j)) (drop i xs)"
    using assms by (simp add: slice_def)
  also have "\<dots> = take (j - i) (drop i xs) @ take (k - j) (drop (j - i) (drop i xs))"
    by (rule take_add)
  finally show ?thesis
    using assms by (simp add: slice_def)
qed

lemma slice_to_end: "slice i (length xs) xs = drop i xs"
  by (simp add: slice_def)

lemma slice_snoc:
  assumes "i \<le> j" "j < length xs"
  shows "slice i (Suc j) xs = slice i j xs @ [xs ! j]"
proof -
  have "slice j (Suc j) xs = [xs ! j]"
    using assms by (simp add: slice_def take_Suc_conv_app_nth flip: Cons_nth_drop_Suc)
  then show ?thesis
    using slice_append [of i j "Suc j" xs] assms by simp
qed

lemma slice_Cons:
  assumes "i < j" "j \<le> length xs"
  shows "slice i j xs = xs ! i # slice (Suc i) j xs"
proof -
  have "slice i (Suc i) xs = [xs ! i]"
    using assms by (simp add: slice_def take_Suc_conv_app_nth flip: Cons_nth_drop_Suc)
  then show ?thesis
    using slice_append [of i "Suc i" j xs] assms by simp
qed

end
