(* ===== verification/Files.thy ===== *)
theory Files
  imports Prelude
begin

text \<open>
  The buffered files of file.c. The operating system is an environment of the model: the
  results of the coming \<open>read\<close> calls on the descriptor are a list of events (a chunk of data of
  any size, an interrupted call, a failure), and so are the results of the coming \<open>write\<close>
  calls; \<open>stored\<close> is what has reached the descriptor. An exhausted list stands for the end of
  the input, or for a \<open>write\<close> that takes all it is given. The buffer is the list of its valid
  bytes, so \<open>bufferFill\<close> is its length.

  The lemmas say that reading yields the bytes of the chunks in order, however the system
  splits or interrupts the calls, and that writing stores the bytes in order.
\<close>

datatype FileMode = FILE_READ | FILE_WRITE

datatype EOFState = EOF_NO | EOF_COMING | EOF_HIT

definition FILE_BUFFER_SIZE :: nat where
  "FILE_BUFFER_SIZE = 4096"

text \<open>A chunk without data is a \<open>read\<close> that returns 0.\<close>

datatype read_event = Chunk "byte list" | ReadIntr | ReadFail int

text \<open>\<open>Accept n\<close> is a \<open>write\<close> that takes at most \<open>n\<close> bytes.\<close>

datatype write_event = Accept nat | WriteIntr | WriteFail int

record File =
  errNo :: int
  fmode :: FileMode
  buffer :: "byte list"
  bufferIndex :: nat
  eof :: EOFState
  reads :: "read_event list"
  writes :: "write_event list"
  stored :: "byte list"

abbreviation bufferFill :: "File \<Rightarrow> nat" where
  "bufferFill f \<equiv> length (buffer f)"

definition fileWrapFD :: "read_event list \<Rightarrow> write_event list \<Rightarrow> FileMode \<Rightarrow> File" where
  "fileWrapFD rs ws m =
     \<lparr>errNo = 0, fmode = m, buffer = [], bufferIndex = 0, eof = EOF_NO,
      reads = rs, writes = ws, stored = []\<rparr>"

text \<open>\<open>opened\<close> tells whether the \<open>open\<close> call succeeds; a null pointer is \<open>None\<close>.\<close>

definition fileOpen :: "bool \<Rightarrow> read_event list \<Rightarrow> FileMode \<Rightarrow> File option res" where
  "fileOpen opened rs m =
     (case m of
        FILE_READ \<Rightarrow> Inr (if opened then Some (fileWrapFD rs [] m) else None)
      | FILE_WRITE \<Rightarrow> Inl Panic)"

text \<open>
  The loop that fills the buffer: the bytes read, the error number, the state of \<open>eof\<close> and
  the events that remain.
\<close>

fun fill_buffer :: "byte list \<Rightarrow> read_event list \<Rightarrow> byte list \<times> int \<times> EOFState \<times> read_event list" where
  "fill_buffer acc [] = (acc, 0, EOF_COMING, [])"
| "fill_buffer acc (ReadIntr # es) = fill_buffer acc es"
| "fill_buffer acc (ReadFail e # es) = (acc, e, EOF_NO, es)"
| "fill_buffer acc (Chunk bs # es) =
     (let room = FILE_BUFFER_SIZE - length acc in
      if bs = [] then (acc, 0, EOF_COMING, es)
      else if length bs \<le> room then
        (let acc' = acc @ bs
         in if length acc' = FILE_BUFFER_SIZE then (acc', 0, EOF_NO, es) else fill_buffer acc' es)
      else (acc @ take room bs, 0, EOF_NO, Chunk (drop room bs) # es))"

definition fileGetc :: "File \<Rightarrow> (int \<times> File) res" where
  "fileGetc f =
     (if fmode f \<noteq> FILE_READ then Inl Panic
      else if errNo f \<noteq> 0 then Inr (EOF, f)
      else if bufferIndex f \<ge> bufferFill f then
        (if eof f \<noteq> EOF_NO then Inr (EOF, f\<lparr>eof := EOF_HIT\<rparr>)
         else let (bs, err, st, rs) = fill_buffer [] (reads f);
                  f1 = f\<lparr>reads := rs, errNo := err, eof := st\<rparr>
              in if err \<noteq> 0 then Inr (EOF, f1)
                 else if bs = [] then Inr (EOF, f1\<lparr>eof := EOF_HIT\<rparr>)
                 else Inr (uint (hd bs), f1\<lparr>buffer := bs, bufferIndex := 1\<rparr>))
      else Inr (uint (buffer f ! bufferIndex f), f\<lparr>bufferIndex := bufferIndex f + 1\<rparr>))"

text \<open>The value returned is the \<open>char\<close> stored, which is signed.\<close>

definition fileUngetc :: "File \<Rightarrow> int \<Rightarrow> (int \<times> File) res" where
  "fileUngetc f c =
     (if fmode f \<noteq> FILE_READ then Inl Panic
      else if errNo f \<noteq> 0 then Inr (EOF, f)
      else if bufferIndex f = 0 then Inl Panic
      else Inr (sint (word_of_int c :: byte),
                f\<lparr>buffer := (buffer f)[bufferIndex f - 1 := word_of_int c],
                  bufferIndex := bufferIndex f - 1\<rparr>))"

text \<open>
  The loop that writes the buffer: the bytes stored, the error number and the events that
  remain; a \<open>write\<close> that takes nothing is a panic.
\<close>

fun drain_buffer :: "byte list \<Rightarrow> write_event list \<Rightarrow> (byte list \<times> int \<times> write_event list) res" where
  "drain_buffer bs [] = Inr (bs, 0, [])"
| "drain_buffer bs (WriteIntr # es) = drain_buffer bs es"
| "drain_buffer bs (WriteFail e # es) = Inr ([], e, es)"
| "drain_buffer bs (Accept n # es) =
     (if n = 0 then Inl Panic
      else if length bs \<le> n then Inr (bs, 0, es)
      else bind_res (drain_buffer (drop n bs) es)
             (\<lambda>(out, err, rest). Inr (take n bs @ out, err, rest)))"

definition flushBuffer :: "File \<Rightarrow> (int \<times> File) res" where
  "flushBuffer f =
     (if fmode f = FILE_READ then Inr (0, f)
      else if errNo f \<noteq> 0 then Inr (EOF, f)
      else if bufferFill f = 0 then Inr (0, f)
      else bind_res (drain_buffer (buffer f) (writes f)) (\<lambda>(out, err, ws).
             let f1 = f\<lparr>writes := ws, stored := stored f @ out, errNo := err\<rparr>
             in if err \<noteq> 0 then Inr (EOF, f1)
                else Inr (int (bufferFill f), f1\<lparr>buffer := []\<rparr>)))"

text \<open>\<open>close_err\<close> is 0 or the error number of the \<open>close\<close> call.\<close>

definition fileClose :: "int \<Rightarrow> File \<Rightarrow> (int \<times> File) res" where
  "fileClose close_err f =
     bind_res (flushBuffer f) (\<lambda>(r, f1).
       Inr (if close_err \<noteq> 0 \<and> r = 0 then close_err else 0, f1))"

definition fileFlushReal :: "File \<Rightarrow> (int \<times> File) res" where
  "fileFlushReal f = bind_res (flushBuffer f) (\<lambda>(r, f1). Inr (if r = EOF then - 1 else 0, f1))"

definition filePutcReal :: "File \<Rightarrow> int \<Rightarrow> (int \<times> File) res" where
  "filePutcReal f c =
     (if fmode f \<noteq> FILE_WRITE then Inl Panic
      else if errNo f \<noteq> 0 then Inr (EOF, f)
      else bind_res (if bufferFill f \<ge> FILE_BUFFER_SIZE then flushBuffer f else Inr (0, f))
             (\<lambda>(r, f1). if r = EOF then Inr (EOF, f1)
                        else Inr (0, f1\<lparr>buffer := buffer f1 @ [word_of_int c]\<rparr>)))"

text \<open>
  The loop of \<open>fileWriteReal\<close>; a full buffer is flushed, after which there is room, so the
  block gets shorter with every second iteration at the latest. The recursion is bounded
  by \<open>fuel\<close>; \<open>None\<close> would be a loop that goes on.
\<close>

fun write_loop :: "nat \<Rightarrow> byte list \<Rightarrow> File \<Rightarrow> (int \<times> File) res option" where
  "write_loop 0 bs f = None"
| "write_loop (Suc fuel) bs f =
     (let n = min (FILE_BUFFER_SIZE - bufferFill f) (length bs);
          f1 = f\<lparr>buffer := buffer f @ take n bs\<rparr>
      in if drop n bs = [] then Some (Inr (0, f1))
         else case flushBuffer f1 of
                Inl e \<Rightarrow> Some (Inl e)
              | Inr (r, f2) \<Rightarrow> if r = EOF then Some (Inr (EOF, f2)) else write_loop fuel (drop n bs) f2)"

definition fileWriteReal :: "File \<Rightarrow> byte list \<Rightarrow> (int \<times> File) res option" where
  "fileWriteReal f bs =
     (if fmode f \<noteq> FILE_WRITE then Some (Inl Panic)
      else if errNo f \<noteq> 0 then Some (Inr (EOF, f))
      else write_loop (length bs + 2) bs f)"

definition filePuts :: "File \<Rightarrow> byte list \<Rightarrow> (int \<times> File) res option" where
  "filePuts f s =
     (if fmode f \<noteq> FILE_WRITE then Some (Inl Panic)
      else if errNo f \<noteq> 0 then Some (Inr (EOF, f))
      else fileWriteReal f s)"

text \<open>\<open>seek_err\<close> is 0 or the error number of the \<open>lseek\<close> call; \<open>rs\<close> are the reads that follow.\<close>

definition fileRewind :: "int \<Rightarrow> read_event list \<Rightarrow> File \<Rightarrow> FileMode \<Rightarrow> (int \<times> File) res" where
  "fileRewind seek_err rs f m =
     (if \<not> (m = FILE_READ \<or> fmode f = FILE_WRITE \<and> m = FILE_WRITE) then Inl Panic
      else bind_res (flushBuffer f) (\<lambda>(r, f1).
             if r \<noteq> 0 then Inr (- 1, f1)
             else if seek_err \<noteq> 0 then Inr (- 1, f1\<lparr>errNo := seek_err\<rparr>)
             else Inr (0, f1\<lparr>eof := EOF_NO, fmode := m, reads := rs\<rparr>)))"

definition fileError :: "File \<Rightarrow> bool" where
  "fileError f \<longleftrightarrow> errNo f \<noteq> 0"

definition fileEof :: "File \<Rightarrow> bool" where
  "fileEof f \<longleftrightarrow> eof f = EOF_HIT"

definition fileGetErrno :: "File \<Rightarrow> int" where
  "fileGetErrno f = errNo f"

definition fileClearEof :: "File \<Rightarrow> File" where
  "fileClearEof f = f\<lparr>eof := EOF_COMING\<rparr>"

text \<open>Reading a number of characters.\<close>

fun get_many :: "('s \<Rightarrow> (int \<times> 's) res) \<Rightarrow> nat \<Rightarrow> 's \<Rightarrow> (int list \<times> 's) res" where
  "get_many get 0 s = Inr ([], s)"
| "get_many get (Suc n) s =
     bind_res (get s) (\<lambda>(c, s1). bind_res (get_many get n s1) (\<lambda>(cs, s2). Inr (c # cs, s2)))"

section \<open>The contract of a source of characters\<close>

text \<open>
  What the readers rely on: \<open>rest\<close> is the list of the bytes to come, reading takes the
  first of them, and a byte that has just been read can be put back.
\<close>

locale char_source =
  fixes get :: "'s \<Rightarrow> (int \<times> 's) res"
    and unget :: "'s \<Rightarrow> int \<Rightarrow> (int \<times> 's) res"
    and rest :: "'s \<Rightarrow> byte list"
    and last_read :: "'s \<Rightarrow> byte option"
    and invar :: "'s \<Rightarrow> bool"
  assumes get_eof: "invar s \<Longrightarrow> rest s = [] \<Longrightarrow> \<exists>s'. get s = Inr (EOF, s') \<and> invar s' \<and> rest s' = []"
    and get_byte: "invar s \<Longrightarrow> rest s = b # bs \<Longrightarrow>
      \<exists>s'. get s = Inr (uint b, s') \<and> invar s' \<and> rest s' = bs \<and> last_read s' = Some b"
    and unget_byte: "invar s \<Longrightarrow> last_read s = Some b \<Longrightarrow> uint b < 128 \<Longrightarrow>
      \<exists>r s'. unget s (uint b) = Inr (r, s') \<and> invar s' \<and> rest s' = b # rest s"
begin

lemma get_many_rest:
  "invar s \<Longrightarrow> \<exists>s'. get_many get n s =
     Inr (map uint (take n (rest s)) @ replicate (n - length (rest s)) EOF, s') \<and>
     invar s' \<and> rest s' = drop n (rest s)"
proof (induction n arbitrary: s)
  case (Suc n)
  show ?case
  proof (cases "rest s")
    case Nil
    with get_eof [OF Suc.prems] Suc.IH show ?thesis by fastforce
  next
    case (Cons b bs)
    with get_byte [OF Suc.prems Cons] Suc.IH show ?thesis by fastforce
  qed
qed simp

lemma get_unget:
  assumes "invar s" "rest s = b # bs" "uint b < 128"
  shows "\<exists>c s1 r s2. get s = Inr (c, s1) \<and> unget s1 c = Inr (r, s2) \<and> invar s2 \<and> rest s2 = rest s"
  using get_byte [OF assms(1,2)] unget_byte assms by fastforce

end

section \<open>Reading from a file\<close>

fun incoming :: "read_event list \<Rightarrow> byte list" where
  "incoming [] = []"
| "incoming (ReadIntr # es) = incoming es"
| "incoming (ReadFail e # es) = []"
| "incoming (Chunk bs # es) = (if bs = [] then [] else bs @ incoming es)"

definition no_fail :: "read_event list \<Rightarrow> bool" where
  "no_fail es \<longleftrightarrow> (\<forall>e. ReadFail e \<notin> set es)"

lemma fill_buffer_ok:
  assumes "fill_buffer acc es = (bs, err, st, rs)" "length acc < FILE_BUFFER_SIZE" "no_fail es"
  shows "err = 0 \<and> no_fail rs \<and> length bs \<le> FILE_BUFFER_SIZE \<and> length acc \<le> length bs \<and>
    (st = EOF_NO \<and> bs \<noteq> [] \<and> acc @ incoming es = bs @ incoming rs \<or> st = EOF_COMING \<and> bs = acc @ incoming es)"
  using assms
proof (induction acc es rule: fill_buffer.induct)
  case (4 acc xs es)
  let ?room = "FILE_BUFFER_SIZE - length acc"
  have nf: "no_fail es" using "4.prems"(3) by (simp add: no_fail_def)
  consider "xs = []" | "xs \<noteq> []" "length xs > ?room" | "xs \<noteq> []" "length xs = ?room"
    | (more) "xs \<noteq> []" "length xs < ?room" by linarith
  then show ?case
  proof cases
    case more
    then have "length (acc @ xs) < FILE_BUFFER_SIZE" using "4.prems"(2) by simp
    moreover from more have "fill_buffer (acc @ xs) es = (bs, err, st, rs)"
      using "4.prems"(1) \<open>length (acc @ xs) < FILE_BUFFER_SIZE\<close> by (simp add: Let_def)
    ultimately show ?thesis using "4.IH" [OF refl more(1)] nf more by auto
  qed (use "4.prems" nf in \<open>auto simp: no_fail_def Let_def\<close>)
qed (auto simp: no_fail_def)

definition reading :: "File \<Rightarrow> bool" where
  "reading f \<longleftrightarrow> fmode f = FILE_READ \<and> errNo f = 0 \<and> bufferIndex f \<le> bufferFill f \<and>
     bufferFill f \<le> FILE_BUFFER_SIZE \<and> no_fail (reads f)"

definition to_read :: "File \<Rightarrow> byte list" where
  "to_read f = drop (bufferIndex f) (buffer f) @ (if eof f = EOF_NO then incoming (reads f) else [])"

definition last_byte :: "File \<Rightarrow> byte option" where
  "last_byte f = (if 0 < bufferIndex f then Some (buffer f ! (bufferIndex f - 1)) else None)"

lemma fileGetc_eof:
  assumes "reading f" "to_read f = []"
  shows "\<exists>f'. fileGetc f = Inr (EOF, f') \<and> reading f' \<and> to_read f' = [] \<and> fileEof f'"
proof (cases "eof f = EOF_NO")
  case True
  obtain bs err st rs where fb: "fill_buffer [] (reads f) = (bs, err, st, rs)" by (metis prod_cases4)
  have "length ([] :: byte list) < FILE_BUFFER_SIZE" by (simp add: FILE_BUFFER_SIZE_def)
  from fill_buffer_ok [OF fb this] assms True have r: "err = 0" "no_fail rs" "bs = []"
    by (auto simp: reading_def to_read_def)
  let ?f = "f\<lparr>reads := rs, errNo := 0, eof := EOF_HIT\<rparr>"
  have "fileGetc f = Inr (EOF, ?f)"
    using assms True r by (simp add: fileGetc_def reading_def to_read_def fb)
  with assms True r show ?thesis
    by (intro exI [of _ ?f]) (simp add: reading_def to_read_def fileEof_def)
next
  case False
  let ?f = "f\<lparr>eof := EOF_HIT\<rparr>"
  have "fileGetc f = Inr (EOF, ?f)"
    using assms False by (simp add: fileGetc_def reading_def to_read_def)
  with assms False show ?thesis
    by (intro exI [of _ ?f]) (simp add: reading_def to_read_def fileEof_def)
qed

lemma fileGetc_byte:
  assumes "reading f" "to_read f = b # bs"
  shows "\<exists>f'. fileGetc f = Inr (uint b, f') \<and> reading f' \<and> to_read f' = bs \<and> last_byte f' = Some b"
proof (cases "bufferIndex f < bufferFill f")
  case True
  then have "drop (bufferIndex f) (buffer f) = buffer f ! bufferIndex f # drop (Suc (bufferIndex f)) (buffer f)"
    by (simp add: Cons_nth_drop_Suc)
  with assms(2) have "buffer f ! bufferIndex f = b"
    "drop (Suc (bufferIndex f)) (buffer f) @ (if eof f = EOF_NO then incoming (reads f) else []) = bs"
    by (simp_all add: to_read_def)
  with True assms(1) show ?thesis
    by (intro exI [of _ "f\<lparr>bufferIndex := bufferIndex f + 1\<rparr>"])
      (auto simp: fileGetc_def reading_def to_read_def last_byte_def)
next
  case False
  with assms have e: "eof f = EOF_NO" "incoming (reads f) = b # bs"
    by (auto simp: to_read_def split: if_splits)
  obtain xs err st rs where fb: "fill_buffer [] (reads f) = (xs, err, st, rs)" by (metis prod_cases4)
  have "length ([] :: byte list) < FILE_BUFFER_SIZE" by (simp add: FILE_BUFFER_SIZE_def)
  from fill_buffer_ok [OF fb this] assms e
  have r: "err = 0" "no_fail rs" "length xs \<le> FILE_BUFFER_SIZE" "xs \<noteq> []"
    "st = EOF_NO \<and> b # bs = xs @ incoming rs \<or> st = EOF_COMING \<and> xs = b # bs"
    by (auto simp: reading_def)
  from r(4,5) obtain ys where "xs = b # ys" by (cases xs) auto
  with r False assms(1) e show ?thesis
    by (intro exI [of _ "f\<lparr>reads := rs, errNo := 0, eof := st, buffer := xs, bufferIndex := 1\<rparr>"])
      (auto simp: fileGetc_def reading_def to_read_def fb last_byte_def)
qed

lemma fileUngetc_byte:
  assumes "reading f" "last_byte f = Some b"
  shows "\<exists>r f'. fileUngetc f (uint b) = Inr (r, f') \<and> reading f' \<and> to_read f' = b # to_read f"
proof -
  from assms(2) obtain k where k: "bufferIndex f = Suc k" "buffer f ! k = b"
    by (cases "bufferIndex f") (auto simp: last_byte_def)
  with assms(1) have lt: "k < bufferFill f" by (simp add: reading_def)
  have "drop k (buffer f) = b # drop (Suc k) (buffer f)"
    using Cons_nth_drop_Suc [OF lt] k by simp
  moreover have "(buffer f)[k := b] = buffer f"
    using list_update_id [of "buffer f" k] k by simp
  ultimately show ?thesis
    using k lt assms(1)
    by (intro exI [of _ "sint b"] exI [of _ "f\<lparr>buffer := buffer f, bufferIndex := k\<rparr>"])
      (simp add: fileUngetc_def reading_def to_read_def)
qed

interpretation fsrc: char_source fileGetc fileUngetc to_read last_byte reading
  by unfold_locales (use fileGetc_eof fileGetc_byte fileUngetc_byte in blast)+

section \<open>Writing to a file\<close>

definition writes_ok :: "write_event list \<Rightarrow> bool" where
  "writes_ok ws \<longleftrightarrow> Accept 0 \<notin> set ws \<and> (\<forall>e. WriteFail e \<notin> set ws)"

definition writing :: "File \<Rightarrow> bool" where
  "writing f \<longleftrightarrow> fmode f = FILE_WRITE \<and> errNo f = 0 \<and> bufferIndex f = 0 \<and>
     bufferFill f \<le> FILE_BUFFER_SIZE \<and> writes_ok (writes f)"

text \<open>Everything that has been written, on the descriptor or still in the buffer.\<close>

definition written :: "File \<Rightarrow> byte list" where
  "written f = stored f @ buffer f"

lemma drain_buffer_ok:
  "writes_ok ws \<Longrightarrow> \<exists>ws'. drain_buffer bs ws = Inr (bs, 0, ws') \<and> writes_ok ws'"
proof (induction bs ws rule: drain_buffer.induct)
  case (4 bs n es)
  then have n: "0 < n" "writes_ok es" by (auto simp: writes_ok_def intro: gr0I)
  show ?case
  proof (cases "length bs \<le> n")
    case False
    with 4 n obtain ws' where "drain_buffer (drop n bs) es = Inr (drop n bs, 0, ws')" "writes_ok ws'" by auto
    with n False show ?thesis by simp
  qed (use n in simp)
qed (auto simp: writes_ok_def)

lemma flushBuffer_ok:
  assumes "writing f"
  shows "\<exists>r f'. flushBuffer f = Inr (r, f') \<and> 0 \<le> r \<and> (r = 0 \<longleftrightarrow> buffer f = []) \<and> writing f' \<and>
    buffer f' = [] \<and> stored f' = written f"
proof (cases "buffer f = []")
  case True
  with assms show ?thesis by (auto simp: flushBuffer_def writing_def written_def)
next
  case False
  obtain ws where "drain_buffer (buffer f) (writes f) = Inr (buffer f, 0, ws)" "writes_ok ws"
    using drain_buffer_ok assms by (auto simp: writing_def)
  with False assms show ?thesis
    by (auto simp: flushBuffer_def writing_def written_def Let_def)
qed

lemma filePutcReal_ok:
  assumes "writing f"
  shows "\<exists>f'. filePutcReal f c = Inr (0, f') \<and> writing f' \<and> written f' = written f @ [word_of_int c]"
proof (cases "bufferFill f \<ge> FILE_BUFFER_SIZE")
  case True
  obtain r f1 where f1: "flushBuffer f = Inr (r, f1)" "0 \<le> r" "writing f1" "buffer f1 = []" "stored f1 = written f"
    using flushBuffer_ok [OF assms] by blast
  then show ?thesis
    using True assms
    by (intro exI [of _ "f1\<lparr>buffer := buffer f1 @ [word_of_int c]\<rparr>"])
      (auto simp: filePutcReal_def writing_def written_def FILE_BUFFER_SIZE_def)
next
  case False
  then show ?thesis
    using assms
    by (intro exI [of _ "f\<lparr>buffer := buffer f @ [word_of_int c]\<rparr>"])
      (auto simp: filePutcReal_def writing_def written_def)
qed

text \<open>The fuel of the loop is enough: after the first round the buffer has room.\<close>

lemma write_loop_ok:
  assumes "writing f" "length bs + (if bufferFill f < FILE_BUFFER_SIZE then 0 else 1) < fuel"
  shows "\<exists>f'. write_loop fuel bs f = Some (Inr (0, f')) \<and> writing f' \<and> written f' = written f @ bs"
  using assms
proof (induction fuel arbitrary: bs f)
  case (Suc fuel)
  let ?n = "min (FILE_BUFFER_SIZE - bufferFill f) (length bs)"
  let ?f1 = "f\<lparr>buffer := buffer f @ take ?n bs\<rparr>"
  have w1: "writing ?f1" using Suc.prems(1) by (auto simp: writing_def)
  show ?case
  proof (cases "drop ?n bs = []")
    case True
    then have "take ?n bs = bs" by simp
    with True w1 show ?thesis
      by (intro exI [of _ ?f1]) (simp add: Let_def written_def)
  next
    case False
    obtain r f2 where f2: "flushBuffer ?f1 = Inr (r, f2)" "0 \<le> r" "writing f2" "buffer f2 = []"
      "stored f2 = written ?f1"
      using flushBuffer_ok [OF w1] by blast
    have "length (drop ?n bs) + (if bufferFill f2 < FILE_BUFFER_SIZE then 0 else 1) < fuel"
      using Suc.prems(2) False f2(4) by (auto simp: FILE_BUFFER_SIZE_def split: if_splits)
    from Suc.IH [OF f2(3) this] obtain f' where f': "write_loop fuel (drop ?n bs) f2 = Some (Inr (0, f'))" "writing f'"
      "written f' = written f2 @ drop ?n bs"
      by blast
    have "written f2 @ drop ?n bs = written f @ bs"
      using f2(4,5) append_take_drop_id [of ?n bs] by (simp add: written_def)
    with f' f2 False show ?thesis by (auto simp: Let_def)
  qed
qed simp

lemma fileWriteReal_ok:
  assumes "writing f"
  shows "\<exists>f'. fileWriteReal f bs = Some (Inr (0, f')) \<and> writing f' \<and> written f' = written f @ bs"
  using write_loop_ok [OF assms, of bs "length bs + 2"] assms
  by (simp add: fileWriteReal_def writing_def)

lemma fileFlushReal_ok:
  assumes "writing f"
  shows "\<exists>f'. fileFlushReal f = Inr (0, f') \<and> writing f' \<and> buffer f' = [] \<and> stored f' = written f"
  using flushBuffer_ok [OF assms] by (fastforce simp: fileFlushReal_def)

text \<open>
  C22: reading a file byte by byte gives the bytes of the input in order and then the end-of-file
  mark for ever, whatever the sizes of the chunks that \<open>read\<close> returns and wherever it is
  interrupted.
\<close>

theorem file_reads_in_order:
  assumes "no_fail rs"
  shows "\<exists>f'. get_many fileGetc n (fileWrapFD rs [] FILE_READ) =
    Inr (map uint (take n (incoming rs)) @ replicate (n - length (incoming rs)) EOF, f')"
proof -
  have "reading (fileWrapFD rs [] FILE_READ)" "to_read (fileWrapFD rs [] FILE_READ) = incoming rs"
    using assms by (simp_all add: reading_def to_read_def fileWrapFD_def)
  then show ?thesis using fsrc.get_many_rest [of "fileWrapFD rs [] FILE_READ" n] by auto
qed

theorem file_reads_in_order_witness:
  "\<exists>f'. get_many fileGetc 4 (fileWrapFD [Chunk [104], ReadIntr, Chunk [105, 10]] [] FILE_READ) =
    Inr (map uint (take 4 (incoming [Chunk [104], ReadIntr, Chunk [105, 10]])) @
         replicate (4 - length (incoming [Chunk [104], ReadIntr, Chunk [105, 10]])) EOF, f')"
  by (rule file_reads_in_order) (simp add: no_fail_def)

text \<open>
  C23: what is written to a temporary file comes back: after a block has been written and
  flushed, however \<open>write\<close> splits it, the descriptor holds exactly the old contents and the
  block; the file then rewinds to reading, and the bytes read are those of the descriptor.
\<close>

theorem file_write_read_roundtrip:
  assumes "writing f" "no_fail rs" "incoming rs = written f @ bs"
  shows "\<exists>f1 f2 f3 f4. fileWriteReal f bs = Some (Inr (0, f1)) \<and> fileFlushReal f1 = Inr (0, f2) \<and>
    stored f2 = written f @ bs \<and> fileRewind 0 rs f2 FILE_READ = Inr (0, f3) \<and>
    get_many fileGetc (length (stored f2)) f3 = Inr (map uint (stored f2), f4)"
proof -
  obtain f1 where f1: "fileWriteReal f bs = Some (Inr (0, f1))" "writing f1" "written f1 = written f @ bs"
    using fileWriteReal_ok [OF assms(1)] by blast
  obtain f2 where f2: "fileFlushReal f1 = Inr (0, f2)" "writing f2" "buffer f2 = []" "stored f2 = written f1"
    using fileFlushReal_ok [OF f1(2)] by blast
  let ?f3 = "f2\<lparr>eof := EOF_NO, fmode := FILE_READ, reads := rs\<rparr>"
  have "fileRewind 0 rs f2 FILE_READ = Inr (0, ?f3)"
    using f2(2,3) by (simp add: fileRewind_def flushBuffer_def writing_def)
  moreover have "reading ?f3" "to_read ?f3 = stored f2"
    using f1(3) f2 assms by (simp_all add: reading_def to_read_def writing_def)
  ultimately show ?thesis
    using f1 f2 fsrc.get_many_rest [of ?f3 "length (stored f2)"] by auto
qed

theorem file_write_read_roundtrip_witness:
  "\<exists>f1 f2 f3 f4.
    fileWriteReal (fileWrapFD [] [WriteIntr, Accept 1] FILE_WRITE) [7, 8] = Some (Inr (0, f1)) \<and>
    fileFlushReal f1 = Inr (0, f2) \<and>
    stored f2 = written (fileWrapFD [] [WriteIntr, Accept 1] FILE_WRITE) @ [7, 8] \<and>
    fileRewind 0 [Chunk [7, 8]] f2 FILE_READ = Inr (0, f3) \<and>
    get_many fileGetc (length (stored f2)) f3 = Inr (map uint (stored f2), f4)"
  by (rule file_write_read_roundtrip)
    (simp_all add: writing_def fileWrapFD_def writes_ok_def no_fail_def written_def)

text \<open>
  C24: a file with bytes in its buffer does not rewind: the flush succeeds and returns the
  number of bytes written, and \<open>fileRewind\<close> takes any result other than 0 for an error. The
  mode stays \<open>FILE_WRITE\<close>.
\<close>

theorem fileRewind_unflushed:
  assumes "writing f" "buffer f \<noteq> []"
  shows "\<exists>f'. fileRewind seek_err rs f FILE_READ = Inr (- 1, f') \<and> fmode f' = FILE_WRITE \<and>
    errNo f' = 0 \<and> stored f' = written f"
proof -
  obtain r f' where "flushBuffer f = Inr (r, f')" "r \<noteq> 0" "writing f'" "stored f' = written f"
    using flushBuffer_ok [OF assms(1)] assms(2) by blast
  then show ?thesis by (simp add: fileRewind_def writing_def)
qed

theorem fileRewind_unflushed_witness:
  "\<exists>f'. fileRewind 0 [] ((fileWrapFD [] [] FILE_WRITE)\<lparr>buffer := [1]\<rparr>) FILE_READ = Inr (- 1, f') \<and>
    fmode f' = FILE_WRITE \<and> errNo f' = 0 \<and>
    stored f' = written ((fileWrapFD [] [] FILE_WRITE)\<lparr>buffer := [1]\<rparr>)"
  by (rule fileRewind_unflushed)
    (simp_all add: writing_def fileWrapFD_def writes_ok_def FILE_BUFFER_SIZE_def)

end
