(* ===== verification/Streams.thy ===== *)
theory Streams
  imports Files
begin

text \<open>
  The streams of stream.c: characters come from a file or from a string in memory, through
  the two functions of the table \<open>StreamVtable\<close>. The further fields of a stream are the
  state of the UTF-8 reader and writer.

  Both kinds of stream provide the contract \<open>char_source\<close>. Putting back a byte of 128 or
  more to a string is a panic where \<open>char\<close> is signed, which is why the contract is limited to
  ASCII.
\<close>

datatype StreamData =
    FileData File
  | StringData "byte list" nat

record Stream =
  sdata :: StreamData
  bufferedChar :: int
  lastClusterCategory :: int
  highSurrogate :: int
  nextChar :: int

definition initStreamDefault :: "StreamData \<Rightarrow> Stream" where
  "initStreamDefault d =
     \<lparr>sdata = d, bufferedChar = - 1, lastClusterCategory = 0, highSurrogate = 0, nextChar = - 1\<rparr>"

definition newFileStream :: "File option \<Rightarrow> Stream option" where
  "newFileStream f = map_option (\<lambda>f. initStreamDefault (FileData f)) f"

definition newStringStream :: "byte list \<Rightarrow> Stream" where
  "newStringStream s = initStreamDefault (StringData s 0)"

definition getCharFile :: "File \<Rightarrow> (int \<times> StreamData) res" where
  "getCharFile f = bind_res (fileGetc f) (\<lambda>(c, f'). Inr (c, FileData f'))"

definition ungetCharFile :: "File \<Rightarrow> int \<Rightarrow> (int \<times> StreamData) res" where
  "ungetCharFile f c = bind_res (fileUngetc f c) (\<lambda>(r, f'). Inr (r, FileData f'))"

definition getCharString :: "byte list \<Rightarrow> nat \<Rightarrow> (int \<times> StreamData) res" where
  "getCharString s i =
     Inr (if i \<ge> length s then (EOF, StringData s i) else (uint (s ! i), StringData s (i + 1)))"

text \<open>The assertion compares a signed \<open>char\<close> with the character.\<close>

definition ungetCharString :: "byte list \<Rightarrow> nat \<Rightarrow> int \<Rightarrow> (int \<times> StreamData) res" where
  "ungetCharString s i c =
     (if i > 0 then if sint (s ! (i - 1)) = c then Inr (c, StringData s (i - 1)) else Inl Panic
      else Inr (EOF, StringData s i))"

text \<open>The calls through the table of functions.\<close>

definition getChar :: "Stream \<Rightarrow> (int \<times> Stream) res" where
  "getChar s =
     bind_res (case sdata s of FileData f \<Rightarrow> getCharFile f | StringData t i \<Rightarrow> getCharString t i)
       (\<lambda>(c, d). Inr (c, s\<lparr>sdata := d\<rparr>))"

definition ungetChar :: "Stream \<Rightarrow> int \<Rightarrow> (int \<times> Stream) res" where
  "ungetChar s c =
     bind_res (case sdata s of FileData f \<Rightarrow> ungetCharFile f c | StringData t i \<Rightarrow> ungetCharString t i c)
       (\<lambda>(r, d). Inr (r, s\<lparr>sdata := d\<rparr>))"

definition isFileStream :: "Stream \<Rightarrow> bool" where
  "isFileStream s = (case sdata s of FileData _ \<Rightarrow> True | StringData _ _ \<Rightarrow> False)"

definition sfclose :: "int \<Rightarrow> Stream \<Rightarrow> (int \<times> Stream) res" where
  "sfclose close_err s =
     (case sdata s of
        FileData f \<Rightarrow> bind_res (fileClose close_err f) (\<lambda>(r, f'). Inr (r, s\<lparr>sdata := FileData f'\<rparr>))
      | StringData _ _ \<Rightarrow> Inl Panic)"

section \<open>Both kinds of stream are sources of characters\<close>

definition stream_rest :: "Stream \<Rightarrow> byte list" where
  "stream_rest s = (case sdata s of FileData f \<Rightarrow> to_read f | StringData t i \<Rightarrow> drop i t)"

definition stream_last :: "Stream \<Rightarrow> byte option" where
  "stream_last s =
     (case sdata s of
        FileData f \<Rightarrow> last_byte f
      | StringData t i \<Rightarrow> if 0 < i then Some (t ! (i - 1)) else None)"

definition stream_ok :: "Stream \<Rightarrow> bool" where
  "stream_ok s = (case sdata s of FileData f \<Rightarrow> reading f | StringData t i \<Rightarrow> i \<le> length t)"

text \<open>The state of the UTF-8 reader that a byte leaves alone.\<close>

definition same_reader :: "Stream \<Rightarrow> Stream \<Rightarrow> bool" where
  "same_reader s s' \<longleftrightarrow> bufferedChar s' = bufferedChar s \<and> nextChar s' = nextChar s \<and>
     lastClusterCategory s' = lastClusterCategory s \<and> highSurrogate s' = highSurrogate s \<and>
     isFileStream s' = isFileStream s"

lemma getChar_eof:
  assumes "stream_ok s" "stream_rest s = []"
  shows "\<exists>s'. getChar s = Inr (EOF, s') \<and> stream_ok s' \<and> stream_rest s' = [] \<and> same_reader s s'"
proof (cases "sdata s")
  case (FileData f)
  with assms fileGetc_eof [of f] show ?thesis
    by (fastforce simp: getChar_def getCharFile_def stream_ok_def stream_rest_def same_reader_def isFileStream_def)
next
  case (StringData t i)
  with assms show ?thesis
    by (auto simp: getChar_def getCharString_def stream_ok_def stream_rest_def same_reader_def isFileStream_def)
qed

lemma getChar_byte:
  assumes "stream_ok s" "stream_rest s = b # bs"
  shows "\<exists>s'. getChar s = Inr (uint b, s') \<and> stream_ok s' \<and> stream_rest s' = bs \<and>
    stream_last s' = Some b \<and> same_reader s s'"
proof (cases "sdata s")
  case (FileData f)
  with assms fileGetc_byte [of f b bs] show ?thesis
    by (fastforce simp: getChar_def getCharFile_def stream_ok_def stream_rest_def stream_last_def
        same_reader_def isFileStream_def)
next
  case (StringData t i)
  with assms have "i < length t" by (cases "i < length t") (auto simp: stream_rest_def)
  with assms StringData Cons_nth_drop_Suc [OF this] show ?thesis
    by (auto simp: getChar_def getCharString_def stream_ok_def stream_rest_def stream_last_def
        same_reader_def isFileStream_def)
qed

lemma sint_ascii: "uint (b :: byte) < 128 \<Longrightarrow> sint b = uint b"
proof -
  assume "uint b < 128"
  then have "uint b < 2 ^ 7" by simp
  moreover have "- (2 ^ 7) \<le> uint b" by (rule order_trans [of _ 0]) simp_all
  ultimately have "signed_take_bit 7 (uint b) = uint b" by (intro signed_take_bit_int_eq_self)
  then show ?thesis by (simp add: sint_uint)
qed

lemma ungetChar_byte:
  assumes "stream_ok s" "stream_last s = Some b" "uint b < 128 \<or> isFileStream s"
  shows "\<exists>r s'. ungetChar s (uint b) = Inr (r, s') \<and> stream_ok s' \<and> stream_rest s' = b # stream_rest s \<and>
    same_reader s s'"
proof (cases "sdata s")
  case (FileData f)
  with assms fileUngetc_byte [of f b] show ?thesis
    by (fastforce simp: ungetChar_def ungetCharFile_def stream_ok_def stream_rest_def stream_last_def
        same_reader_def isFileStream_def)
next
  case (StringData t i)
  with assms(2) obtain k where k: "i = Suc k" "t ! k = b"
    by (cases i) (auto simp: stream_last_def)
  with assms(1) StringData have "drop k t = b # drop (Suc k) t"
    using Cons_nth_drop_Suc [of k t] by (simp add: stream_ok_def)
  with assms(1,3) StringData k show ?thesis
    by (auto simp: ungetChar_def ungetCharString_def stream_ok_def stream_rest_def sint_ascii
        same_reader_def isFileStream_def)
qed

interpretation ssrc: char_source getChar ungetChar stream_rest stream_last stream_ok
  by unfold_locales (use getChar_eof getChar_byte ungetChar_byte in blast)+

end
