(* ===== verification/Vector.thy ===== *)
theory Vector
  imports Prelude
begin

text \<open>
  The growable vectors of vector.h. A vector is a pointer to \<open>allocated\<close> cells of which the
  first \<open>used\<close> hold data; the model keeps the list of used cells and the size of the
  allocation, so \<open>used\<close> is the length of the list. The macros are followed by the
  interface \<open>growable\<close> that the users of vectors rely on (appending a cell, appending a
  block after making room for it, emptying), and by its interpretation on the macros.
\<close>

record 'a vector =
  vdata :: "'a list"
  allocated :: nat

definition VECTOR_INITIAL_SIZE :: nat where
  "VECTOR_INITIAL_SIZE = 32"

definition used :: "'a vector \<Rightarrow> nat" where
  "used v = length (vdata v)"

definition VECTOR_INIT :: "'a vector" where
  "VECTOR_INIT = \<lparr>vdata = [], allocated = 0\<rparr>"

definition VECTOR_INIT_ALLOCATED :: "'a vector" where
  "VECTOR_INIT_ALLOCATED = \<lparr>vdata = [], allocated = VECTOR_INITIAL_SIZE\<rparr>"

definition VECTOR_APPEND :: "'a vector \<Rightarrow> 'a \<Rightarrow> 'a vector" where
  "VECTOR_APPEND v x =
     (let a = (if allocated v \<le> used v
               then (if allocated v = 0 then VECTOR_INITIAL_SIZE else allocated v * 2)
               else allocated v)
      in \<lparr>vdata = vdata v @ [x], allocated = a\<rparr>)"

text \<open>The loop \<open>while (allocated <= used + value) allocated *= 2\<close> of \<open>VECTOR_ALLOCATE\<close>.\<close>

function double_until :: "nat \<Rightarrow> nat \<Rightarrow> nat" where
  "double_until n a = (if 0 < a \<and> a \<le> n then double_until n (a * 2) else a)"
  by pat_completeness auto
termination
  by (relation "measure (\<lambda>(n, a). Suc n - a)") auto

declare double_until.simps [simp del]

definition VECTOR_ALLOCATE :: "'a vector \<Rightarrow> nat \<Rightarrow> 'a vector" where
  "VECTOR_ALLOCATE v n =
     (if used v + n < allocated v then v
      else v\<lparr>allocated := double_until (used v + n)
               (if allocated v = 0 then VECTOR_INITIAL_SIZE else allocated v)\<rparr>)"

text \<open>
  The pattern used for blocks: \<open>VECTOR_ALLOCATE\<close>, \<open>memcpy\<close> to the end of the used part, and
  \<open>used += n\<close>.
\<close>

definition vector_write :: "'a vector \<Rightarrow> 'a list \<Rightarrow> 'a vector" where
  "vector_write v xs =
     (let w = VECTOR_ALLOCATE v (length xs) in w\<lparr>vdata := vdata w @ xs\<rparr>)"

definition vector_clear :: "'a vector \<Rightarrow> 'a vector" where
  "vector_clear v = v\<lparr>vdata := []\<rparr>"

definition VECTOR_FREE :: "'a vector \<Rightarrow> 'a vector" where
  "VECTOR_FREE v = v\<lparr>vdata := [], allocated := 0\<rparr>"

definition vector_wf :: "'a vector \<Rightarrow> bool" where
  "vector_wf v \<longleftrightarrow> used v \<le> allocated v"

section \<open>The contract of growable buffers\<close>

locale growable =
  fixes contents :: "'v \<Rightarrow> 'a list"
    and append :: "'v \<Rightarrow> 'a \<Rightarrow> 'v"
    and put :: "'v \<Rightarrow> 'a list \<Rightarrow> 'v"
    and clear :: "'v \<Rightarrow> 'v"
    and invar :: "'v \<Rightarrow> bool"
  assumes contents_append: "contents (append v x) = contents v @ [x]"
    and contents_put: "contents (put v xs) = contents v @ xs"
    and contents_clear: "contents (clear v) = []"
    and invar_append: "invar v \<Longrightarrow> invar (append v x)"
    and invar_put: "invar v \<Longrightarrow> invar (put v xs)"
    and invar_clear: "invar v \<Longrightarrow> invar (clear v)"
begin

lemma contents_foldl_append: "contents (foldl append v xs) = contents v @ xs"
  by (induction xs arbitrary: v) (simp_all add: contents_append)

lemma invar_foldl_append: "invar v \<Longrightarrow> invar (foldl append v xs)"
  by (induction xs arbitrary: v) (simp_all add: invar_append)

lemma contents_foldl_put: "contents (foldl put v xss) = contents v @ concat xss"
  by (induction xss arbitrary: v) (simp_all add: contents_put)

lemma invar_foldl_put: "invar v \<Longrightarrow> invar (foldl put v xss)"
  by (induction xss arbitrary: v) (simp_all add: invar_put)

text \<open>Appending cell by cell and writing the block at once leave the same contents.\<close>

lemma append_put: "contents (foldl append v xs) = contents (put v xs)"
  by (simp add: contents_foldl_append contents_put)

end

section \<open>The macros satisfy the contract\<close>

lemma double_until_gt: "0 < a \<Longrightarrow> n < double_until n a"
proof (induction n a rule: double_until.induct)
  case (1 n a)
  then show ?case
    by (cases "a \<le> n") (simp_all add: double_until.simps [of n a])
qed

lemma double_until_le: "a \<le> n \<Longrightarrow> 0 < a \<Longrightarrow> double_until n a \<le> 2 * n"
proof (induction n a rule: double_until.induct)
  case (1 n a)
  show ?case
  proof (cases "a * 2 \<le> n")
    case True
    with 1 show ?thesis by (simp add: double_until.simps [of n a])
  next
    case False
    with 1 show ?thesis
      by (simp add: double_until.simps [of n a] double_until.simps [of n "a * 2"])
  qed
qed

lemma VECTOR_ALLOCATE_room: "used v + n < allocated (VECTOR_ALLOCATE v n)"
  using double_until_gt [of "if allocated v = 0 then VECTOR_INITIAL_SIZE else allocated v"
      "used v + n"]
  by (auto simp: VECTOR_ALLOCATE_def VECTOR_INITIAL_SIZE_def)

lemma VECTOR_ALLOCATE_vdata [simp]: "vdata (VECTOR_ALLOCATE v n) = vdata v"
  by (simp add: VECTOR_ALLOCATE_def)

lemma vdata_VECTOR_APPEND [simp]: "vdata (VECTOR_APPEND v x) = vdata v @ [x]"
  by (simp add: VECTOR_APPEND_def Let_def)

lemma vdata_vector_write [simp]: "vdata (vector_write v xs) = vdata v @ xs"
  by (simp add: vector_write_def Let_def)

lemma vdata_vector_clear [simp]: "vdata (vector_clear v) = []"
  by (simp add: vector_clear_def)

lemma vdata_VECTOR_INIT [simp]: "vdata VECTOR_INIT = []"
  and vdata_VECTOR_INIT_ALLOCATED [simp]: "vdata VECTOR_INIT_ALLOCATED = []"
  by (simp_all add: VECTOR_INIT_def VECTOR_INIT_ALLOCATED_def)

lemma vector_wf_APPEND: "vector_wf v \<Longrightarrow> vector_wf (VECTOR_APPEND v x)"
  by (auto simp: vector_wf_def used_def VECTOR_APPEND_def VECTOR_INITIAL_SIZE_def Let_def
      Suc_le_eq)

lemma vector_wf_write: "vector_wf (vector_write v xs)"
  using VECTOR_ALLOCATE_room [of v "length xs"]
  by (simp add: vector_wf_def used_def vector_write_def Let_def)

lemma vector_wf_clear: "vector_wf (vector_clear v)"
  by (simp add: vector_wf_def used_def)

lemma vector_wf_init: "vector_wf VECTOR_INIT" "vector_wf VECTOR_INIT_ALLOCATED"
  by (simp_all add: vector_wf_def used_def)

interpretation vec: growable vdata VECTOR_APPEND vector_write vector_clear vector_wf
  by unfold_locales (simp_all add: vector_wf_APPEND vector_wf_write vector_wf_clear)

lemmas vector_wf_intros = vector_wf_APPEND vector_wf_write vector_wf_clear vector_wf_init

text \<open>
  C15: \<open>VECTOR_ALLOCATE\<close> ends with more than \<open>used + n\<close> cells, so that a block of \<open>n\<close> cells
  written at the end of the used part, and one cell after it, stay inside the allocation;
  a vector that had room is left alone, and otherwise the new size is at most twice the
  larger of the requested size and the initial size.
\<close>

theorem VECTOR_ALLOCATE_bounds:
  "used v + n < allocated (VECTOR_ALLOCATE v n)
   \<and> vdata (VECTOR_ALLOCATE v n) = vdata v
   \<and> (used v + n < allocated v \<longrightarrow> VECTOR_ALLOCATE v n = v)
   \<and> allocated (VECTOR_ALLOCATE v n)
       \<le> max (allocated v) (2 * max (used v + n) VECTOR_INITIAL_SIZE)"
proof -
  let ?a = "if allocated v = 0 then VECTOR_INITIAL_SIZE else allocated v"
  have pos: "0 < ?a" by (simp add: VECTOR_INITIAL_SIZE_def)
  have "double_until (used v + n) ?a \<le> max ?a (2 * (used v + n))"
  proof (cases "?a \<le> used v + n")
    case True
    then show ?thesis using double_until_le [OF True pos] by simp
  next
    case False
    then show ?thesis by (subst double_until.simps) simp
  qed
  then have "allocated (VECTOR_ALLOCATE v n)
      \<le> max (allocated v) (2 * max (used v + n) VECTOR_INITIAL_SIZE)"
    by (auto simp: VECTOR_ALLOCATE_def max_def split: if_splits)
  moreover have "used v + n < allocated v \<longrightarrow> VECTOR_ALLOCATE v n = v"
    by (simp add: VECTOR_ALLOCATE_def)
  ultimately show ?thesis
    by (simp add: VECTOR_ALLOCATE_room)
qed

theorem VECTOR_ALLOCATE_bounds_witness:
  "VECTOR_ALLOCATE \<lparr>vdata = [1::nat], allocated = 32\<rparr> 4 = \<lparr>vdata = [1], allocated = 32\<rparr>"
  using VECTOR_ALLOCATE_bounds [of "\<lparr>vdata = [1::nat], allocated = 32\<rparr>" 4]
  by (simp add: used_def)

end
