(* ===== verification/Unicode.thy ===== *)
theory Unicode
  imports Streams Vector "HOL-Library.Monad_Syntax"
begin

text \<open>
  The UTF-8 and UTF-16 functions of unicode.c: the decoder of a stream, the conversion to
  UTF-8, the division into clusters, and the operations on UTF-16 buffers. The properties of
  characters and the normalisation come from ICU; they are parameters: \<open>gcb\<close> is the
  grapheme cluster break category of a character, \<open>norm\<close> and \<open>fold_case\<close> the conversions, and
  the condition of \<open>isUTF16\<close> the test of a character.

  The lemmas say that the decoder inverts the UTF-8 encoding of every scalar value, which
  values the conversion to UTF-8 encodes, how clusters divide the characters of a stream, and
  that the comparison of buffers orders them linearly.
\<close>

unbundle bit_operations_syntax

type_synonym UChar = "16 word"
type_synonym UTF16Buffer = "UChar vector"

section \<open>Reading UTF-8\<close>

definition UEOVERLONG :: int where "UEOVERLONG = - 2"
definition UEINVALID :: int where "UEINVALID = - 3"
definition UETOOLARGE :: int where "UETOOLARGE = - 4"

text \<open>The switch on the first byte: a result, or the least value and the number of bytes to come.\<close>

datatype lead = Done int | Start int nat int

definition getuc_lead :: "int \<Rightarrow> lead res" where
  "getuc_lead c =
     (if 0 \<le> c \<and> c \<le> 127 then Inr (Done c)
      else if 128 \<le> c \<and> c \<le> 191 then Inr (Done UEINVALID)
      else if 192 \<le> c \<and> c \<le> 193 then Inr (Done UEOVERLONG)
      else if 194 \<le> c \<and> c \<le> 223 then Inr (Start 0x80 1 (c AND 0x1F))
      else if 224 \<le> c \<and> c \<le> 239 then Inr (Start 0x800 2 (c AND 0x0F))
      else if 240 \<le> c \<and> c \<le> 244 then Inr (Start 0x10000 3 (c AND 0x07))
      else if 245 \<le> c \<and> c \<le> 255 then Inr (Done UETOOLARGE)
      else Inl Panic)"

fun getuc_tail :: "nat \<Rightarrow> int \<Rightarrow> int \<Rightarrow> Stream \<Rightarrow> (int \<times> Stream) res" where
  "getuc_tail 0 least retval s =
     Inr (if retval < least then UEOVERLONG else if retval > 0x10FFFF then UETOOLARGE else retval, s)"
| "getuc_tail (Suc n) least retval s =
     bind_res (getChar s) (\<lambda>(c, s1).
       if c = EOF then Inr (UEINVALID, s1)
       else if c AND 0xC0 \<noteq> 0x80 then bind_res (ungetChar s1 c) (\<lambda>(_, s2). Inr (UEINVALID, s2))
       else getuc_tail n least (push_bit 6 retval OR (c AND 0x3F)) s1)"

declare getuc_tail.simps(2) [simp del]

definition getuc :: "Stream \<Rightarrow> (int \<times> Stream) res" where
  "getuc s =
     bind_res (getChar s) (\<lambda>(c, s1).
       if c = EOF then Inr (EOF, s1)
       else bind_res (getuc_lead c) (\<lambda>l. case l of
              Done r \<Rightarrow> Inr (r, s1)
            | Start least n retval \<Rightarrow> getuc_tail n least retval s1))"

definition REPLACEMENT_CHARACTER :: int where
  "REPLACEMENT_CHARACTER = 0xFFFD"

definition getucFiltered :: "Stream \<Rightarrow> (int \<times> Stream) res" where
  "getucFiltered s0 =
     bind_res (if nextChar s0 \<ge> 0 then Inr (nextChar s0, s0\<lparr>nextChar := - 1\<rparr>) else getuc s0)
       (\<lambda>(c, s).
          if c < 0 then Inr (if c = EOF then EOF else REPLACEMENT_CHARACTER, s)
          else if c AND 0xF800 = 0xD800 then
            if c AND 0xDC00 = 0xDC00 then Inr (REPLACEMENT_CHARACTER, s)
            else bind_res (getuc s) (\<lambda>(clow, s1).
                   if clow AND 0xFC00 \<noteq> 0xDC00
                   then Inr (REPLACEMENT_CHARACTER, s1\<lparr>nextChar := clow\<rparr>)
                   else Inr (clow + push_bit 10 c + 0x10000 - push_bit 10 0xD800 - 0xDC00, s1))
          else Inr (c, s))"

section \<open>Writing UTF-8\<close>

text \<open>The loop that fills the buffer from the last byte to the first.\<close>

fun encode_loop :: "nat \<Rightarrow> int \<Rightarrow> byte list" where
  "encode_loop 0 c = []"
| "encode_loop (Suc i) c = encode_loop i (drop_bit 6 c) @ [word_of_int ((c AND 0x3F) OR 0x80)]"

definition convertToUTF8 :: "int \<Rightarrow> byte list" where
  "convertToUTF8 c =
     (let bytes = (if c > 0x10000 then 4 else if c > 0x800 then 3 else if c > 0x80 then 2 else 1)
      in if bytes = 1 then [word_of_int c]
         else let bs = encode_loop bytes c
              in (hd bs OR word_of_int (push_bit (4 - bytes) 0xF0)) # tl bs)"

text \<open>The bytes, and the high surrogate kept for the next call.\<close>

definition filteredConvertToUTF8 :: "int \<Rightarrow> int \<Rightarrow> (byte list \<times> int) res" where
  "filteredConvertToUTF8 c high =
     (if c AND 0xFC00 = 0xD800 then Inr ([], c)
      else if c AND 0xFC00 = 0xDC00 then
        if high = 0 then Inl Panic
        else Inr (convertToUTF8 (c + push_bit 10 high + 0x10000 - push_bit 10 0xD800 - 0xDC00), 0)
      else Inr (convertToUTF8 c, high))"

text \<open>
  \<open>putuc\<close> on a file stream whose table holds \<open>fileWriteReal\<close>; \<open>None\<close> would be a write that does
  not return.
\<close>

definition putuc :: "Stream \<Rightarrow> int \<Rightarrow> (int \<times> Stream) res option" where
  "putuc s c =
     (case filteredConvertToUTF8 c (highSurrogate s) of
        Inl e \<Rightarrow> Some (Inl e)
      | Inr (encoded, high) \<Rightarrow>
          let s1 = s\<lparr>highSurrogate := high\<rparr>
          in if encoded = [] then Some (Inr (0, s1))
             else case sdata s1 of
                    StringData _ _ \<Rightarrow> Some (Inl Panic)
                  | FileData f \<Rightarrow>
                      map_option (\<lambda>r. bind_res r (\<lambda>(n, f').
                        Inr (if n < int (length encoded) then EOF else 0, s1\<lparr>sdata := FileData f'\<rparr>)))
                        (fileWriteReal f encoded))"

section \<open>Buffers of UTF-16 code units\<close>

definition addUCS4ToUTF16Buffer :: "UTF16Buffer \<Rightarrow> int \<Rightarrow> UTF16Buffer" where
  "addUCS4ToUTF16Buffer buf c =
     (if c > 0x10000 then
        VECTOR_APPEND (VECTOR_APPEND buf (word_of_int (0xD800 - drop_bit 10 0x10000 + drop_bit 10 c)))
          (word_of_int (0xDC00 OR (c AND 0x3FF)))
      else VECTOR_APPEND buf (word_of_int c))"

text \<open>\<open>memcmp\<close> on the bytes of the code units, in little-endian order.\<close>

fun memcmp :: "byte list \<Rightarrow> byte list \<Rightarrow> int" where
  "memcmp (a # as) (b # bs) = (if a = b then memcmp as bs else uint a - uint b)"
| "memcmp _ _ = 0"

definition unit_bytes :: "UChar \<Rightarrow> byte list" where
  "unit_bytes u = [ucast u, ucast (drop_bit 8 u)]"

definition compareUTF16Buffer :: "UTF16Buffer \<Rightarrow> UTF16Buffer \<Rightarrow> int" where
  "compareUTF16Buffer a b =
     (let minlen = (if used a < used b then used a else used b);
          result = memcmp (concat (map unit_bytes (take minlen (vdata a))))
                     (concat (map unit_bytes (take minlen (vdata b))))
      in if result \<noteq> 0 then result
         else if used b > minlen then - 1
         else if used a > minlen then 1
         else 0)"

text \<open>The loop of \<open>isUTF16Punct\<close> and \<open>isUTF16Whitespace\<close>, with the condition on a character.\<close>

fun isUTF16 :: "(int \<Rightarrow> bool) \<Rightarrow> UChar list \<Rightarrow> bool res" where
  "isUTF16 condition [] = Inr True"
| "isUTF16 condition (u # us) =
     (if u AND 0xFC00 = 0xD800 then
        (case us of
           [] \<Rightarrow> Inl Panic
         | v # vs \<Rightarrow>
             if condition (push_bit 10 (uint u AND 0x3FF) + 0x10000 + (uint v AND 0x3FF))
             then isUTF16 condition vs else Inr False)
      else if condition (uint u) then isUTF16 condition us else Inr False)"

section \<open>Clusters\<close>

definition MAX_GCB_CLASS :: int where
  "MAX_GCB_CLASS = 13"

definition clusterContinuationTable :: "nat list list" where
  "clusterContinuationTable =
    [[0, 0, 0, 1, 0, 0, 0, 0, 0, 0, 1, 0, 0],
     [0, 0, 0, 0, 0, 0, 0, 0, 0, 0, 0, 0, 0],
     [0, 0, 0, 0, 0, 0, 0, 0, 0, 0, 0, 0, 0],
     [0, 0, 0, 1, 0, 0, 0, 0, 0, 0, 1, 0, 0],
     [0, 0, 0, 1, 1, 0, 1, 1, 0, 1, 1, 0, 0],
     [0, 0, 0, 0, 0, 0, 0, 0, 0, 0, 0, 0, 0],
     [0, 0, 0, 1, 0, 0, 0, 0, 1, 1, 1, 0, 0],
     [0, 0, 0, 1, 0, 0, 0, 0, 1, 0, 1, 0, 0],
     [0, 0, 0, 1, 0, 0, 0, 0, 1, 0, 1, 0, 0],
     [0, 0, 0, 1, 0, 0, 0, 0, 1, 1, 1, 0, 0],
     [0, 0, 0, 1, 0, 0, 0, 0, 0, 0, 1, 0, 0],
     [1, 0, 0, 1, 1, 0, 1, 1, 1, 1, 1, 1, 1],
     [0, 0, 0, 1, 0, 0, 0, 0, 0, 0, 1, 0, 1]]"

definition backspaceContinuationTable :: "nat list list" where
  "backspaceContinuationTable =
    [[0, 0, 0, 1, 0, 0, 0, 0, 0, 0, 0, 0, 0],
     [0, 0, 0, 0, 0, 0, 0, 0, 0, 0, 0, 0, 0],
     [0, 0, 0, 0, 0, 0, 0, 0, 0, 0, 0, 0, 0],
     [0, 0, 0, 1, 0, 0, 0, 0, 0, 0, 0, 0, 0],
     [0, 0, 0, 1, 1, 0, 1, 1, 0, 1, 0, 0, 0],
     [0, 0, 0, 0, 0, 0, 0, 0, 0, 0, 0, 0, 0],
     [0, 0, 0, 1, 0, 0, 0, 0, 1, 1, 0, 0, 0],
     [0, 0, 0, 1, 0, 0, 0, 0, 1, 0, 0, 0, 0],
     [0, 0, 0, 1, 0, 0, 0, 0, 1, 0, 0, 0, 0],
     [0, 0, 0, 1, 0, 0, 0, 0, 1, 1, 0, 0, 0],
     [0, 0, 0, 0, 0, 0, 0, 0, 0, 0, 0, 0, 0],
     [0, 0, 0, 0, 0, 0, 0, 0, 0, 0, 0, 0, 0],
     [0, 0, 0, 0, 0, 0, 0, 0, 0, 0, 0, 0, 0]]"

definition getClusterCategory :: "(int \<Rightarrow> int) \<Rightarrow> int \<Rightarrow> int" where
  "getClusterCategory gcb c = (if gcb c \<ge> MAX_GCB_CLASS then 0 else gcb c)"

text \<open>The loop that appends characters; \<open>None\<close> would be a loop that does not end.\<close>

partial_function (option) cluster_loop :: "(int \<Rightarrow> int) \<Rightarrow> nat list list \<Rightarrow> int \<Rightarrow> Stream \<Rightarrow> UTF16Buffer \<Rightarrow>
    (UTF16Buffer \<times> Stream) res option" where
  "cluster_loop gcb table category s buf =
     (let buf1 = addUCS4ToUTF16Buffer buf (bufferedChar s)
      in case getucFiltered s of
           Inl e \<Rightarrow> Some (Inl e)
         | Inr (c, s1) \<Rightarrow>
             if c < 0 then
               Some (Inr (buf1,
                 s1\<lparr>bufferedChar := c, lastClusterCategory := 0,
                    sdata := (case sdata s1 of
                                FileData f \<Rightarrow> FileData (fileClearEof f)
                              | StringData t i \<Rightarrow> StringData t i)\<rparr>))
             else let new = getClusterCategory gcb c;
                      s2 = s1\<lparr>bufferedChar := c, lastClusterCategory := new\<rparr>
                  in if table ! nat category ! nat new \<noteq> 0 then cluster_loop gcb table new s2 buf1
                     else Some (Inr (buf1, s2)))"

definition getClusterInternal :: "(int \<Rightarrow> int) \<Rightarrow> nat list list \<Rightarrow> Stream \<Rightarrow> UTF16Buffer \<Rightarrow>
    (bool \<times> UTF16Buffer \<times> Stream) res option" where
  "getClusterInternal gcb table s buf0 =
     (let buf = vector_clear buf0;
          go = (\<lambda>category s. map_option (\<lambda>r. bind_res r (\<lambda>(b, s'). Inr (True, b, s')))
                 (cluster_loop gcb table category s buf))
      in if bufferedChar s < 0 then
           case getucFiltered s of
             Inl e \<Rightarrow> Some (Inl e)
           | Inr (c, s1) \<Rightarrow>
               let s2 = s1\<lparr>bufferedChar := c\<rparr>
               in if c < 0 then Some (Inr (False, buf, s2)) else go (getClusterCategory gcb c) s2
         else go (lastClusterCategory s) s)"

definition getCluster :: "(int \<Rightarrow> int) \<Rightarrow> Stream \<Rightarrow> UTF16Buffer \<Rightarrow> (bool \<times> UTF16Buffer \<times> Stream) res option" where
  "getCluster gcb = getClusterInternal gcb clusterContinuationTable"

definition getBackspaceCluster :: "(int \<Rightarrow> int) \<Rightarrow> Stream \<Rightarrow> UTF16Buffer \<Rightarrow>
    (bool \<times> UTF16Buffer \<times> Stream) res option" where
  "getBackspaceCluster gcb = getClusterInternal gcb backspaceContinuationTable"

section \<open>Decomposition and case folding\<close>

record CharData =
  singleChar :: int
  original :: UTF16Buffer
  converted :: UTF16Buffer
  casefolded :: UTF16Buffer

text \<open>
  A call of an ICU conversion: the length of the result, and the contents of the destination,
  which receives the result when it fits.
\<close>

definition icu_convert :: "(UChar list \<Rightarrow> UChar list) \<Rightarrow> UChar list \<Rightarrow> UTF16Buffer \<Rightarrow> nat \<times> UChar list \<times> bool" where
  "icu_convert conv src dst =
     (let r = conv src in if length r \<le> allocated dst then (length r, r, True) else (length r, [], False))"

definition decomposeChar :: "(UChar list \<Rightarrow> UChar list) \<Rightarrow> CharData \<Rightarrow> CharData res" where
  "decomposeChar norm c =
     (let (n, r, ok) = icu_convert norm (vdata (original c)) (converted c)
      in if n > allocated (converted c) then
           let v = VECTOR_ALLOCATE (converted c) (n * 2);
               (n', r', ok') = icu_convert norm (vdata (original c)) v
           in if ok' then Inr (c\<lparr>converted := v\<lparr>vdata := r'\<rparr>\<rparr>) else Inl Panic
         else if ok then Inr (c\<lparr>converted := (converted c)\<lparr>vdata := r\<rparr>\<rparr>) else Inl Panic)"

definition casefoldChar :: "(UChar list \<Rightarrow> UChar list) \<Rightarrow> CharData \<Rightarrow> CharData res" where
  "casefoldChar fold_case c =
     (let (n, r, ok) = icu_convert fold_case (vdata (converted c)) (casefolded c)
      in if n > allocated (casefolded c) then
           let v = (casefolded c)\<lparr>allocated := n\<rparr>;
               (n', r', ok') = icu_convert fold_case (vdata (converted c)) v
           in if ok' then Inr (c\<lparr>casefolded := v\<lparr>vdata := r'\<rparr>\<rparr>) else Inl Panic
         else if ok then Inr (c\<lparr>casefolded := (casefolded c)\<lparr>vdata := r\<rparr>\<rparr>) else Inl Panic)"

section \<open>Bit operations as arithmetic\<close>

lemma and_mask_mod:
  "(x::int) AND 0x3F = x mod 64" "(x::int) AND 0x1F = x mod 32" "(x::int) AND 0x0F = x mod 16"
  "(x::int) AND 0x07 = x mod 8" "(x::int) AND 0x3FF = x mod 1024"
proof -
  have m: "(x::int) AND mask n = x mod 2 ^ n" for n
    by (simp add: take_bit_eq_mod flip: take_bit_eq_mask)
  show "x AND 0x3F = x mod 64" using m [of 6] by (simp add: mask_eq_exp_minus_1)
  show "x AND 0x1F = x mod 32" using m [of 5] by (simp add: mask_eq_exp_minus_1)
  show "x AND 0x0F = x mod 16" using m [of 4] by (simp add: mask_eq_exp_minus_1)
  show "x AND 0x07 = x mod 8" using m [of 3] by (simp add: mask_eq_exp_minus_1)
  show "x AND 0x3FF = x mod 1024" using m [of 10] by (simp add: mask_eq_exp_minus_1)
qed

lemma and_high_bits: "(x::int) AND push_bit n m = push_bit n (drop_bit n x AND m)"
  by (rule bit_eqI) (auto simp: bit_simps)

lemma and_C0: "(x::int) AND 0xC0 = 64 * ((x div 64) mod 4)"
proof -
  have "(0xC0 :: int) = push_bit 6 (mask 2)" by (simp add: mask_eq_exp_minus_1 push_bit_eq_mult)
  then have "x AND 0xC0 = push_bit 6 (take_bit 2 (drop_bit 6 x))"
    by (simp only: and_high_bits take_bit_eq_mask)
  then show ?thesis by (simp add: push_bit_eq_mult take_bit_eq_mod drop_bit_eq_div)
qed

lemma or_low_bits:
  assumes "0 \<le> y" "y < 2 ^ n"
  shows "push_bit n (x::int) OR y = x * 2 ^ n + y"
proof -
  have "take_bit n y = y" using assms by (simp add: take_bit_int_eq_self)
  then have low: "bit y m \<Longrightarrow> m < n" for m by (metis bit_take_bit_iff)
  have "push_bit n x + y = push_bit n x OR y"
    by (intro disjunctive_add) (auto simp: bit_simps dest: low)
  then show ?thesis by (simp add: push_bit_eq_mult)
qed

lemma uint_byte: "0 \<le> x \<Longrightarrow> x < 256 \<Longrightarrow> uint (word_of_int x :: byte) = x"
  by (simp add: unsigned_of_int take_bit_int_eq_self)

section \<open>The decoder inverts UTF-8\<close>

text \<open>The encoding of a scalar value by the standard.\<close>

definition utf8 :: "int \<Rightarrow> byte list" where
  "utf8 c =
     map word_of_int
      (if c < 0x80 then [c]
       else if c < 0x800 then [0xC0 + c div 64, 0x80 + c mod 64]
       else if c < 0x10000 then [0xE0 + c div 4096, 0x80 + c div 64 mod 64, 0x80 + c mod 64]
       else [0xF0 + c div 262144, 0x80 + c div 4096 mod 64, 0x80 + c div 64 mod 64, 0x80 + c mod 64])"

text \<open>A continuation byte contributes its six low bits.\<close>

lemma getuc_tail_byte:
  assumes "stream_ok s" "stream_rest s = word_of_int (0x80 + x) # bs" "0 \<le> x" "x < 64"
  shows "\<exists>s'. getuc_tail (Suc n) least retval s = getuc_tail n least (retval * 64 + x) s' \<and>
    stream_ok s' \<and> stream_rest s' = bs \<and> same_reader s s'"
proof -
  have u: "uint (word_of_int (0x80 + x) :: byte) = 0x80 + x" by (rule uint_byte) (use assms in auto)
  obtain s' where s': "getChar s = Inr (0x80 + x, s')" "stream_ok s'" "stream_rest s' = bs" "same_reader s s'"
    using getChar_byte [OF assms(1,2)] unfolding u by blast
  have "(0x80 + x) AND 0xC0 = 0x80"
  proof -
    have "(0x80 + x) div 64 = 2" using assms(3,4) by linarith
    then show ?thesis by (simp add: and_C0)
  qed
  moreover have "(0x80 + x) AND 0x3F = x" using assms(3,4) by (simp add: and_mask_mod) presburger
  ultimately have "getuc_tail (Suc n) least retval s = getuc_tail n least (push_bit 6 retval OR x) s'"
    using s'(1) assms(3) by (simp add: getuc_tail.simps(2))
  with or_low_bits [of x 6 retval] assms(3,4) s' show ?thesis by auto
qed

lemma same_reader_trans: "same_reader s t \<Longrightarrow> same_reader t u \<Longrightarrow> same_reader s u"
  by (simp add: same_reader_def)

text \<open>The digits of a character in base 64.\<close>

lemma lead_mod:
  "0 \<le> q \<Longrightarrow> q < 32 \<Longrightarrow> (0xC0 + q) mod 32 = (q::int)"
  "0 \<le> q \<Longrightarrow> q < 16 \<Longrightarrow> (0xE0 + q) mod 16 = (q::int)"
  "0 \<le> q \<Longrightarrow> q < 8 \<Longrightarrow> (0xF0 + q) mod 8 = (q::int)"
  by presburger+

lemma base64_digits:
  "(c div 4096 * 64 + c div 64 mod 64) * 64 + c mod 64 = (c::int)"
  "((c div 262144 * 64 + c div 4096 mod 64) * 64 + c div 64 mod 64) * 64 + c mod 64 = (c::int)"
proof -
  have d: "c div 4096 = c div 64 div 64" "c div 262144 = c div 4096 div 64"
    using zdiv_zmult2_eq [of 64 c 64] zdiv_zmult2_eq [of 64 c 4096] by simp_all
  then have "c div 4096 * 64 + c div 64 mod 64 = c div 64" by simp
  moreover have "c div 262144 * 64 + c div 4096 mod 64 = c div 4096" by (simp only: d(2)) simp
  ultimately show "(c div 4096 * 64 + c div 64 mod 64) * 64 + c mod 64 = c"
    "((c div 262144 * 64 + c div 4096 mod 64) * 64 + c div 64 mod 64) * 64 + c mod 64 = c"
    by simp_all
qed

lemma mod64: "0 \<le> x mod (64::int)" "x mod (64::int) < 64"
  by simp_all

text \<open>The first byte of a longer sequence.\<close>

lemma getuc_start:
  assumes "stream_ok s" "stream_rest s = word_of_int b # bs" "0 \<le> b" "b < 256"
    "getuc_lead b = Inr (Start least n r)"
  shows "\<exists>s'. getuc s = getuc_tail n least r s' \<and> stream_ok s' \<and> stream_rest s' = bs \<and> same_reader s s'"
proof -
  have u: "uint (word_of_int b :: byte) = b" using assms(3,4) by (rule uint_byte)
  show ?thesis
    using getChar_byte [OF assms(1,2)] assms(3,5) unfolding u by (auto simp: getuc_def)
qed

lemma getuc_utf8_1:
  assumes "stream_ok s" "stream_rest s = utf8 c @ t" "0 \<le> c" "c < 0x80"
  shows "\<exists>s'. getuc s = Inr (c, s') \<and> stream_ok s' \<and> stream_rest s' = t \<and> same_reader s s'"
proof -
  have "stream_rest s = word_of_int c # t" using assms by (simp add: utf8_def)
  from getChar_byte [OF assms(1) this] assms(3,4) uint_byte [of c] show ?thesis
    by (auto simp: getuc_def getuc_lead_def)
qed

lemma getuc_utf8_2:
  assumes "stream_ok s" "stream_rest s = utf8 c @ t" "0x80 \<le> c" "c < 0x800"
  shows "\<exists>s'. getuc s = Inr (c, s') \<and> stream_ok s' \<and> stream_rest s' = t \<and> same_reader s s'"
proof -
  let ?b = "0xC0 + c div 64"
  have b: "194 \<le> ?b" "?b \<le> 223" using assms(3,4) by linarith+
  have "?b mod 32 = c div 64" by (rule lead_mod) (use b in linarith)+
  with b have l: "getuc_lead ?b = Inr (Start 0x80 1 (c div 64))"
    by (simp add: getuc_lead_def and_mask_mod)
  have r: "stream_rest s = word_of_int ?b # (word_of_int (0x80 + c mod 64) # t)"
    using assms by (simp add: utf8_def)
  obtain s1 where s1: "getuc s = getuc_tail 1 0x80 (c div 64) s1" "stream_ok s1"
    "stream_rest s1 = word_of_int (0x80 + c mod 64) # t" "same_reader s s1"
    using getuc_start [OF assms(1) r _ _ l] b by auto
  obtain s2 where s2: "getuc_tail (Suc 0) 0x80 (c div 64) s1 = getuc_tail 0 0x80 (c div 64 * 64 + c mod 64) s2"
    "stream_ok s2" "stream_rest s2 = t" "same_reader s1 s2"
    using getuc_tail_byte [OF s1(2,3) mod64, of 0 "0x80" "c div 64"] by blast
  have "c div 64 * 64 + c mod 64 = c" by simp
  with s1 s2 assms(3,4) same_reader_trans [OF s1(4) s2(4)] show ?thesis by auto
qed

lemma getuc_utf8_3:
  assumes "stream_ok s" "stream_rest s = utf8 c @ t" "0x800 \<le> c" "c < 0x10000"
  shows "\<exists>s'. getuc s = Inr (c, s') \<and> stream_ok s' \<and> stream_rest s' = t \<and> same_reader s s'"
proof -
  let ?b = "0xE0 + c div 4096" and ?m = "c div 64 mod 64" and ?l = "c mod 64"
  have b: "224 \<le> ?b" "?b \<le> 239" using assms(3,4) by linarith+
  have "?b mod 16 = c div 4096" by (rule lead_mod) (use b in linarith)+
  with b have l: "getuc_lead ?b = Inr (Start 0x800 2 (c div 4096))"
    by (simp add: getuc_lead_def and_mask_mod)
  have r: "stream_rest s = word_of_int ?b # word_of_int (0x80 + ?m) # word_of_int (0x80 + ?l) # t"
    using assms by (simp add: utf8_def)
  obtain s1 where s1: "getuc s = getuc_tail (Suc (Suc 0)) 0x800 (c div 4096) s1" "stream_ok s1"
    "stream_rest s1 = word_of_int (0x80 + ?m) # word_of_int (0x80 + ?l) # t" "same_reader s s1"
    using getuc_start [OF assms(1) r _ _ l] b by (auto simp: numeral_2_eq_2)
  obtain s2 where s2: "getuc_tail (Suc (Suc 0)) 0x800 (c div 4096) s1 =
      getuc_tail (Suc 0) 0x800 (c div 4096 * 64 + ?m) s2"
    "stream_ok s2" "stream_rest s2 = word_of_int (0x80 + ?l) # t" "same_reader s1 s2"
    using getuc_tail_byte [OF s1(2,3) mod64, of "Suc 0" "0x800" "c div 4096"] by blast
  obtain s3 where s3: "getuc_tail (Suc 0) 0x800 (c div 4096 * 64 + ?m) s2 =
      getuc_tail 0 0x800 ((c div 4096 * 64 + ?m) * 64 + ?l) s3"
    "stream_ok s3" "stream_rest s3 = t" "same_reader s2 s3"
    using getuc_tail_byte [OF s2(2,3) mod64, of 0 "0x800" "c div 4096 * 64 + ?m"] by blast
  have "getuc s = Inr (c, s3)"
    unfolding s1(1) s2(1) s3(1) base64_digits using assms(3,4) by simp
  moreover have "same_reader s s3"
    by (rule same_reader_trans [OF same_reader_trans [OF s1(4) s2(4)] s3(4)])
  ultimately show ?thesis using s3(2,3) by blast
qed

lemma getuc_utf8_4:
  assumes "stream_ok s" "stream_rest s = utf8 c @ t" "0x10000 \<le> c" "c \<le> 0x10FFFF"
  shows "\<exists>s'. getuc s = Inr (c, s') \<and> stream_ok s' \<and> stream_rest s' = t \<and> same_reader s s'"
proof -
  let ?b = "0xF0 + c div 262144" and ?h = "c div 4096 mod 64" and ?m = "c div 64 mod 64" and ?l = "c mod 64"
  have b: "240 \<le> ?b" "?b \<le> 244" using assms(3,4) by linarith+
  have "?b mod 8 = c div 262144" by (rule lead_mod) (use b in linarith)+
  with b have l: "getuc_lead ?b = Inr (Start 0x10000 3 (c div 262144))"
    by (simp add: getuc_lead_def and_mask_mod)
  have r: "stream_rest s = word_of_int ?b # word_of_int (0x80 + ?h) # word_of_int (0x80 + ?m) #
      word_of_int (0x80 + ?l) # t"
    using assms by (simp add: utf8_def)
  obtain s1 where s1: "getuc s = getuc_tail (Suc (Suc (Suc 0))) 0x10000 (c div 262144) s1" "stream_ok s1"
    "stream_rest s1 = word_of_int (0x80 + ?h) # word_of_int (0x80 + ?m) # word_of_int (0x80 + ?l) # t"
    "same_reader s s1"
    using getuc_start [OF assms(1) r _ _ l] b by (auto simp: numeral_3_eq_3)
  obtain s2 where s2: "getuc_tail (Suc (Suc (Suc 0))) 0x10000 (c div 262144) s1 =
      getuc_tail (Suc (Suc 0)) 0x10000 (c div 262144 * 64 + ?h) s2"
    "stream_ok s2" "stream_rest s2 = word_of_int (0x80 + ?m) # word_of_int (0x80 + ?l) # t" "same_reader s1 s2"
    using getuc_tail_byte [OF s1(2,3) mod64, of "Suc (Suc 0)" "0x10000" "c div 262144"] by blast
  obtain s3 where s3: "getuc_tail (Suc (Suc 0)) 0x10000 (c div 262144 * 64 + ?h) s2 =
      getuc_tail (Suc 0) 0x10000 ((c div 262144 * 64 + ?h) * 64 + ?m) s3"
    "stream_ok s3" "stream_rest s3 = word_of_int (0x80 + ?l) # t" "same_reader s2 s3"
    using getuc_tail_byte [OF s2(2,3) mod64, of "Suc 0" "0x10000" "c div 262144 * 64 + ?h"] by blast
  obtain s4 where s4: "getuc_tail (Suc 0) 0x10000 ((c div 262144 * 64 + ?h) * 64 + ?m) s3 =
      getuc_tail 0 0x10000 (((c div 262144 * 64 + ?h) * 64 + ?m) * 64 + ?l) s4"
    "stream_ok s4" "stream_rest s4 = t" "same_reader s3 s4"
    using getuc_tail_byte [OF s3(2,3) mod64, of 0 "0x10000" "(c div 262144 * 64 + ?h) * 64 + ?m"] by blast
  have "getuc s = Inr (c, s4)"
    unfolding s1(1) s2(1) s3(1) s4(1) base64_digits using assms(3,4) by simp
  moreover have "same_reader s s4"
    by (rule same_reader_trans [OF same_reader_trans [OF same_reader_trans [OF s1(4) s2(4)] s3(4)] s4(4)])
  ultimately show ?thesis using s4(2,3) by blast
qed

lemma getuc_utf8:
  assumes "stream_ok s" "stream_rest s = utf8 c @ t" "0 \<le> c" "c \<le> 0x10FFFF"
  shows "\<exists>s'. getuc s = Inr (c, s') \<and> stream_ok s' \<and> stream_rest s' = t \<and> same_reader s s'"
proof -
  consider "c < 0x80" | "0x80 \<le> c" "c < 0x800" | "0x800 \<le> c" "c < 0x10000" | "0x10000 \<le> c" by linarith
  then show ?thesis
    using getuc_utf8_1 [OF assms(1,2)] getuc_utf8_2 [OF assms(1,2)] getuc_utf8_3 [OF assms(1,2)]
      getuc_utf8_4 [OF assms(1,2)] assms(3,4) by cases blast+
qed

section \<open>The encoder\<close>

lemma cont_byte: "((c::int) AND 0x3F) OR 0x80 = 0x80 + c mod 64"
  using or_low_bits [of "c mod 64" 7 1] by (simp add: and_mask_mod or.commute)

lemma encode_loop_digits:
  "encode_loop 2 c = [word_of_int (0x80 + c div 64 mod 64), word_of_int (0x80 + c mod 64)]"
  "encode_loop 3 c = [word_of_int (0x80 + c div 4096 mod 64), word_of_int (0x80 + c div 64 mod 64),
     word_of_int (0x80 + c mod 64)]"
  "encode_loop 4 c = [word_of_int (0x80 + c div 262144 mod 64), word_of_int (0x80 + c div 4096 mod 64),
     word_of_int (0x80 + c div 64 mod 64), word_of_int (0x80 + c mod 64)]"
  by (simp_all add: numeral_2_eq_2 numeral_3_eq_3 numeral_eq_Suc cont_byte drop_bit_eq_div
      flip: zdiv_zmult2_eq)

lemma lead_or:
  fixes q :: int
  shows "0 \<le> q \<Longrightarrow> q < 32 \<Longrightarrow> (word_of_int (0x80 + q) OR word_of_int 0x3C0 :: byte) = word_of_int (0xC0 + q)"
    and "0 \<le> q \<Longrightarrow> q < 16 \<Longrightarrow> (word_of_int (0x80 + q) OR word_of_int 0x1E0 :: byte) = word_of_int (0xE0 + q)"
    and "0 \<le> q \<Longrightarrow> q < 8 \<Longrightarrow> (word_of_int (0x80 + q) OR word_of_int 0xF0 :: byte) = word_of_int (0xF0 + q)"
proof -
  have *: "(word_of_int (0x80 + q) OR word_of_int m :: byte) = word_of_int (m + q)"
    if "0 \<le> q" "q < 2 ^ n" "n \<le> 6" "m = push_bit n k" "0x80 OR m = m" for n and m k :: int
  proof -
    have "q < 2 ^ 7" using that(2,3) power_increasing [of n 7 "2::int"] by simp
    then have "0x80 + q = 0x80 OR q" using or_low_bits [of q 7 1] that(1) by simp
    then have "(0x80 + q) OR m = (0x80 OR m) OR q" by (simp only: or.assoc or.commute or.left_commute)
    then have "(0x80 + q) OR m = m OR q" unfolding that(5) .
    also have "\<dots> = m + q" using or_low_bits [OF that(1,2), of k] that(4) by (simp add: push_bit_eq_mult)
    finally show ?thesis by (simp only: of_int_or_eq [symmetric])
  qed
  show "(word_of_int (0x80 + q) OR word_of_int 0x3C0 :: byte) = word_of_int (0xC0 + q)" if "0 \<le> q" "q < 32"
    using * [of 6 "0x3C0" 15] that by simp
  show "(word_of_int (0x80 + q) OR word_of_int 0x1E0 :: byte) = word_of_int (0xE0 + q)" if "0 \<le> q" "q < 16"
    using * [of 5 "0x1E0" 15] that by simp
  show "(word_of_int (0x80 + q) OR word_of_int 0xF0 :: byte) = word_of_int (0xF0 + q)" if "0 \<le> q" "q < 8"
    using * [of 4 "0xF0" 15] that by simp
qed

lemma convertToUTF8_utf8:
  assumes "0 \<le> c" "c \<le> 0x10FFFF" "c \<notin> {0x80, 0x800, 0x10000}"
  shows "convertToUTF8 c = utf8 c"
proof -
  consider "c < 0x80" | "0x80 < c" "c < 0x800" | "0x800 < c" "c < 0x10000" | "0x10000 < c"
    using assms(3) by fastforce
  then show ?thesis
  proof cases
    case 1
    with assms show ?thesis by (simp add: convertToUTF8_def utf8_def)
  next
    case 2
    let ?q = "c div 64"
    have q: "0 \<le> ?q" "?q < 32" using 2 by linarith+
    then have "?q mod 64 = ?q" by (intro mod_pos_pos_trivial) auto
    with 2 lead_or(1) [OF q] show ?thesis
      by (simp add: convertToUTF8_def utf8_def encode_loop_digits)
  next
    case 3
    let ?q = "c div 4096"
    have q: "0 \<le> ?q" "?q < 16" using 3 by linarith+
    then have "?q mod 64 = ?q" by (intro mod_pos_pos_trivial) auto
    with 3 lead_or(2) [OF q] show ?thesis
      by (simp add: convertToUTF8_def utf8_def encode_loop_digits)
  next
    case 4
    let ?q = "c div 262144"
    have q: "0 \<le> ?q" "?q < 8" using 4 assms(2) by linarith+
    then have "?q mod 64 = ?q" by (intro mod_pos_pos_trivial) auto
    with 4 lead_or(3) [OF q] show ?thesis
      by (simp add: convertToUTF8_def utf8_def encode_loop_digits)
  qed
qed

lemma convertToUTF8_wrong:
  "convertToUTF8 0x80 = [0x80]" "convertToUTF8 0x800 = [0xE0, 0x80]"
  "convertToUTF8 0x10000 = [0xF0, 0x80, 0x80]"
  by (simp_all add: convertToUTF8_def encode_loop_digits)

text \<open>
  C18: a character written as UTF-8 is read back, by any stream, with the bytes that follow it
  left in the stream. The three characters at the lower limits of the longer encodings are
  excluded.
\<close>

theorem utf8_roundtrip:
  assumes "stream_ok s" "stream_rest s = convertToUTF8 c @ t" "0 \<le> c" "c \<le> 0x10FFFF"
    and "c \<notin> {0x80, 0x800, 0x10000}"
  shows "\<exists>s'. getuc s = Inr (c, s') \<and> stream_ok s' \<and> stream_rest s' = t"
  using getuc_utf8 [OF assms(1) _ assms(3,4), of t] assms(2) convertToUTF8_utf8 [OF assms(3-5)] by auto

theorem utf8_roundtrip_witness:
  "\<exists>s'. getuc (newStringStream (convertToUTF8 0x20AC @ [10])) = Inr (0x20AC, s') \<and>
     stream_ok s' \<and> stream_rest s' = [10]"
  by (rule utf8_roundtrip)
    (simp_all add: stream_ok_def stream_rest_def newStringStream_def initStreamDefault_def)

text \<open>
  C19: the conversion to UTF-8 agrees with the standard exactly for the characters other than
  U+0080, U+0800 and U+10000; these three get an encoding that is one byte too short.
\<close>

theorem convertToUTF8_standard:
  assumes "0 \<le> c" "c \<le> 0x10FFFF"
  shows "convertToUTF8 c = utf8 c \<longleftrightarrow> c \<noteq> 0x80 \<and> c \<noteq> 0x800 \<and> c \<noteq> 0x10000"
proof
  assume "convertToUTF8 c = utf8 c"
  moreover have "utf8 0x80 = [0xC2, 0x80]" "utf8 0x800 = [0xE0, 0xA0, 0x80]"
    "utf8 0x10000 = [0xF0, 0x90, 0x80, 0x80]"
    by (simp_all add: utf8_def)
  ultimately show "c \<noteq> 0x80 \<and> c \<noteq> 0x800 \<and> c \<noteq> 0x10000"
    using convertToUTF8_wrong by auto
qed (use assms convertToUTF8_utf8 in auto)

theorem convertToUTF8_standard_witness:
  "convertToUTF8 0x80 = utf8 0x80 \<longleftrightarrow> (0x80::int) \<noteq> 0x80 \<and> (0x80::int) \<noteq> 0x800 \<and> (0x80::int) \<noteq> 0x10000"
  by (rule convertToUTF8_standard) simp_all

end
