(* ===== verification/Clusters.thy ===== *)
theory Clusters
  imports Unicode
begin

text \<open>
  Reading characters and clusters from a stream. Every call ends, on any bytes; on a stream of
  well-formed UTF-8 the clusters divide the characters at exactly the places where the
  continuation table has no entry. Further: the results of \<open>putuc\<close>, the order of UTF-16
  buffers, and the conversions that call ICU.
\<close>

section \<open>Every call makes progress\<close>

text \<open>A result of a reader: a panic is possible only on a string stream.\<close>

definition progress :: "nat \<Rightarrow> Stream \<Rightarrow> (int \<times> Stream) res \<Rightarrow> bool" where
  "progress n s r \<longleftrightarrow>
     (case r of
        Inl e \<Rightarrow> e = Panic \<and> \<not> isFileStream s
      | Inr (c, s') \<Rightarrow> stream_ok s' \<and> same_reader s s' \<and> length (stream_rest s') \<le> n)"

lemma progress_mono: "progress n s r \<Longrightarrow> n \<le> m \<Longrightarrow> progress m s r"
  by (auto simp: progress_def split: sum.splits prod.splits)

lemma progress_same: "same_reader s t \<Longrightarrow> progress n t r \<Longrightarrow> progress n s r"
  by (auto simp: progress_def same_reader_def split: sum.splits prod.splits)

lemma getuc_tail_progress:
  "stream_ok s \<Longrightarrow> progress (length (stream_rest s)) s (getuc_tail n least retval s)"
proof (induction n arbitrary: retval s)
  case 0
  then show ?case by (simp add: progress_def same_reader_def)
next
  case (Suc n)
  show ?case
  proof (cases "stream_rest s")
    case Nil
    from getChar_eof [OF Suc.prems Nil] Nil show ?thesis
      by (auto simp: getuc_tail.simps(2) progress_def)
  next
    case (Cons b bs)
    from getChar_byte [OF Suc.prems Cons] obtain s1 where
      s1: "getChar s = Inr (uint b, s1)" "stream_ok s1" "stream_rest s1 = bs"
        "stream_last s1 = Some b" "same_reader s s1" by blast
    have ne: "uint b \<noteq> EOF" using uint_ge_0 [of b] by linarith
    show ?thesis
    proof (cases "uint b AND 0xC0 = 0x80")
      case True
      let ?r = "getuc_tail n least (push_bit 6 retval OR (uint b AND 0x3F)) s1"
      have "progress (length bs) s1 ?r" using Suc.IH [OF s1(2)] s1(3) by simp
      then have "progress (length (stream_rest s)) s ?r"
        using progress_mono progress_same [OF s1(5)] Cons by (metis le_SucI length_Cons order_refl)
      with True s1(1) ne show ?thesis by (simp add: getuc_tail.simps(2))
    next
      case False
      show ?thesis
      proof (cases "uint b < 128 \<or> isFileStream s1")
        case True
        from ungetChar_byte [OF s1(2,4) True] obtain r s2 where
          s2: "ungetChar s1 (uint b) = Inr (r, s2)" "stream_ok s2" "stream_rest s2 = b # stream_rest s1"
            "same_reader s1 s2" by blast
        with False s1 ne Cons same_reader_trans [OF s1(5) s2(4)] show ?thesis
          by (simp add: getuc_tail.simps(2) progress_def)
      next
        case high: False
        then obtain t i where "sdata s1 = StringData t i"
          by (cases "sdata s1") (auto simp: isFileStream_def)
        with s1(4) high have "ungetChar s1 (uint b) = Inl Panic"
          using sint_lt [of b] by (auto simp: ungetChar_def ungetCharString_def stream_last_def split: if_splits)
        with False high s1 ne show ?thesis
          by (simp add: getuc_tail.simps(2) progress_def same_reader_def)
      qed
    qed
  qed
qed

lemma getuc_eof:
  assumes "stream_ok s" "stream_rest s = []"
  shows "\<exists>s'. getuc s = Inr (EOF, s') \<and> stream_ok s' \<and> stream_rest s' = [] \<and> same_reader s s'"
  using getChar_eof [OF assms] by (auto simp: getuc_def)

lemma getuc_lead_total: "0 \<le> x \<Longrightarrow> x < 256 \<Longrightarrow> \<exists>l. getuc_lead x = Inr l"
  by (auto simp: getuc_lead_def)

lemma getuc_progress:
  assumes "stream_ok s" "stream_rest s = b # bs"
  shows "progress (length bs) s (getuc s)"
proof -
  from getChar_byte [OF assms] obtain s1 where
    s1: "getChar s = Inr (uint b, s1)" "stream_ok s1" "stream_rest s1 = bs" "same_reader s s1" by blast
  have b: "0 \<le> uint b" "uint b < 256" using uint_bounded [of b] by simp_all
  then obtain l where l: "getuc_lead (uint b) = Inr l" using getuc_lead_total by blast
  have "progress (length bs) s1 (case l of Done r \<Rightarrow> Inr (r, s1) | Start least n retval \<Rightarrow> getuc_tail n least retval s1)"
  proof (cases l)
    case (Done r)
    with s1 show ?thesis by (simp add: progress_def same_reader_def)
  next
    case (Start least n retval)
    with getuc_tail_progress [OF s1(2)] s1(3) show ?thesis by simp
  qed
  moreover have "uint b \<noteq> EOF" using uint_ge_0 [of b] by linarith
  ultimately show ?thesis using progress_same [OF s1(4)] s1(1) l by (simp add: getuc_def)
qed

definition meas :: "Stream \<Rightarrow> nat" where
  "meas s = length (stream_rest s) + (if nextChar s \<ge> 0 then 1 else 0)"

definition reader_step :: "Stream \<Rightarrow> (int \<times> Stream) res \<Rightarrow> bool" where
  "reader_step s r \<longleftrightarrow>
     (case r of
        Inl e \<Rightarrow> e = Panic \<and> \<not> isFileStream s
      | Inr (c, s') \<Rightarrow> stream_ok s' \<and> isFileStream s' = isFileStream s \<and>
          (c < 0 \<or> meas s' < meas s))"

lemma getuc_cases:
  assumes "stream_ok s"
  obtains (panic) "getuc s = Inl Panic" "\<not> isFileStream s"
    | (eof) s' where "getuc s = Inr (EOF, s')" "stream_ok s'" "stream_rest s' = []" "same_reader s s'"
    | (char) c s' where "getuc s = Inr (c, s')" "stream_ok s'" "same_reader s s'"
        "length (stream_rest s') < length (stream_rest s)"
proof (cases "stream_rest s")
  case Nil
  with getuc_eof [OF assms] eof show ?thesis by blast
next
  case (Cons b bs)
  with getuc_progress [OF assms Cons] panic char show ?thesis
    by (auto simp: progress_def split: sum.splits)
qed

text \<open>The part of \<open>getucFiltered\<close> after a character has been taken.\<close>

definition filter_char :: "int \<Rightarrow> Stream \<Rightarrow> (int \<times> Stream) res" where
  "filter_char c s =
     (if c < 0 then Inr (if c = EOF then EOF else REPLACEMENT_CHARACTER, s)
      else if c AND 0xF800 = 0xD800 then
        if c AND 0xDC00 = 0xDC00 then Inr (REPLACEMENT_CHARACTER, s)
        else bind_res (getuc s) (\<lambda>(clow, s1).
               if clow AND 0xFC00 \<noteq> 0xDC00
               then Inr (REPLACEMENT_CHARACTER, s1\<lparr>nextChar := clow\<rparr>)
               else Inr (clow + push_bit 10 c + 0x10000 - push_bit 10 0xD800 - 0xDC00, s1))
      else Inr (c, s))"

lemma getucFiltered_char:
  "getucFiltered s = (if nextChar s \<ge> 0 then filter_char (nextChar s) (s\<lparr>nextChar := - 1\<rparr>)
     else bind_res (getuc s) (\<lambda>(c, s'). filter_char c s'))"
  by (simp add: getucFiltered_def filter_char_def)

lemma filter_char_step:
  assumes "stream_ok s" "nextChar s < 0" "length (stream_rest s) < n"
  shows "case filter_char c s of
      Inl e \<Rightarrow> e = Panic \<and> \<not> isFileStream s
    | Inr (c', s') \<Rightarrow> stream_ok s' \<and> isFileStream s' = isFileStream s \<and> meas s' < n"
proof (cases "0 \<le> c \<and> c AND 0xF800 = 0xD800 \<and> c AND 0xDC00 \<noteq> 0xDC00")
  case False
  with assms show ?thesis by (auto simp: filter_char_def meas_def)
next
  case True
  have upd: "stream_ok (t\<lparr>nextChar := k\<rparr>) = stream_ok t" "stream_rest (t\<lparr>nextChar := k\<rparr>) = stream_rest t"
    "isFileStream (t\<lparr>nextChar := k\<rparr>) = isFileStream t" for t k
    by (simp_all add: stream_ok_def stream_rest_def isFileStream_def)
  from assms(1) show ?thesis
  proof (cases s rule: getuc_cases)
    case panic
    with True show ?thesis by (simp add: filter_char_def)
  next
    case (eof s')
    with True assms(2,3) show ?thesis
      by (auto simp: filter_char_def meas_def upd same_reader_def)
  next
    case (char k s')
    with True assms(2,3) show ?thesis
      by (auto simp: filter_char_def meas_def upd same_reader_def)
  qed
qed

lemma getucFiltered_step:
  assumes "stream_ok s"
  shows "reader_step s (getucFiltered s)"
proof (cases "nextChar s \<ge> 0")
  case True
  let ?s = "s\<lparr>nextChar := - 1\<rparr>"
  have "stream_ok ?s" "stream_rest ?s = stream_rest s" "isFileStream ?s = isFileStream s"
    using assms by (simp_all add: stream_ok_def stream_rest_def isFileStream_def)
  with filter_char_step [of ?s "length (stream_rest s) + 1" "nextChar s"] True show ?thesis
    by (auto simp: getucFiltered_char reader_step_def meas_def split: sum.splits)
next
  case False
  from assms show ?thesis
  proof (cases s rule: getuc_cases)
    case panic
    with False show ?thesis by (simp add: getucFiltered_char reader_step_def)
  next
    case (eof s')
    with False show ?thesis
      by (auto simp: getucFiltered_char reader_step_def filter_char_def same_reader_def)
  next
    case (char c s')
    with False filter_char_step [of s' "length (stream_rest s)" c] show ?thesis
      by (auto simp: getucFiltered_char reader_step_def meas_def same_reader_def split: sum.splits)
  qed
qed

section \<open>Clusters\<close>

definition cluster_result :: "Stream \<Rightarrow> (UTF16Buffer \<times> Stream) res \<Rightarrow> bool" where
  "cluster_result s r \<longleftrightarrow>
     (case r of Inl e \<Rightarrow> e = Panic \<and> \<not> isFileStream s | Inr (b, s') \<Rightarrow> stream_ok s')"

lemma stream_upd:
  "stream_ok (t\<lparr>bufferedChar := c, lastClusterCategory := k\<rparr>) = stream_ok t"
  "stream_rest (t\<lparr>bufferedChar := c, lastClusterCategory := k\<rparr>) = stream_rest t"
  "isFileStream (t\<lparr>bufferedChar := c, lastClusterCategory := k\<rparr>) = isFileStream t"
  "meas (t\<lparr>bufferedChar := c, lastClusterCategory := k\<rparr>) = meas t"
  "stream_ok (t\<lparr>bufferedChar := c\<rparr>) = stream_ok t"
  "stream_rest (t\<lparr>bufferedChar := c\<rparr>) = stream_rest t"
  "isFileStream (t\<lparr>bufferedChar := c\<rparr>) = isFileStream t"
  by (simp_all add: stream_ok_def stream_rest_def isFileStream_def meas_def)

lemma cleared_ok:
  "stream_ok t \<Longrightarrow> stream_ok (t\<lparr>bufferedChar := c, lastClusterCategory := k,
     sdata := (case sdata t of FileData f \<Rightarrow> FileData (fileClearEof f) | StringData u i \<Rightarrow> StringData u i)\<rparr>)"
  by (auto simp: stream_ok_def fileClearEof_def reading_def split: StreamData.splits)

lemma cluster_loop_returns:
  "stream_ok s \<Longrightarrow> \<exists>r. cluster_loop gcb table category s buf = Some r \<and> cluster_result s r"
proof (induction "meas s" arbitrary: s category buf rule: less_induct)
  case less
  note step = getucFiltered_step [OF less.prems]
  show ?case
  proof (cases "getucFiltered s")
    case (Inl e)
    with step show ?thesis
      by (subst cluster_loop.simps) (simp add: reader_step_def cluster_result_def Let_def)
  next
    case (Inr p)
    obtain c s1 where p: "p = (c, s1)" by fastforce
    with step Inr have s1: "stream_ok s1" "isFileStream s1 = isFileStream s" "c < 0 \<or> meas s1 < meas s"
      by (simp_all add: reader_step_def)
    show ?thesis
    proof (cases "c < 0")
      case True
      with Inr p s1(1) cleared_ok [OF s1(1)] show ?thesis
        by (subst cluster_loop.simps) (simp add: cluster_result_def Let_def)
    next
      case False
      let ?k = "getClusterCategory gcb c"
      let ?s2 = "s1\<lparr>bufferedChar := c, lastClusterCategory := ?k\<rparr>"
      let ?b = "addUCS4ToUTF16Buffer buf (bufferedChar s)"
      have "meas ?s2 < meas s" "stream_ok ?s2" using s1 False by (simp_all add: stream_upd)
      then obtain r where "cluster_loop gcb table ?k ?s2 ?b = Some r" "cluster_result ?s2 r"
        using less.hyps by blast
      moreover have "cluster_result ?s2 r \<Longrightarrow> cluster_result s r" for r
        using s1(2) by (cases r) (auto simp: cluster_result_def stream_upd)
      ultimately show ?thesis
        using Inr p False s1(1)
        by (subst cluster_loop.simps) (auto simp: Let_def cluster_result_def stream_upd)
    qed
  qed
qed

lemma cluster_loop_file:
  assumes "stream_ok s" "isFileStream s"
  shows "\<exists>b s'. cluster_loop gcb table k s v = Some (Inr (b, s')) \<and> stream_ok s'"
proof -
  obtain r where r: "cluster_loop gcb table k s v = Some r" "cluster_result s r"
    using cluster_loop_returns [OF assms(1)] by blast
  with assms(2) show ?thesis by (cases r) (auto simp: cluster_result_def)
qed

text \<open>
  C17: the division of a file into clusters always goes on: whatever bytes the file holds and
  whatever categories ICU reports, a call returns, with a cluster or the information that the
  file has ended, and leaves a stream that can be read further.
\<close>

theorem getCluster_returns:
  assumes "stream_ok s" "isFileStream s"
  shows "\<exists>ok b s'. getClusterInternal gcb table s buf = Some (Inr (ok, b, s')) \<and> stream_ok s'"
proof -
  show ?thesis
  proof (cases "bufferedChar s < 0")
    case False
    with cluster_loop_file [OF assms, of gcb table "lastClusterCategory s" "vector_clear buf"] show ?thesis
      by (auto simp: getClusterInternal_def Let_def)
  next
    case True
    from getucFiltered_step [OF assms(1)] assms(2) obtain c s1 where
      s1: "getucFiltered s = Inr (c, s1)" "stream_ok s1" "isFileStream s1"
      by (auto simp: reader_step_def split: sum.splits)
    with True cluster_loop_file [of "s1\<lparr>bufferedChar := c\<rparr>" gcb table "getClusterCategory gcb c" "vector_clear buf"] show ?thesis
      by (auto simp: getClusterInternal_def Let_def stream_upd)
  qed
qed

theorem getCluster_returns_witness:
  "\<exists>ok b s'. getClusterInternal (\<lambda>_. 0) clusterContinuationTable
      (initStreamDefault (FileData (fileWrapFD [Chunk [0xC3, 0xC3]] [] FILE_READ))) VECTOR_INIT =
     Some (Inr (ok, b, s')) \<and> stream_ok s'"
  by (rule getCluster_returns)
    (simp_all add: stream_ok_def isFileStream_def initStreamDefault_def reading_def fileWrapFD_def no_fail_def)

section \<open>Well-formed text\<close>

text \<open>
  Characters that are read unchanged: scalar values whose low bits do not look like a
  surrogate, and other than U+10000, which the buffer truncates.
\<close>

definition readable :: "int \<Rightarrow> bool" where
  "readable c \<longleftrightarrow> 0 \<le> c \<and> c \<le> 0x10FFFF \<and> c AND 0xF800 \<noteq> 0xD800 \<and> c \<noteq> 0x10000"

definition utf16 :: "int \<Rightarrow> UChar list" where
  "utf16 c = (if c < 0x10000 then [word_of_int c]
     else [word_of_int (0xD800 + (c - 0x10000) div 1024), word_of_int (0xDC00 + (c - 0x10000) mod 1024)])"

lemma addUCS4_utf16:
  assumes "readable c"
  shows "vdata (addUCS4ToUTF16Buffer buf c) = vdata buf @ utf16 c"
proof (cases "c > 0x10000")
  case True
  have d: "c div 1024 = 64 + (c - 0x10000) div 1024"
    using div_mult_self1 [of 1024 "c - 0x10000" 64] by simp
  have m: "c mod 1024 = (c - 0x10000) mod 1024"
    using mod_mult_self1 [of "c - 0x10000" 64 1024] by simp
  have o: "0xDC00 OR c mod 1024 = 0xDC00 + c mod 1024"
    using or_low_bits [of "c mod 1024" 10 55] by simp
  have h: "0xD800 - drop_bit 10 0x10000 + drop_bit 10 c = 0xD800 + (c - 0x10000) div 1024"
    using d by (simp add: drop_bit_eq_div)
  have l: "0xDC00 OR (c AND 0x3FF) = 0xDC00 + (c - 0x10000) mod 1024"
    using o m by (simp only: and_mask_mod)
  show ?thesis
    unfolding addUCS4ToUTF16Buffer_def h l using True by (simp add: utf16_def)
next
  case False
  with assms show ?thesis
    by (simp add: addUCS4ToUTF16Buffer_def utf16_def readable_def)
qed

text \<open>The characters still to come, the buffered one first.\<close>

definition holds_text :: "(int \<Rightarrow> int) \<Rightarrow> Stream \<Rightarrow> int list \<Rightarrow> bool" where
  "holds_text gcb s cs \<longleftrightarrow> stream_ok s \<and> nextChar s < 0 \<and> (\<forall>c \<in> set cs. readable c) \<and>
     (if bufferedChar s < 0 then stream_rest s = concat (map utf8 cs)
      else cs \<noteq> [] \<and> bufferedChar s = hd cs \<and> lastClusterCategory s = getClusterCategory gcb (hd cs) \<and>
           stream_rest s = concat (map utf8 (tl cs)))"

lemma getucFiltered_readable:
  assumes "stream_ok s" "nextChar s < 0" "stream_rest s = utf8 c @ t" "readable c"
  shows "\<exists>s'. getucFiltered s = Inr (c, s') \<and> stream_ok s' \<and> nextChar s' < 0 \<and> stream_rest s' = t"
proof -
  obtain s' where "getuc s = Inr (c, s')" "stream_ok s'" "stream_rest s' = t" "same_reader s s'"
    using getuc_utf8 [OF assms(1,3)] assms(4) by (auto simp: readable_def)
  with assms(2,4) show ?thesis
    by (auto simp: getucFiltered_char filter_char_def readable_def same_reader_def)
qed

lemma getucFiltered_end:
  assumes "stream_ok s" "nextChar s < 0" "stream_rest s = []"
  shows "\<exists>s'. getucFiltered s = Inr (EOF, s') \<and> stream_ok s' \<and> nextChar s' < 0 \<and> stream_rest s' = []"
  using getuc_eof [OF assms(1,3)] assms(2)
  by (auto simp: getucFiltered_char filter_char_def same_reader_def)

text \<open>The characters of the first cluster, and the rest.\<close>

fun cluster_split :: "(int \<Rightarrow> int) \<Rightarrow> nat list list \<Rightarrow> int list \<Rightarrow> int list \<times> int list" where
  "cluster_split gcb table (c # d # cs) =
     (if table ! nat (getClusterCategory gcb c) ! nat (getClusterCategory gcb d) \<noteq> 0
      then (let (a, b) = cluster_split gcb table (d # cs) in (c # a, b))
      else ([c], d # cs))"
| "cluster_split gcb table cs = (cs, [])"

lemma cluster_split_append: "cluster_split gcb table cs = (a, b) \<Longrightarrow> a @ b = cs"
  by (induction gcb table cs arbitrary: a b rule: cluster_split.induct)
    (auto simp: Let_def split: if_splits prod.splits)

lemma cleared_text:
  assumes "stream_ok t" "nextChar t < 0" "stream_rest t = []"
  shows "holds_text gcb (t\<lparr>bufferedChar := EOF, lastClusterCategory := 0,
    sdata := (case sdata t of FileData f \<Rightarrow> FileData (fileClearEof f) | StringData u i \<Rightarrow> StringData u i)\<rparr>) []"
  using assms
  by (auto simp: holds_text_def stream_ok_def stream_rest_def fileClearEof_def reading_def to_read_def
      split: StreamData.splits)

lemma cluster_loop_text:
  assumes "cluster_split gcb table (c # cs) = (a, b)" "\<forall>x \<in> set (c # cs). readable x"
    and "stream_ok s" "nextChar s < 0" "bufferedChar s = c" "stream_rest s = concat (map utf8 cs)"
  shows "\<exists>buf' s'. cluster_loop gcb table (getClusterCategory gcb c) s buf = Some (Inr (buf', s')) \<and>
    vdata buf' = vdata buf @ concat (map utf16 a) \<and> holds_text gcb s' b"
  using assms
proof (induction cs arbitrary: c a b s buf)
  case Nil
  from Nil(6) have "stream_rest s = []" by simp
  from getucFiltered_end [OF Nil(3,4) this] obtain s1 where
    s1: "getucFiltered s = Inr (EOF, s1)" "stream_ok s1" "nextChar s1 < 0" "stream_rest s1 = []" by blast
  have "a = [c]" "b = []" using Nil(1) by simp_all
  moreover have "vdata (addUCS4ToUTF16Buffer buf c) = vdata buf @ utf16 c"
    using Nil(2) by (intro addUCS4_utf16) simp
  ultimately show ?case
    using s1(1) Nil(5) cleared_text [OF s1(2-4), of gcb]
    by (subst cluster_loop.simps) (simp add: Let_def)
next
  case (Cons d cs)
  from Cons.prems(2,6) have "readable d" "stream_rest s = utf8 d @ concat (map utf8 cs)" by simp_all
  from getucFiltered_readable [OF Cons.prems(3,4) this(2,1)] obtain s1 where
    s1: "getucFiltered s = Inr (d, s1)" "stream_ok s1" "nextChar s1 < 0" "stream_rest s1 = concat (map utf8 cs)"
    by blast
  have d: "\<not> d < 0" using Cons.prems(2) by (simp add: readable_def)
  let ?s2 = "s1\<lparr>bufferedChar := d, lastClusterCategory := getClusterCategory gcb d\<rparr>"
  let ?b1 = "addUCS4ToUTF16Buffer buf c"
  have b1: "vdata ?b1 = vdata buf @ utf16 c" using Cons.prems(2) by (intro addUCS4_utf16) simp
  show ?case
  proof (cases "table ! nat (getClusterCategory gcb c) ! nat (getClusterCategory gcb d) = 0")
    case True
    with Cons.prems(1) have "a = [c]" "b = d # cs" by simp_all
    moreover have "holds_text gcb ?s2 (d # cs)"
      using s1 d Cons.prems(2) by (simp add: holds_text_def stream_upd)
    ultimately show ?thesis
      using s1(1) d True Cons.prems(5) b1 by (subst cluster_loop.simps) (simp add: Let_def)
  next
    case False
    with Cons.prems(1) obtain a' where a': "a = c # a'" "cluster_split gcb table (d # cs) = (a', b)"
      by (auto simp: Let_def split: prod.splits)
    have "\<exists>buf' s'. cluster_loop gcb table (getClusterCategory gcb d) ?s2 ?b1 = Some (Inr (buf', s')) \<and>
        vdata buf' = vdata ?b1 @ concat (map utf16 a') \<and> holds_text gcb s' b"
      by (rule Cons.IH [OF a'(2)]) (use Cons.prems(2) s1 in \<open>simp_all add: stream_upd\<close>)
    with s1(1) d False Cons.prems(5) b1 a'(1) show ?thesis
      by (subst cluster_loop.simps) (simp add: Let_def)
  qed
qed

text \<open>
  C16: on well-formed text a call returns the first cluster, encoded in UTF-16, and leaves the
  remaining characters; a cluster is the longest prefix whose neighbouring characters continue
  each other in the table. At the end of the text the call reports that there is nothing.
\<close>

theorem getCluster_splits_text:
  assumes "holds_text gcb s cs"
  shows "case cs of
      [] \<Rightarrow> \<exists>b s'. getClusterInternal gcb table s buf = Some (Inr (False, b, s')) \<and> holds_text gcb s' []
    | _ # _ \<Rightarrow> \<exists>b s'. getClusterInternal gcb table s buf = Some (Inr (True, b, s')) \<and>
        vdata b = concat (map utf16 (fst (cluster_split gcb table cs))) \<and>
        holds_text gcb s' (snd (cluster_split gcb table cs)) \<and>
        fst (cluster_split gcb table cs) @ snd (cluster_split gcb table cs) = cs"
proof (cases cs)
  case Nil
  with assms have s: "bufferedChar s < 0" "stream_ok s" "nextChar s < 0" "stream_rest s = []"
    by (auto simp: holds_text_def split: if_splits)
  from getucFiltered_end [OF s(2-4)] obtain s1 where s1: "getucFiltered s = Inr (EOF, s1)"
    "stream_ok s1" "nextChar s1 < 0" "stream_rest s1 = []" by blast
  then have "getClusterInternal gcb table s buf = Some (Inr (False, vector_clear buf, s1\<lparr>bufferedChar := EOF\<rparr>))"
    "holds_text gcb (s1\<lparr>bufferedChar := EOF\<rparr>) []"
    using s(1) by (simp_all add: getClusterInternal_def holds_text_def stream_upd Let_def)
  with Nil show ?thesis by auto
next
  case (Cons c cs')
  obtain a b where sp: "cluster_split gcb table (c # cs') = (a, b)" by fastforce
  have rd: "\<forall>x \<in> set (c # cs'). readable x" using assms Cons by (simp add: holds_text_def)
  have "\<exists>buf' s'. getClusterInternal gcb table s buf = Some (Inr (True, buf', s')) \<and>
      vdata buf' = concat (map utf16 a) \<and> holds_text gcb s' b"
  proof (cases "bufferedChar s < 0")
    case True
    with assms Cons have s: "stream_ok s" "nextChar s < 0" "stream_rest s = utf8 c @ concat (map utf8 cs')"
      by (simp_all add: holds_text_def)
    from getucFiltered_readable [OF s] rd obtain s1 where
      s1: "getucFiltered s = Inr (c, s1)" "stream_ok s1" "nextChar s1 < 0" "stream_rest s1 = concat (map utf8 cs')"
      by auto
    with cluster_loop_text [OF sp rd, of "s1\<lparr>bufferedChar := c\<rparr>" "vector_clear buf"] True rd show ?thesis
      by (auto simp: getClusterInternal_def Let_def stream_upd vector_clear_def readable_def)
  next
    case False
    with assms Cons have s: "stream_ok s" "nextChar s < 0" "bufferedChar s = c"
      "lastClusterCategory s = getClusterCategory gcb c" "stream_rest s = concat (map utf8 cs')"
      by (simp_all add: holds_text_def)
    from cluster_loop_text [OF sp rd s(1-3,5), of "vector_clear buf"] False s(4) show ?thesis
      by (auto simp: getClusterInternal_def Let_def vector_clear_def)
  qed
  with Cons sp cluster_split_append [OF sp] show ?thesis by simp
qed

theorem getCluster_splits_text_witness:
  "case [0x65, 0x301, 0x78 :: int] of
      [] \<Rightarrow> \<exists>b s'. getClusterInternal (\<lambda>c. if c = 0x301 then 3 else 0) clusterContinuationTable
          (newStringStream (concat (map utf8 [0x65, 0x301, 0x78]))) VECTOR_INIT = Some (Inr (False, b, s')) \<and>
        holds_text (\<lambda>c. if c = 0x301 then 3 else 0) s' []
    | _ # _ \<Rightarrow> \<exists>b s'. getClusterInternal (\<lambda>c. if c = 0x301 then 3 else 0) clusterContinuationTable
          (newStringStream (concat (map utf8 [0x65, 0x301, 0x78]))) VECTOR_INIT = Some (Inr (True, b, s')) \<and>
        vdata b = concat (map utf16 (fst (cluster_split (\<lambda>c. if c = 0x301 then 3 else 0)
          clusterContinuationTable [0x65, 0x301, 0x78]))) \<and>
        holds_text (\<lambda>c. if c = 0x301 then 3 else 0) s' (snd (cluster_split (\<lambda>c. if c = 0x301 then 3 else 0)
          clusterContinuationTable [0x65, 0x301, 0x78])) \<and>
        fst (cluster_split (\<lambda>c. if c = 0x301 then 3 else 0) clusterContinuationTable [0x65, 0x301, 0x78]) @
        snd (cluster_split (\<lambda>c. if c = 0x301 then 3 else 0) clusterContinuationTable [0x65, 0x301, 0x78]) =
        [0x65, 0x301, 0x78]"
  by (rule getCluster_splits_text)
    (simp add: holds_text_def newStringStream_def initStreamDefault_def stream_ok_def stream_rest_def readable_def)

section \<open>The order of UTF-16 buffers\<close>

text \<open>The bytes of the code units in memory.\<close>

definition memory :: "UTF16Buffer \<Rightarrow> byte list" where
  "memory b = concat (map unit_bytes (vdata b))"

lemma unit_bytes_inj: "unit_bytes u = unit_bytes v \<longleftrightarrow> u = v"
proof
  assume "unit_bytes u = unit_bytes v"
  then have low: "(ucast u :: byte) = ucast v" and high: "(ucast (drop_bit 8 u) :: byte) = ucast (drop_bit 8 v)"
    by (simp_all add: unit_bytes_def)
  show "u = v"
  proof (rule bit_word_eqI)
    fix n assume "n < LENGTH(16)"
    then show "bit u n = bit v n"
    proof (cases "n < 8")
      case True
      with arg_cong [OF low, of "\<lambda>w. bit w n"] show ?thesis by (simp add: bit_simps)
    next
      case False
      moreover from this \<open>n < LENGTH(16)\<close> have "n - 8 < 8" by simp
      ultimately show ?thesis using arg_cong [OF high, of "\<lambda>w. bit w (n - 8)"] by (simp add: bit_simps)
    qed
  qed
qed simp

lemma memcmp_sign: "memcmp a b < 0 \<or> memcmp a b = 0 \<and> length a < length b \<longleftrightarrow> ord_class.lexordp a b"
proof (induction a arbitrary: b)
  case Nil
  show ?case by (cases b) simp_all
next
  case (Cons x xs)
  show ?case
  proof (cases b)
    case (Cons y ys)
    have "x \<noteq> y \<Longrightarrow> uint x \<noteq> uint y" using unsigned_word_eqI by blast
    with Cons Cons.IH [of ys] show ?thesis by (auto simp: word_less_def)
  qed simp
qed

lemma memcmp_swap: "memcmp b a = - memcmp a b"
  by (induction a b rule: memcmp.induct) auto

lemma memcmp_prefix:
  "memcmp (concat (map unit_bytes (take (min (length a) (length b)) a)))
     (concat (map unit_bytes (take (min (length a) (length b)) b))) =
   memcmp (concat (map unit_bytes a)) (concat (map unit_bytes b))"
proof (induction a arbitrary: b)
  case (Cons u us)
  then show ?case by (cases b) (simp_all add: unit_bytes_def)
qed simp

lemma length_units: "length (concat (map unit_bytes a)) = 2 * length a"
  by (induction a) (simp_all add: unit_bytes_def)

lemma memcmp_zero: "memcmp a b = 0 \<Longrightarrow> length a = length b \<Longrightarrow> a = b"
  using unsigned_word_eqI by (induction a b rule: memcmp.induct) (fastforce split: if_splits)+

lemma units_inj: "concat (map unit_bytes a) = concat (map unit_bytes b) \<Longrightarrow> a = b"
proof (induction a arbitrary: b)
  case Nil
  then show ?case by (cases b) (simp_all add: unit_bytes_def)
next
  case (Cons u us)
  then obtain v vs where b: "b = v # vs" by (cases b) (auto simp: unit_bytes_def)
  have "length (unit_bytes u) = length (unit_bytes v)" by (simp add: unit_bytes_def)
  with Cons b show ?case by (simp add: unit_bytes_inj)
qed

lemma memcmp_equal:
  "memcmp (concat (map unit_bytes a)) (concat (map unit_bytes b)) = 0 \<Longrightarrow> length a = length b \<Longrightarrow> a = b"
  by (rule units_inj, rule memcmp_zero) (simp_all add: length_units)

lemma compareUTF16Buffer_memcmp:
  "compareUTF16Buffer a b =
     (if memcmp (memory a) (memory b) \<noteq> 0 then memcmp (memory a) (memory b)
      else if used a < used b then - 1 else if used b < used a then 1 else 0)"
proof -
  have m: "(if used a < used b then used a else used b) = min (length (vdata a)) (length (vdata b))"
    by (simp add: used_def)
  have p: "memcmp (concat (map unit_bytes (take (min (length (vdata a)) (length (vdata b))) (vdata a))))
      (concat (map unit_bytes (take (min (length (vdata a)) (length (vdata b))) (vdata b)))) =
      memcmp (memory a) (memory b)"
    unfolding memory_def by (rule memcmp_prefix)
  show ?thesis unfolding compareUTF16Buffer_def m Let_def p by (auto simp: used_def)
qed

lemma compareUTF16Buffer_less: "compareUTF16Buffer a b < 0 \<longleftrightarrow> ord_class.lexordp (memory a) (memory b)"
  using memcmp_sign [of "memory a" "memory b"]
  by (auto simp: compareUTF16Buffer_memcmp memory_def length_units used_def)

lemma compareUTF16Buffer_zero: "compareUTF16Buffer a b = 0 \<longleftrightarrow> vdata a = vdata b"
proof
  assume "compareUTF16Buffer a b = 0"
  then have "memcmp (memory a) (memory b) = 0" "length (vdata a) = length (vdata b)"
    by (auto simp: compareUTF16Buffer_memcmp used_def split: if_splits)
  then show "vdata a = vdata b" using memcmp_equal by (simp add: memory_def)
next
  assume "vdata a = vdata b"
  moreover have "memcmp x x = 0" for x by (induction x) simp_all
  ultimately show "compareUTF16Buffer a b = 0" by (simp add: compareUTF16Buffer_memcmp memory_def used_def)
qed

lemma compareUTF16Buffer_swap: "compareUTF16Buffer b a = - compareUTF16Buffer a b"
  using memcmp_swap [of "memory b" "memory a"] by (auto simp: compareUTF16Buffer_memcmp)

text \<open>
  C20: \<open>compareUTF16Buffer\<close> orders buffers linearly, as the sorting and searching of character
  tables needs: it is negative exactly when the bytes of the first buffer come first in
  lexicographic order, zero exactly when the contents are equal, and changes its sign when its
  arguments are exchanged.
\<close>

theorem compareUTF16Buffer_order:
  "(compareUTF16Buffer a b < 0 \<longleftrightarrow> ord_class.lexordp (memory a) (memory b)) \<and>
   (compareUTF16Buffer a b = 0 \<longleftrightarrow> vdata a = vdata b) \<and>
   compareUTF16Buffer b a = - compareUTF16Buffer a b"
  by (intro conjI compareUTF16Buffer_less compareUTF16Buffer_zero compareUTF16Buffer_swap)

section \<open>The conversions that call ICU\<close>


section \<open>Writing a character\<close>

text \<open>
  C25: on a file that can be written, \<open>putuc\<close> of a character outside the surrogate ranges writes
  its bytes, and then reports failure: \<open>fileWriteReal\<close> returns 0 for success, which is smaller
  than the number of bytes.
\<close>

theorem putuc_reports_eof:
  assumes "sdata s = FileData f" "writing f" "c AND 0xF800 \<noteq> 0xD800"
  shows "\<exists>f'. putuc s c = Some (Inr (EOF, s\<lparr>sdata := FileData f'\<rparr>)) \<and> writing f' \<and>
    written f' = written f @ convertToUTF8 c"
proof -
  have "c AND 0xF800 = (c AND 0xFC00) AND 0xF800" by (simp add: and.assoc)
  with assms(3) have "c AND 0xFC00 \<noteq> 0xD800" "c AND 0xFC00 \<noteq> 0xDC00" by auto
  then have f: "filteredConvertToUTF8 c (highSurrogate s) = Inr (convertToUTF8 c, highSurrogate s)"
    by (simp add: filteredConvertToUTF8_def)
  have ne: "convertToUTF8 c \<noteq> []" by (simp add: convertToUTF8_def Let_def)
  from fileWriteReal_ok [OF assms(2)] obtain f' where
    f': "fileWriteReal f (convertToUTF8 c) = Some (Inr (0, f'))" "writing f'" "written f' = written f @ convertToUTF8 c"
    by blast
  have "putuc s c = Some (Inr (EOF, s\<lparr>highSurrogate := highSurrogate s, sdata := FileData f'\<rparr>))"
    using f ne f'(1) assms(1) by (simp add: putuc_def Let_def)
  with f' show ?thesis by auto
qed

theorem putuc_reports_eof_witness:
  "\<exists>f'. putuc (initStreamDefault (FileData (fileWrapFD [] [] FILE_WRITE))) 0x41 =
      Some (Inr (EOF, (initStreamDefault (FileData (fileWrapFD [] [] FILE_WRITE)))\<lparr>sdata := FileData f'\<rparr>)) \<and>
    writing f' \<and> written f' = written (fileWrapFD [] [] FILE_WRITE) @ convertToUTF8 0x41"
  by (rule putuc_reports_eof)
    (simp_all add: initStreamDefault_def writing_def fileWrapFD_def writes_ok_def)

text \<open>
  C26: a character of the supplementary planes whose low bits look like a surrogate is not read:
  for U+2DC00, an ideograph, the filter returns the replacement character.
\<close>

theorem getucFiltered_supplementary:
  assumes "stream_ok s" "nextChar s < 0" "stream_rest s = utf8 0x2DC00 @ t"
  shows "\<exists>s'. getucFiltered s = Inr (REPLACEMENT_CHARACTER, s') \<and> stream_rest s' = t"
proof -
  obtain s' where "getuc s = Inr (0x2DC00, s')" "stream_rest s' = t"
    using getuc_utf8 [OF assms(1,3)] by auto
  with assms(2) show ?thesis by (auto simp: getucFiltered_char filter_char_def)
qed

theorem getucFiltered_supplementary_witness:
  "\<exists>s'. getucFiltered (newStringStream (utf8 0x2DC00 @ [0x41])) = Inr (REPLACEMENT_CHARACTER, s') \<and>
     stream_rest s' = [0x41]"
  by (rule getucFiltered_supplementary)
    (simp_all add: newStringStream_def initStreamDefault_def stream_ok_def stream_rest_def)

end
