(* ===== verification/Settings.thy ===== *)
theory Settings
  imports Clusters
begin

text \<open>
  The data of definitions.h and option.h: the record of options, the state of an input file,
  the counters of the statistics, the bit sets of bytes, and the parameters that stand for the
  C library and ICU.

  The two \<open>InputFile\<close> fields of \<open>option_t\<close> change while the program runs; in the model they are
  part of the state of the program, and \<open>option_t\<close> holds the settings. A marker is a memory
  block and a length; the null pointer is \<open>None\<close>. The last two fields are the variables of the
  same names of diff.h.
\<close>

section \<open>Bit sets of bytes\<close>

text \<open>\<open>None\<close> is an access outside the array.\<close>

definition SET_BIT :: "byte list \<Rightarrow> int \<Rightarrow> byte list option" where
  "SET_BIT x b =
     (let i = drop_bit 3 b
      in if 0 \<le> i \<and> nat i < length x
         then Some (x[nat i := x ! nat i OR push_bit (nat (b AND 7)) 1])
         else None)"

definition TEST_BIT :: "byte list \<Rightarrow> int \<Rightarrow> bool option" where
  "TEST_BIT x b =
     (let i = drop_bit 3 b
      in if 0 \<le> i \<and> nat i < length x
         then Some (x ! nat i AND push_bit (nat (b AND 7)) 1 \<noteq> 0)
         else None)"

definition BITMASK_SIZE :: nat where
  "BITMASK_SIZE = (255 + 7) div 8"

definition DEFAULT_LINENUMBER_WIDTH :: nat where
  "DEFAULT_LINENUMBER_WIDTH = 4"

section \<open>Options\<close>

datatype decomposition = NFD | NFKD

text \<open>The stream \<open>option.output\<close>: the standard output, or the file given by \<open>--dwfilter\<close>.\<close>

datatype output_stream = Stdout | Outfile "byte list"

record option_t =
  delStart :: "byte list option"
  delStop :: "byte list option"
  addStart :: "byte list option"
  addStop :: "byte list option"
  delColor :: "byte list option"
  addColor :: "byte list option"
  delStartLen :: nat
  delStopLen :: nat
  addStartLen :: nat
  addStopLen :: nat
  delColorLen :: nat
  addColorLen :: nat
  delimiters :: "byte list"
  whitespace :: "byte list"
  delimiterList :: "UTF16Buffer vector"
  whitespaceList :: "UTF16Buffer vector"
  punctuationMask :: "32 word"
  decomposition :: decomposition
  whitespaceSet :: bool
  printDeleted :: bool
  printAdded :: bool
  printCommon :: bool
  needMarkers :: bool
  needStartStop :: bool
  printer :: bool
  less_mode :: bool
  statistics_wanted :: bool
  ignoreCase :: bool
  colorMode :: bool
  lineNumbers :: nat
  context_wanted :: bool
  contextLines :: nat
  matchContext :: nat
  aggregateChanges :: bool
  paraDelim :: bool
  paraDelimMarker :: "byte list"
  paraDelimMarkerLength :: nat
  wdiffOutput :: bool
  profile :: "byte list option"
  output_to :: output_stream
  dwfilterMode :: bool
  repeatMarkers :: bool
  diffInput :: bool
  minimal :: bool
  speed_large_files :: bool

text \<open>All bytes zero, as after \<open>memset\<close>.\<close>

definition zero_options :: option_t where
  "zero_options =
     \<lparr>delStart = None, delStop = None, addStart = None, addStop = None, delColor = None, addColor = None,
      delStartLen = 0, delStopLen = 0, addStartLen = 0, addStopLen = 0, delColorLen = 0, addColorLen = 0,
      delimiters = replicate BITMASK_SIZE 0, whitespace = replicate BITMASK_SIZE 0,
      delimiterList = VECTOR_INIT, whitespaceList = VECTOR_INIT, punctuationMask = 0, decomposition = NFD,
      whitespaceSet = False, printDeleted = False, printAdded = False, printCommon = False,
      needMarkers = False, needStartStop = False, printer = False, less_mode = False,
      statistics_wanted = False, ignoreCase = False, colorMode = False, lineNumbers = 0,
      context_wanted = False, contextLines = 0, matchContext = 0, aggregateChanges = False,
      paraDelim = False, paraDelimMarker = [], paraDelimMarkerLength = 0, wdiffOutput = False,
      profile = None, output_to = Stdout, dwfilterMode = False, repeatMarkers = False, diffInput = False,
      minimal = False, speed_large_files = False\<rparr>"

text \<open>The bytes at a pointer that is not null.\<close>

definition at_pointer :: "byte list option \<Rightarrow> byte list" where
  "at_pointer p = (case p of Some s \<Rightarrow> s | None \<Rightarrow> [])"

section \<open>Parameters\<close>

text \<open>
  The functions of the C library and of ICU that the program calls, and the mode chosen by the
  locale: categories of grapheme clusters, normalisation forms, case folding, the tests for
  punctuation and white space of both character sets, and \<open>tolower\<close>.
\<close>

record env =
  UTF8Mode :: bool
  gcb_class :: "int \<Rightarrow> int"
  normalize :: "decomposition \<Rightarrow> UChar list \<Rightarrow> UChar list"
  strFoldCase :: "UChar list \<Rightarrow> UChar list"
  char_type :: "int \<Rightarrow> nat"
  isUWhiteSpace :: "int \<Rightarrow> bool"
  tolower :: "int \<Rightarrow> int"
  ispunct :: "int \<Rightarrow> bool"
  isspace :: "int \<Rightarrow> bool"

section \<open>Input files and statistics\<close>

type_synonym CharBuffer = "byte vector"
type_synonym ValueTypeVector = "lin vector"

record InputFile =
  iname :: "byte list option"
  iinput :: "Stream option"
  diffTokens :: ValueTypeVector
  itokens :: Stream
  iwhitespace :: Stream
  lastPrinted :: int
  iwhitespaceBuffer :: CharBuffer
  whitespaceBufferUsed :: bool

record Statistics =
  stat_added :: int
  stat_deleted :: int
  oldChanged :: int
  newChanged :: int
  oldTotal :: int
  newTotal :: int

section \<open>Computations that stop or do not return\<close>

text \<open>
  A loop over a stream is a value of type \<open>'a run\<close>: \<open>None\<close> if it does not end, otherwise the
  result or the fault.
\<close>

type_synonym 'a run = "'a res option"

definition bind_run :: "'a run \<Rightarrow> ('a \<Rightarrow> 'b run) \<Rightarrow> 'b run" where
  "bind_run m f = Option.bind m (\<lambda>r. case r of Inl e \<Rightarrow> Some (Inl e) | Inr x \<Rightarrow> f x)"

lemma bind_run_simps [simp]:
  "bind_run None f = None"
  "bind_run (Some (Inl e)) f = Some (Inl e)"
  "bind_run (Some (Inr x)) f = f x"
  by (simp_all add: bind_run_def)

lemma bind_run_mono [partial_function_mono]:
  assumes "mono_option B" "\<And>y. mono_option (\<lambda>f. C y f)"
  shows "mono_option (\<lambda>f. bind_run (B f) (\<lambda>y. C y f))"
  unfolding bind_run_def
proof (rule bind_mono [OF assms(1)])
  fix r
  show "mono_option (\<lambda>f. case r of Inl e \<Rightarrow> Some (Inl e) | Inr x \<Rightarrow> C x f)"
    using assms(2) by (cases r) (auto intro: option.const_mono)
qed

lemma bind_run_eq:
  "bind_run m f = Some (Inr y) \<longleftrightarrow> (\<exists>x. m = Some (Inr x) \<and> f x = Some (Inr y))"
  by (cases m; cases "the m") (auto simp: bind_run_def)

definition returns :: "'a run \<Rightarrow> bool" where
  "returns m \<longleftrightarrow> m \<noteq> None"

lemma returns_simps [simp]: "returns (Some r)" "\<not> returns None"
  by (simp_all add: returns_def)

lemma returns_bind:
  "returns m \<Longrightarrow> (\<And>x. m = Some (Inr x) \<Longrightarrow> returns (f x)) \<Longrightarrow> returns (bind_run m f)"
  by (cases m; cases "the m") (auto simp: returns_def)

section \<open>The bit sets behave as sets\<close>

lemma TEST_SET_BIT:
  assumes "SET_BIT x b = Some y" "0 \<le> c"
  shows "TEST_BIT y c = (if c = b then Some True else TEST_BIT x c)"
proof -
  let ?i = "drop_bit 3 b" and ?j = "drop_bit 3 c"
  have b: "0 \<le> ?i" "nat ?i < length x" and y: "y = x[nat ?i := x ! nat ?i OR push_bit (nat (b AND 7)) 1]"
    using assms(1) by (auto simp: SET_BIT_def Let_def split: if_splits)
  have split: "k = 8 * drop_bit 3 k + (k AND 7)" and small: "0 \<le> k AND 7" "k AND 7 < 8" for k :: int
  proof -
    have "k AND 7 = k mod 8" by (rule and_mask_mod)
    then show "k = 8 * drop_bit 3 k + (k AND 7)" "0 \<le> k AND 7" "k AND 7 < 8"
      by (simp_all add: drop_bit_eq_div)
  qed
  have bits: "(w OR push_bit m 1) AND push_bit n 1 \<noteq> (0 :: byte) \<longleftrightarrow> m = n \<or> w AND push_bit n 1 \<noteq> 0"
    if "m < 8" "n < 8" for w :: byte and m n
  proof -
    have single: "v AND push_bit n 1 \<noteq> 0 \<longleftrightarrow> bit v n" for v :: byte
      using that(2) by (simp add: and_exp_eq_0_iff_not_bit push_bit_eq_mult)
    show ?thesis unfolding single using that by (auto simp: bit_simps)
  qed
  show ?thesis
  proof (cases "?j = ?i")
    case True
    then have eq: "c = b \<longleftrightarrow> nat (c AND 7) = nat (b AND 7)"
      using split [of b] split [of c] small [of b] small [of c] by (metis eq_nat_nat_iff)
    have lt: "nat (b AND 7) < 8" "nat (c AND 7) < 8" using small [of b] small [of c] by linarith+
    show ?thesis
      using b True eq bits [OF lt, of "x ! nat ?i"] by (auto simp: TEST_BIT_def y Let_def)
  next
    case False
    then have "c \<noteq> b" by auto
    moreover have "0 \<le> ?j" using assms(2) by simp
    ultimately show ?thesis
      using b False by (simp add: TEST_BIT_def y Let_def nth_list_update eq_nat_nat_iff)
  qed
qed

end
