(* ===== verification/Buffer.thy ===== *)
theory Buffer
  imports Settings
begin

text \<open>
  The output buffer of buffer.c. With \<open>--context\<close> only the lines near a change are printed: text
  common to both files goes to a ring of \<open>contextLines + 1\<close> line buffers until a changed
  character arrives, which prints the buffered lines.

  The abstract view keeps the whole history of lines since the buffering began. The ring
  buffer implements it: what a change prints is the separator, the last \<open>contextLines\<close> lines
  of the history and the line under construction.
\<close>

datatype PrintState =
    PRINTING_CHANGED
  | PRINTING_AFTER_CONTEXT
  | PRE_BUFFERING
  | BUFFERING
  | PRE_BUFFERING_INITIAL
  | BUFFERING_INITIAL

text \<open>
  The static variables of buffer.c, and the bytes written to the standard output and to the
  file of \<open>--dwfilter\<close>.
\<close>

record bufstate =
  contextBuffers :: "CharBuffer list"
  pstate :: PrintState
  ring_index :: nat
  afterContextLines :: nat
  stdout_bytes :: "byte list"
  outfile_bytes :: "byte list"

definition initContextBuffers :: "option_t \<Rightarrow> 'a bufstate_scheme \<Rightarrow> 'a bufstate_scheme" where
  "initContextBuffers opt s = s\<lparr>contextBuffers := replicate (contextLines opt + 1) VECTOR_INIT\<rparr>"

text \<open>\<open>printf\<close> and \<open>puts\<close>, and \<open>fwrite\<close> and \<open>putc\<close> to \<open>option.output\<close>.\<close>

definition write_stdout :: "byte list \<Rightarrow> 'a bufstate_scheme \<Rightarrow> 'a bufstate_scheme" where
  "write_stdout bs s = s\<lparr>stdout_bytes := stdout_bytes s @ bs\<rparr>"

definition write_output :: "option_t \<Rightarrow> byte list \<Rightarrow> 'a bufstate_scheme \<Rightarrow> 'a bufstate_scheme" where
  "write_output opt bs s =
     (case output_to opt of
        Stdout \<Rightarrow> write_stdout bs s
      | Outfile _ \<Rightarrow> s\<lparr>outfile_bytes := outfile_bytes s @ bs\<rparr>)"

definition buffer_data :: "CharBuffer list \<Rightarrow> byte list" where
  "buffer_data bufs = concat (map vdata bufs)"

text \<open>The first switch of \<open>addchar\<close>: print what has been buffered.\<close>

definition flush_context :: "option_t \<Rightarrow> 'a bufstate_scheme \<Rightarrow> 'a bufstate_scheme" where
  "flush_context opt s =
     (let i = ring_index s;
          after = buffer_data (drop (i + 1) (contextBuffers s));
          upto_here = buffer_data (take (i + 1) (contextBuffers s))
      in case pstate s of
           PRINTING_CHANGED \<Rightarrow> s
         | PRINTING_AFTER_CONTEXT \<Rightarrow> s
         | BUFFERING \<Rightarrow> write_output opt upto_here (write_output opt after (write_output opt [45, 45, 10] s))
         | BUFFERING_INITIAL \<Rightarrow> write_output opt upto_here (write_output opt after s)
         | PRE_BUFFERING \<Rightarrow> write_output opt upto_here s
         | PRE_BUFFERING_INITIAL \<Rightarrow> write_output opt upto_here s)"

definition is_buffering :: "PrintState \<Rightarrow> bool" where
  "is_buffering p \<longleftrightarrow> p \<noteq> PRINTING_CHANGED \<and> p \<noteq> PRINTING_AFTER_CONTEXT"

definition on_current :: "(CharBuffer \<Rightarrow> CharBuffer) \<Rightarrow> 'a bufstate_scheme \<Rightarrow> 'a bufstate_scheme" where
  "on_current f s =
     s\<lparr>contextBuffers := (contextBuffers s)[ring_index s := f (contextBuffers s ! ring_index s)]\<rparr>"

text \<open>The last switch of \<open>addchar\<close>: the change of state at the end of a line.\<close>

definition end_of_line :: "option_t \<Rightarrow> 'a bufstate_scheme \<Rightarrow> 'a bufstate_scheme" where
  "end_of_line opt s =
     (let n = contextLines opt;
          s1 = (case pstate s of
             PRINTING_CHANGED \<Rightarrow>
               if n = 0 then s\<lparr>pstate := PRE_BUFFERING\<rparr>
               else s\<lparr>pstate := PRINTING_AFTER_CONTEXT, afterContextLines := 0\<rparr>
           | PRINTING_AFTER_CONTEXT \<Rightarrow>
               (let s' = s\<lparr>afterContextLines := afterContextLines s + 1\<rparr>
                in if afterContextLines s' = n then s'\<lparr>pstate := PRE_BUFFERING, ring_index := 0\<rparr> else s')
           | PRE_BUFFERING \<Rightarrow>
               if ring_index s + 1 > n then s\<lparr>pstate := BUFFERING, ring_index := 0\<rparr>
               else s\<lparr>ring_index := ring_index s + 1\<rparr>
           | PRE_BUFFERING_INITIAL \<Rightarrow>
               if ring_index s + 1 > n then s\<lparr>pstate := BUFFERING_INITIAL, ring_index := 0\<rparr>
               else s\<lparr>ring_index := ring_index s + 1\<rparr>
           | BUFFERING \<Rightarrow> s\<lparr>ring_index := (if ring_index s + 1 > n then 0 else ring_index s + 1)\<rparr>
           | BUFFERING_INITIAL \<Rightarrow> s\<lparr>ring_index := (if ring_index s + 1 > n then 0 else ring_index s + 1)\<rparr>)
      in on_current vector_clear s1)"

definition addchar :: "option_t \<Rightarrow> byte \<Rightarrow> bool \<Rightarrow> 'a bufstate_scheme \<Rightarrow> 'a bufstate_scheme" where
  "addchar opt c common s =
     (if \<not> context_wanted opt then write_output opt [c] s
      else let s1 = (if common then s else (flush_context opt s)\<lparr>pstate := PRINTING_CHANGED\<rparr>);
               s2 = (if is_buffering (pstate s1) then on_current (\<lambda>b. VECTOR_APPEND b c) s1
                     else write_output opt [c] s1)
           in if c = 10 then end_of_line opt s2 else s2)"

section \<open>Line numbers\<close>

fun digits :: "nat \<Rightarrow> byte list" where
  "digits n = (if n < 10 then [of_nat (48 + n)] else digits (n div 10) @ [of_nat (48 + n mod 10)])"

declare digits.simps [simp del]

definition decimal :: "int \<Rightarrow> byte list" where
  "decimal i = (if i < 0 then 45 # digits (nat (- i)) else digits (nat i))"

text \<open>The format \<open>%*d:%-*d \<close> followed by a space.\<close>

definition line_numbers_text :: "nat \<Rightarrow> int \<Rightarrow> int \<Rightarrow> byte list" where
  "line_numbers_text w old new =
     replicate (w - length (decimal old)) 32 @ decimal old @ [58] @
     decimal new @ replicate (w - length (decimal new)) 32 @ [32]"

text \<open>
  What \<open>snprintf\<close> leaves in the cells that the program then counts as used: the text, or its
  beginning and the terminator when it does not fit.
\<close>

definition snprintf_cells :: "nat \<Rightarrow> byte list \<Rightarrow> byte list" where
  "snprintf_cells allowed t = (if length t < allowed then t else take (allowed - 1) t @ [0])"

definition printLineNumbers :: "option_t \<Rightarrow> 32 word \<Rightarrow> 32 word \<Rightarrow> 'a bufstate_scheme \<Rightarrow> 'a bufstate_scheme" where
  "printLineNumbers opt oldLineNumber newLineNumber s =
     (let t = line_numbers_text (lineNumbers opt) (sint oldLineNumber) (sint newLineNumber)
      in if \<not> context_wanted opt then write_stdout t s
         else if is_buffering (pstate s) then
           on_current (\<lambda>b0.
             let allowed = allocated b0 - used b0;
                 b = VECTOR_ALLOCATE b0 4;
                 printed = length t
             in if printed > allowed
                then let b' = VECTOR_ALLOCATE b printed
                     in b'\<lparr>vdata := vdata b' @ snprintf_cells (allocated b' - used b') t\<rparr>
                else b\<lparr>vdata := vdata b @ snprintf_cells allowed t\<rparr>) s
         else write_stdout t s)"

definition writeString :: "option_t \<Rightarrow> byte list \<Rightarrow> nat \<Rightarrow> 'a bufstate_scheme \<Rightarrow> 'a bufstate_scheme" where
  "writeString opt str bytes s =
     (let t = take bytes str
      in if \<not> context_wanted opt then write_output opt t s
         else if is_buffering (pstate s) then on_current (\<lambda>b. vector_write b t) s
         else write_output opt t s)"

section \<open>The abstract view\<close>

text \<open>
  Either the text is being printed, with the number of complete lines since the last change,
  or it is withheld: whether anything was printed before, the complete lines withheld so far,
  and the line under construction.
\<close>

datatype view = Shown "nat option" | Hidden bool "byte list list" "byte list"

definition view_flush :: "nat \<Rightarrow> view \<Rightarrow> byte list" where
  "view_flush n v =
     (case v of
        Shown _ \<Rightarrow> []
      | Hidden initial hist cur \<Rightarrow>
          (if \<not> initial \<and> n < length hist then [45, 45, 10] else []) @
          concat (drop (length hist - n) hist) @ cur)"

definition view_newline :: "nat \<Rightarrow> view \<Rightarrow> view" where
  "view_newline n v =
     (case v of
        Shown None \<Rightarrow> if n = 0 then Hidden False [] [] else Shown (Some 0)
      | Shown (Some k) \<Rightarrow> if k + 1 = n then Hidden False [] [] else Shown (Some (k + 1))
      | Hidden initial hist cur \<Rightarrow> Hidden initial (hist @ [cur]) [])"

text \<open>A piece of text that does not change the state: printed, or added to the line.\<close>

definition view_text :: "byte list \<Rightarrow> view \<times> byte list \<Rightarrow> view \<times> byte list" where
  "view_text t vo =
     (case fst vo of
        Shown k \<Rightarrow> (Shown k, snd vo @ t)
      | Hidden initial hist cur \<Rightarrow> (Hidden initial hist (cur @ t), snd vo))"

definition view_char :: "nat \<Rightarrow> byte \<Rightarrow> bool \<Rightarrow> view \<times> byte list \<Rightarrow> view \<times> byte list" where
  "view_char n c common vo =
     (let vo1 = (if common then vo else (Shown None, snd vo @ view_flush n (fst vo)));
          vo2 = view_text [c] vo1
      in if c = 10 then (view_newline n (fst vo2), snd vo2) else vo2)"

section \<open>The ring buffer implements the view\<close>

definition out_bytes :: "option_t \<Rightarrow> 'a bufstate_scheme \<Rightarrow> byte list" where
  "out_bytes opt s = (case output_to opt of Stdout \<Rightarrow> stdout_bytes s | Outfile _ \<Rightarrow> outfile_bytes s)"

lemma out_bytes_write [simp]: "out_bytes opt (write_output opt bs s) = out_bytes opt s @ bs"
  by (cases "output_to opt") (simp_all add: out_bytes_def write_output_def write_stdout_def)

lemma out_bytes_upd [simp]:
  "out_bytes opt (s\<lparr>contextBuffers := a\<rparr>) = out_bytes opt s"
  "out_bytes opt (s\<lparr>pstate := b\<rparr>) = out_bytes opt s"
  "out_bytes opt (s\<lparr>ring_index := c\<rparr>) = out_bytes opt s"
  "out_bytes opt (s\<lparr>afterContextLines := d\<rparr>) = out_bytes opt s"
  by (simp_all add: out_bytes_def split: output_stream.split)

lemma write_output_fields [simp]:
  "contextBuffers (write_output opt bs s) = contextBuffers s"
  "pstate (write_output opt bs s) = pstate s"
  "ring_index (write_output opt bs s) = ring_index s"
  "afterContextLines (write_output opt bs s) = afterContextLines s"
  by (cases "output_to opt"; simp add: write_output_def write_stdout_def)+

text \<open>The representation of a history in the ring: line \<open>j\<close> is in buffer \<open>j mod (n + 1)\<close>.\<close>

definition ring_holds :: "nat \<Rightarrow> CharBuffer list \<Rightarrow> byte list list \<Rightarrow> bool" where
  "ring_holds n bufs hist \<longleftrightarrow>
     (\<forall>j < length hist. length hist \<le> j + n \<longrightarrow> vdata (bufs ! (j mod (n + 1))) = hist ! j)"

definition shows_view :: "nat \<Rightarrow> 'a bufstate_scheme \<Rightarrow> view \<Rightarrow> bool" where
  "shows_view n s v \<longleftrightarrow>
     length (contextBuffers s) = n + 1 \<and> ring_index s \<le> n \<and>
     (case v of
        Shown None \<Rightarrow> pstate s = PRINTING_CHANGED
      | Shown (Some k) \<Rightarrow> pstate s = PRINTING_AFTER_CONTEXT \<and> afterContextLines s = k \<and> k < n
      | Hidden initial hist cur \<Rightarrow>
          ring_index s = length hist mod (n + 1) \<and>
          pstate s = (if length hist \<le> n then if initial then PRE_BUFFERING_INITIAL else PRE_BUFFERING
                           else if initial then BUFFERING_INITIAL else BUFFERING) \<and>
          vdata (contextBuffers s ! ring_index s) = cur \<and> ring_holds n (contextBuffers s) hist)"

lemma ring_map:
  assumes "ring_holds n bufs hist" "length hist \<le> k + n" "k \<le> length hist"
  shows "map (\<lambda>j. vdata (bufs ! (j mod (n + 1)))) [k..<length hist] = drop k hist"
  using assms by (intro nth_equalityI) (auto simp: ring_holds_def)

lemma ring_full:
  assumes "length bufs = n + 1" "n < length hist" "ring_holds n bufs hist" "i = length hist mod (n + 1)"
  shows "map vdata (drop (i + 1) bufs @ take i bufs) = drop (length hist - n) hist"
proof (rule nth_equalityI)
  have i: "i \<le> n" using assms(4) by (simp add: mod_le_divisor less_Suc_eq_le [symmetric])
  then show len: "length (map vdata (drop (i + 1) bufs @ take i bufs)) = length (drop (length hist - n) hist)"
    using assms(1,2) by simp
  fix t assume "t < length (map vdata (drop (i + 1) bufs @ take i bufs))"
  with i assms(1) have t: "t < n" by simp
  let ?j = "length hist - n + t"
  have jm: "?j mod (n + 1) = (i + 1 + t) mod (n + 1)"
  proof -
    have "(?j + (n + 1)) mod (n + 1) = (length hist + 1 + t) mod (n + 1)"
      using assms(2) by (simp add: algebra_simps)
    also have "\<dots> = (i + 1 + t) mod (n + 1)"
      unfolding assms(4) by (metis (no_types, lifting) add.assoc mod_add_left_eq)
    finally show ?thesis by (simp only: mod_add_self2)
  qed
  have "map vdata (drop (i + 1) bufs @ take i bufs) ! t = vdata (bufs ! ((i + 1 + t) mod (n + 1)))"
  proof (cases "t < n - i")
    case True
    then have "(i + 1 + t) mod (n + 1) = i + 1 + t" using i by simp
    with True i t assms(1) show ?thesis by (simp add: nth_append)
  next
    case False
    then have "i + 1 + t = (t - (n - i)) + (n + 1)" using i by simp
    then have "(i + 1 + t) mod (n + 1) = t - (n - i)"
      using t by (simp only: mod_add_self2) simp
    with False i t assms(1) show ?thesis by (simp add: nth_append)
  qed
  also have "\<dots> = hist ! ?j"
    using assms(2,3) t unfolding jm [symmetric] by (simp add: ring_holds_def)
  finally show "map vdata (drop (i + 1) bufs @ take i bufs) ! t = drop (length hist - n) hist ! t"
    using assms(2) t by simp
qed

lemma ring_part:
  assumes "length bufs = n + 1" "length hist \<le> n" "ring_holds n bufs hist"
  shows "map vdata (take (length hist) bufs) = hist"
  using assms by (intro nth_equalityI) (auto simp: ring_holds_def)

lemma ring_other:
  assumes "j < L" "L \<le> j + (n :: nat)"
  shows "j mod (n + 1) \<noteq> L mod (n + 1)"
proof
  assume "j mod (n + 1) = L mod (n + 1)"
  then have "n + 1 dvd L - j" using assms(1) by (metis less_imp_le mod_eq_dvd_iff_nat)
  then have "n + 1 \<le> L - j" using assms(1) by (intro dvd_imp_le) simp_all
  with assms show False by simp
qed

lemma ring_next:
  fixes n :: nat
  assumes "i = L mod (n + 1)"
  shows "(if i + 1 > n then 0 else i + 1) = (L + 1) mod (n + 1)"
proof -
  have "i < n + 1" unfolding assms by (rule mod_less_divisor) simp
  moreover have "(L + 1) mod (n + 1) = (i + 1) mod (n + 1)" unfolding assms by (simp add: mod_simps)
  ultimately show ?thesis by (cases "i = n") simp_all
qed

lemma ring_holds_update:
  assumes "ring_holds n bufs hist" "i = length hist mod (n + 1)"
  shows "ring_holds n (bufs[i := b]) hist"
  unfolding ring_holds_def
proof (intro allI impI)
  fix j assume "j < length hist" "length hist \<le> j + n"
  with ring_other [OF this] assms show "vdata (bufs[i := b] ! (j mod (n + 1))) = hist ! j"
    by (simp add: ring_holds_def)
qed

lemma ring_holds_newline:
  assumes "ring_holds n bufs hist" "vdata (bufs ! (length hist mod (n + 1))) = cur"
  shows "ring_holds n bufs (hist @ [cur])"
  using assms by (auto simp: ring_holds_def nth_append less_Suc_eq)

lemma flush_context_view:
  assumes "shows_view (contextLines opt) s v"
  shows "out_bytes opt (flush_context opt s) = out_bytes opt s @ view_flush (contextLines opt) v \<and>
    contextBuffers (flush_context opt s) = contextBuffers s \<and> ring_index (flush_context opt s) = ring_index s"
proof (cases v)
  case (Shown k)
  with assms show ?thesis
    by (cases k) (auto simp: shows_view_def flush_context_def view_flush_def Let_def)
next
  case (Hidden initial hist cur)
  let ?n = "contextLines opt" and ?i = "ring_index s" and ?bufs = "contextBuffers s"
  have inv: "length ?bufs = ?n + 1" "?i \<le> ?n" "?i = length hist mod (?n + 1)" "vdata (?bufs ! ?i) = cur"
    "ring_holds ?n ?bufs hist"
    using assms Hidden by (auto simp: shows_view_def)
  have cur: "buffer_data (take (?i + 1) ?bufs) = buffer_data (take ?i ?bufs) @ cur"
    using inv by (simp add: buffer_data_def take_Suc_conv_app_nth)
  show ?thesis
  proof (cases "length hist \<le> ?n")
    case True
    with inv(3) have "?i = length hist" by simp
    with cur ring_part [OF inv(1) True inv(5)] True have "buffer_data (take (?i + 1) ?bufs) = concat hist @ cur"
      by (simp add: buffer_data_def)
    with assms Hidden True show ?thesis
      by (auto simp: shows_view_def flush_context_def view_flush_def Let_def)
  next
    case False
    from ring_full [OF inv(1) _ inv(5,3)] False
    have "buffer_data (drop (?i + 1) ?bufs) @ buffer_data (take ?i ?bufs) = concat (drop (length hist - ?n) hist)"
      by (simp add: buffer_data_def flip: concat_append map_append)
    with cur have "buffer_data (drop (?i + 1) ?bufs) @ buffer_data (take (?i + 1) ?bufs) =
        concat (drop (length hist - ?n) hist) @ cur" by simp
    with assms Hidden False show ?thesis
      by (auto simp: shows_view_def flush_context_def view_flush_def Let_def)
  qed
qed

definition buffers :: "option_t \<Rightarrow> 'a bufstate_scheme \<Rightarrow> view \<times> byte list \<Rightarrow> bool" where
  "buffers opt s vo \<longleftrightarrow> shows_view (contextLines opt) s (fst vo) \<and> out_bytes opt s = snd vo"

lemma on_current_fields [simp]:
  "pstate (on_current f s) = pstate s" "ring_index (on_current f s) = ring_index s"
  "afterContextLines (on_current f s) = afterContextLines s"
  "out_bytes opt (on_current f s) = out_bytes opt s"
  "contextBuffers (on_current f s) = (contextBuffers s)[ring_index s := f (contextBuffers s ! ring_index s)]"
  by (simp_all add: on_current_def)

text \<open>Text goes to the output or to the current line, however it is appended.\<close>

lemma text_view:
  assumes "buffers opt s vo" "\<And>b. vdata (f b) = vdata b @ t"
  shows "buffers opt (if is_buffering (pstate s) then on_current f s else write_output opt t s) (view_text t vo)"
proof (cases "fst vo")
  case (Shown k)
  with assms(1) show ?thesis
    by (cases k) (auto simp: buffers_def shows_view_def view_text_def is_buffering_def)
next
  case (Hidden initial hist cur)
  let ?n = "contextLines opt"
  from assms(1) Hidden have inv: "length (contextBuffers s) = ?n + 1" "ring_index s \<le> ?n"
    "ring_index s = length hist mod (?n + 1)" "ring_holds ?n (contextBuffers s) hist"
    by (auto simp: buffers_def shows_view_def)
  have "is_buffering (pstate s)"
    using assms(1) Hidden by (auto simp: buffers_def shows_view_def is_buffering_def)
  with assms Hidden ring_holds_update [OF inv(4,3)] show ?thesis
    by (auto simp: buffers_def shows_view_def view_text_def)
qed

lemma end_of_line_view:
  assumes "buffers opt s vo"
  shows "buffers opt (end_of_line opt s) (view_newline (contextLines opt) (fst vo), snd vo)"
proof (cases "fst vo")
  case (Shown k)
  with assms show ?thesis
    by (cases k)
      (auto simp: buffers_def shows_view_def end_of_line_def view_newline_def Let_def ring_holds_def)
next
  case (Hidden initial hist cur)
  let ?n = "contextLines opt" and ?L = "length hist" and ?bufs = "contextBuffers s"
  from assms Hidden have inv: "length ?bufs = ?n + 1" "ring_index s \<le> ?n"
    "ring_index s = ?L mod (?n + 1)" "vdata (?bufs ! (?L mod (?n + 1))) = cur" "ring_holds ?n ?bufs hist"
    and st: "pstate s = (if ?L \<le> ?n then if initial then PRE_BUFFERING_INITIAL else PRE_BUFFERING
                           else if initial then BUFFERING_INITIAL else BUFFERING)"
    and out: "out_bytes opt s = snd vo"
    by (auto simp: buffers_def shows_view_def)
  let ?i = "(if ring_index s + 1 > ?n then 0 else ring_index s + 1)"
  have i: "?i = (?L + 1) mod (?n + 1)" by (rule ring_next [OF inv(3)])
  have holds: "ring_holds ?n (?bufs[?i := b]) (hist @ [cur])" for b
    using ring_holds_update [OF ring_holds_newline [OF inv(5,4)], of ?i b] i by simp
  let ?p = "if ?L + 1 \<le> ?n then if initial then PRE_BUFFERING_INITIAL else PRE_BUFFERING
       else if initial then BUFFERING_INITIAL else BUFFERING"
  have i_le: "?L \<le> ?n \<Longrightarrow> ring_index s = ?L" using inv(3) by simp
  obtain s1 where "end_of_line opt s = on_current vector_clear s1" "ring_index s1 = ?i" "pstate s1 = ?p"
    "contextBuffers s1 = ?bufs" "out_bytes opt s1 = snd vo"
    using st i_le out
    by (cases "?L \<le> ?n"; cases initial) (auto simp: end_of_line_def Let_def)
  moreover have "?i \<le> ?n" by simp
  ultimately show ?thesis
    using holds i inv(1) Hidden by (simp add: buffers_def shows_view_def view_newline_def)
qed

lemma addchar_view:
  assumes "context_wanted opt" "buffers opt s vo"
  shows "buffers opt (addchar opt c common s) (view_char (contextLines opt) c common vo)"
proof -
  let ?s1 = "if common then s else (flush_context opt s)\<lparr>pstate := PRINTING_CHANGED\<rparr>"
  let ?vo1 = "if common then vo else (Shown None, snd vo @ view_flush (contextLines opt) (fst vo))"
  have "buffers opt ?s1 ?vo1"
    using assms(2) flush_context_view [of opt s "fst vo"] by (auto simp: buffers_def shows_view_def)
  from text_view [OF this, of "\<lambda>b. VECTOR_APPEND b c" "[c]"]
  have txt_ok: "buffers opt (if is_buffering (pstate ?s1) then on_current (\<lambda>b. VECTOR_APPEND b c) ?s1
      else write_output opt [c] ?s1) (view_text [c] ?vo1)" by simp
  from txt_ok end_of_line_view [OF txt_ok] assms(1) show ?thesis
    unfolding addchar_def view_char_def Let_def by (cases "c = 10") (simp_all only: if_True if_False simp_thms)
qed

lemma writeString_view:
  assumes "context_wanted opt" "buffers opt s vo"
  shows "buffers opt (writeString opt str n s) (view_text (take n str) vo)"
  using text_view [OF assms(2), of "\<lambda>b. vector_write b (take n str)" "take n str"] assms(1)
  by (simp add: writeString_def Let_def)

text \<open>
  The line numbers are text like any other, if the standard output is the output and the room
  left in the buffer is not exactly the length of the text.
\<close>

lemma printLineNumbers_view:
  assumes "context_wanted opt" "buffers opt s vo" "output_to opt = Stdout"
    and "t = line_numbers_text (lineNumbers opt) (sint a) (sint b)"
    and "is_buffering (pstate s) \<Longrightarrow> allocated (contextBuffers s ! ring_index s) -
      used (contextBuffers s ! ring_index s) \<noteq> length t"
  shows "buffers opt (printLineNumbers opt a b s) (view_text t vo)"
proof (cases "is_buffering (pstate s)")
  case False
  with text_view [OF assms(2), of "\<lambda>b. VECTOR_INIT\<lparr>vdata := vdata b @ t\<rparr>" t] assms(1,3,4) show ?thesis
    by (simp add: printLineNumbers_def write_output_def Let_def)
next
  case True
  let ?b0 = "contextBuffers s ! ring_index s"
  let ?f = "\<lambda>b0. if length t > allocated ?b0 - used ?b0
      then (let b' = VECTOR_ALLOCATE (VECTOR_ALLOCATE b0 4) (length t) in b'\<lparr>vdata := vdata b0 @ t\<rparr>)
      else (VECTOR_ALLOCATE b0 4)\<lparr>vdata := vdata b0 @ t\<rparr>"
  have room: "length t < allocated (VECTOR_ALLOCATE (VECTOR_ALLOCATE ?b0 4) (length t)) -
      used (VECTOR_ALLOCATE (VECTOR_ALLOCATE ?b0 4) (length t))"
    using VECTOR_ALLOCATE_room [of "VECTOR_ALLOCATE ?b0 4" "length t"] by (simp add: used_def)
  have "printLineNumbers opt a b s = on_current ?f s"
    using True assms(1,4) assms(5) [OF True] room
    by (auto simp: printLineNumbers_def on_current_def Let_def snprintf_cells_def)
  with text_view [OF assms(2), of ?f t] True show ?thesis by (simp add: Let_def)
qed

text \<open>The calls of a run, and the run on the view.\<close>

datatype bufcall = Addchar byte bool | WriteString "byte list"

fun run_calls :: "option_t \<Rightarrow> bufcall list \<Rightarrow> 'a bufstate_scheme \<Rightarrow> 'a bufstate_scheme" where
  "run_calls opt [] s = s"
| "run_calls opt (Addchar c common # cs) s = run_calls opt cs (addchar opt c common s)"
| "run_calls opt (WriteString t # cs) s = run_calls opt cs (writeString opt t (length t) s)"

fun view_calls :: "nat \<Rightarrow> bufcall list \<Rightarrow> view \<times> byte list \<Rightarrow> view \<times> byte list" where
  "view_calls n [] vo = vo"
| "view_calls n (Addchar c common # cs) vo = view_calls n cs (view_char n c common vo)"
| "view_calls n (WriteString t # cs) vo = view_calls n cs (view_text t vo)"

definition init_buf :: "option_t \<Rightarrow> bufstate" where
  "init_buf opt = initContextBuffers opt
     \<lparr>contextBuffers = [], pstate = PRE_BUFFERING_INITIAL, ring_index = 0, afterContextLines = 0,
      stdout_bytes = [], outfile_bytes = []\<rparr>"

lemma init_buf_view: "buffers opt (init_buf opt) (Hidden True [] [], [])"
  by (auto simp: buffers_def shows_view_def init_buf_def initContextBuffers_def ring_holds_def out_bytes_def
      nth_append split: output_stream.split)

lemma run_calls_view:
  "context_wanted opt \<Longrightarrow> buffers opt s vo \<Longrightarrow> buffers opt (run_calls opt cs s) (view_calls (contextLines opt) cs vo)"
proof (induction opt cs s arbitrary: vo rule: run_calls.induct)
  case (3 opt t cs s)
  with writeString_view [OF "3.prems", of t "length t"] show ?case by simp
qed (simp_all add: addchar_view)

text \<open>
  C27: with \<open>--context\<close>, the ring of line buffers prints exactly what the view with the
  unbounded history prints, for every sequence of calls; and every access of the ring is inside
  the array.
\<close>

theorem context_buffers_refine:
  assumes "context_wanted opt"
  shows "out_bytes opt (run_calls opt cs (init_buf opt)) =
      snd (view_calls (contextLines opt) cs (Hidden True [] [], [])) \<and>
    ring_index (run_calls opt cs (init_buf opt)) < length (contextBuffers (run_calls opt cs (init_buf opt)))"
  using run_calls_view [OF assms init_buf_view, of cs] by (auto simp: buffers_def shows_view_def)

theorem context_buffers_refine_witness:
  "out_bytes (zero_options\<lparr>context_wanted := True, contextLines := 1\<rparr>)
     (run_calls (zero_options\<lparr>context_wanted := True, contextLines := 1\<rparr>)
       [Addchar 97 True, Addchar 10 True, Addchar 98 False, Addchar 10 True]
       (init_buf (zero_options\<lparr>context_wanted := True, contextLines := 1\<rparr>))) = [97, 10, 98, 10]"
  using context_buffers_refine [of "zero_options\<lparr>context_wanted := True, contextLines := 1\<rparr>"
      "[Addchar 97 True, Addchar 10 True, Addchar 98 False, Addchar 10 True]"]
  by (simp add: view_char_def view_text_def view_flush_def view_newline_def Let_def)

text \<open>
  C28: when the line numbers exactly fill the room left in a line buffer, the byte after them is
  the terminator of \<open>snprintf\<close> instead of the space: the test for a second attempt is
  \<open>printed > allowed\<close>. The witness is the state of \<open>dwdiff -c -C0 -L13\<close> after the first deleted line.
\<close>

theorem printLineNumbers_terminator:
  assumes "context_wanted opt" "is_buffering (pstate s)" "ring_index s < length (contextBuffers s)"
    and "t = line_numbers_text (lineNumbers opt) (sint a) (sint b)"
    and "allocated (contextBuffers s ! ring_index s) - used (contextBuffers s ! ring_index s) = length t"
  shows "vdata (contextBuffers (printLineNumbers opt a b s) ! ring_index s) =
    vdata (contextBuffers s ! ring_index s) @ butlast t @ [0]"
proof -
  have "butlast t = take (length t - 1) t" by (rule butlast_conv_take)
  with assms show ?thesis
    by (simp add: printLineNumbers_def Let_def snprintf_cells_def)
qed

theorem printLineNumbers_terminator_witness:
  "vdata (contextBuffers (printLineNumbers (zero_options\<lparr>context_wanted := True, lineNumbers := 13\<rparr>) 1 1
      ((init_buf zero_options)\<lparr>contextBuffers := [\<lparr>vdata = [27, 91, 48, 109], allocated = 32\<rparr>]\<rparr>)) ! 0) =
    [27, 91, 48, 109] @ butlast (line_numbers_text 13 1 1) @ [0]"
  using printLineNumbers_terminator [of "zero_options\<lparr>context_wanted := True, lineNumbers := 13\<rparr>"
      "(init_buf zero_options)\<lparr>contextBuffers := [\<lparr>vdata = [27, 91, 48, 109], allocated = 32\<rparr>]\<rparr>"
      "line_numbers_text 13 1 1" 1 1]
  by (simp add: init_buf_def initContextBuffers_def is_buffering_def used_def line_numbers_text_def decimal_def digits.simps)

end
