(* ===== verification/Hashtable.thy ===== *)
theory Hashtable
  imports Prelude
begin

text \<open>
  The table of hashtable.c that gives every distinct word a number. The state is the
  array of bucket chains (newest tuple first), the next number to hand out, and the list
  of memory blocks (newest first) from which tuples are carved. A chain is the list of
  its tuples; the field \<open>stringLength\<close> of a tuple is the length of its string.

  Sizes and alignments are those of a 64-bit ABI: \<open>sizeof(MemBlock)\<close> is 24,
  \<open>sizeof(Tuple)\<close> is 32 and the alignment of a tuple is 8.

  The interface \<open>interner\<close> states what users rely on: a known key keeps its number, a new
  key gets the next one. Its lemmas say that the numbers of a sequence of keys agree
  exactly where the keys agree; the diff compares numbers instead of words because of it.
\<close>

definition VALUE_MAX :: lin where
  "VALUE_MAX = 2 ^ 63 - 1"

definition MEMBLOCK_SIZE :: nat where
  "MEMBLOCK_SIZE = 32768"

definition SIZEOF_MEMBLOCK :: nat where
  "SIZEOF_MEMBLOCK = 24"

definition SIZEOF_TUPLE :: nat where
  "SIZEOF_TUPLE = 32"

definition ALIGNOF_TUPLE :: nat where
  "ALIGNOF_TUPLE = 8"

definition ROUNDUP :: "nat \<Rightarrow> nat \<Rightarrow> nat" where
  "ROUNDUP x to = ((x + (to - 1)) div to) * to"

record memblock =
  bsize :: nat
  bidx :: nat

record tuple =
  tvalue :: lin
  tstring :: "byte list"

definition HASHTABLE_SIZE :: nat where
  "HASHTABLE_SIZE = 8091"

record hashstate =
  hashtable :: "nat \<Rightarrow> tuple list"
  nextValue :: lin
  blocks :: "memblock list"

definition init_hash :: hashstate where
  "init_hash = \<lparr>hashtable = (\<lambda>_. []), nextValue = 0, blocks = []\<rparr>"

text \<open>The result of an allocation is the offset of the new tuple in the head block.\<close>

definition newBlock :: "nat \<Rightarrow> memblock" where
  "newBlock sz =
     \<lparr>bsize = (if sz > 2048 then sz + SIZEOF_MEMBLOCK else MEMBLOCK_SIZE),
      bidx = ROUNDUP SIZEOF_MEMBLOCK ALIGNOF_TUPLE\<rparr>"

definition allocFromBlock :: "nat \<Rightarrow> memblock list \<Rightarrow> nat \<times> memblock list" where
  "allocFromBlock size0 hd_blocks =
     (let sz = ROUNDUP size0 ALIGNOF_TUPLE;
          bs = (case hd_blocks of
                  [] \<Rightarrow> [newBlock sz]
                | b # _ \<Rightarrow> if sz > bsize b - bidx b then newBlock sz # hd_blocks
                          else hd_blocks)
      in (bidx (hd bs), (hd bs)\<lparr>bidx := bidx (hd bs) + sz\<rparr> # tl bs))"

fun hash_loop :: "byte list \<Rightarrow> 32 word \<Rightarrow> 32 word" where
  "hash_loop [] h = h"
| "hash_loop (b # bs) h = hash_loop bs (push_bit 5 h + h + ucast b)"

definition hash :: "byte list \<Rightarrow> 32 word" where
  "hash bs = hash_loop bs 5381"

text \<open>The search of a chain: the first tuple whose string is the word.\<close>

fun find_tuple :: "byte list \<Rightarrow> tuple list \<Rightarrow> tuple option" where
  "find_tuple s [] = None"
| "find_tuple s (t # ts) =
     (if length s = length (tstring t) \<and> s = tstring t then Some t else find_tuple s ts)"

definition bucket_of :: "byte list \<Rightarrow> nat" where
  "bucket_of s = unat (hash s) mod HASHTABLE_SIZE"

definition getValue :: "byte list \<Rightarrow> hashstate \<Rightarrow> (lin \<times> hashstate) res" where
  "getValue s st =
     (let h = bucket_of s
      in case find_tuple s (hashtable st h) of
           Some t \<Rightarrow> Inr (tvalue t, st)
         | None \<Rightarrow>
             if nextValue st = VALUE_MAX then Inl Panic
             else let (off, bs) = allocFromBlock (SIZEOF_TUPLE - 1 + length s) (blocks st);
                      t = \<lparr>tvalue = nextValue st, tstring = s\<rparr>
                  in Inr (tvalue t,
                          st\<lparr>hashtable := (hashtable st)(h := t # hashtable st h),
                             nextValue := nextValue st + 1,
                             blocks := bs\<rparr>))"

definition getHashMax :: "hashstate \<Rightarrow> lin \<times> hashstate" where
  "getHashMax st =
     (nextValue st, st\<lparr>hashtable := (\<lambda>_. []), blocks := [], nextValue := 0\<rparr>)"

text \<open>A sequence of calls that number the words of a list.\<close>

fun intern_all :: "('k \<Rightarrow> 's \<Rightarrow> (lin \<times> 's) res) \<Rightarrow> 'k list \<Rightarrow> 's \<Rightarrow> (lin list \<times> 's) res" where
  "intern_all get [] st = Inr ([], st)"
| "intern_all get (k # ks) st =
     bind_res (get k st) (\<lambda>(v, st1).
       bind_res (intern_all get ks st1) (\<lambda>(vs, st2). Inr (v # vs, st2)))"

section \<open>The contract of a numbering of keys\<close>

locale interner =
  fixes get :: "'k \<Rightarrow> 's \<Rightarrow> (lin \<times> 's) res"
    and lookup :: "'s \<Rightarrow> 'k \<Rightarrow> lin option"
    and count :: "'s \<Rightarrow> lin"
    and limit :: lin
    and invar :: "'s \<Rightarrow> bool"
  assumes known: "invar s \<Longrightarrow> lookup s k = Some v \<Longrightarrow> get k s = Inr (v, s)"
    and fresh: "invar s \<Longrightarrow> lookup s k = None \<Longrightarrow> count s < limit \<Longrightarrow>
      \<exists>s'. get k s = Inr (count s, s') \<and> invar s' \<and> count s' = count s + 1 \<and>
           lookup s' = (lookup s)(k \<mapsto> count s)"
    and bounded: "invar s \<Longrightarrow> lookup s k = Some v \<Longrightarrow> 0 \<le> v \<and> v < count s"
    and injective: "invar s \<Longrightarrow> lookup s k = Some v \<Longrightarrow> lookup s k' = Some v \<Longrightarrow> k = k'"
    and dense: "invar s \<Longrightarrow> count s = int (card (dom (lookup s))) \<and> finite (dom (lookup s))"
begin

text \<open>One call: the key is known afterwards under the number returned, and no number is lost.\<close>

lemma get_step:
  assumes "invar s" "count s < limit"
  shows "\<exists>v s'. get k s = Inr (v, s') \<and> invar s' \<and> lookup s' k = Some v \<and>
    count s' \<le> count s + 1 \<and> lookup s \<subseteq>\<^sub>m lookup s' \<and>
    dom (lookup s') = insert k (dom (lookup s))"
proof (cases "lookup s k")
  case None
  with fresh [OF assms(1) None assms(2)] show ?thesis
    by (fastforce simp: map_le_def)
next
  case (Some v)
  with known [OF assms(1) Some] assms(1) show ?thesis
    by (intro exI [of _ v] exI [of _ s]) auto
qed

lemma intern_all_ok:
  assumes "invar s" "count s + int (length ks) \<le> limit"
  shows "\<exists>vs s'. intern_all get ks s = Inr (vs, s') \<and> invar s' \<and>
    map Some vs = map (lookup s') ks \<and> lookup s \<subseteq>\<^sub>m lookup s' \<and>
    dom (lookup s') = set ks \<union> dom (lookup s)"
  using assms
proof (induction ks arbitrary: s)
  case Nil
  then show ?case by simp
next
  case (Cons k ks)
  from Cons.prems have "count s < limit" by simp
  from get_step [OF Cons.prems(1) this, of k] obtain v s1 where
    s1: "get k s = Inr (v, s1)" "invar s1" "lookup s1 k = Some v" "count s1 \<le> count s + 1"
      "lookup s \<subseteq>\<^sub>m lookup s1" "dom (lookup s1) = insert k (dom (lookup s))" by blast
  from Cons.IH [OF s1(2)] s1(4) Cons.prems(2) obtain vs s2 where
    s2: "intern_all get ks s1 = Inr (vs, s2)" "invar s2" "map Some vs = map (lookup s2) ks"
      "lookup s1 \<subseteq>\<^sub>m lookup s2" "dom (lookup s2) = set ks \<union> dom (lookup s1)" by auto
  from s2(4) s1(3) have "lookup s2 k = Some v"
    by (simp add: map_le_def dom_def)
  with s1 s2 show ?case
    by (auto intro: map_le_trans)
qed

text \<open>The numbers of a list of keys: equal exactly for equal keys, and dense from 0.\<close>

lemma intern_all_spec:
  assumes "invar s" "count s + int (length ks) \<le> limit" "dom (lookup s) = {}"
  shows "\<exists>vs s'. intern_all get ks s = Inr (vs, s') \<and> invar s' \<and> length vs = length ks \<and>
    (\<forall>i < length ks. \<forall>j < length ks. vs ! i = vs ! j \<longleftrightarrow> ks ! i = ks ! j) \<and>
    (\<forall>v \<in> set vs. 0 \<le> v \<and> v < count s') \<and> count s' = int (card (set ks))"
proof -
  from intern_all_ok [OF assms(1,2)] obtain vs s' where
    r: "intern_all get ks s = Inr (vs, s')" "invar s'" "map Some vs = map (lookup s') ks"
      "dom (lookup s') = set ks \<union> dom (lookup s)" by blast
  have len: "length vs = length ks" using r(3) map_eq_imp_length_eq by blast
  have at: "lookup s' (ks ! i) = Some (vs ! i)" if "i < length ks" for i
    using arg_cong [OF r(3), of "\<lambda>xs. xs ! i"] that len by simp
  have "vs ! i = vs ! j \<longleftrightarrow> ks ! i = ks ! j" if "i < length ks" "j < length ks" for i j
    using at [OF that(1)] at [OF that(2)] injective [OF r(2)] by (metis option.inject)
  moreover have "0 \<le> v \<and> v < count s'" if "v \<in> set vs" for v
    using that at bounded [OF r(2)] len by (metis in_set_conv_nth)
  ultimately show ?thesis
    using r len dense [OF r(2)] assms(3) by auto
qed

end

section \<open>The hash table satisfies the contract\<close>

definition lookup_word :: "hashstate \<Rightarrow> byte list \<Rightarrow> lin option" where
  "lookup_word st s = map_option tvalue (find_tuple s (hashtable st (bucket_of s)))"

definition hash_wf :: "hashstate \<Rightarrow> bool" where
  "hash_wf st \<longleftrightarrow>
     finite (dom (lookup_word st)) \<and> nextValue st = int (card (dom (lookup_word st))) \<and>
     (\<forall>s v. lookup_word st s = Some v \<longrightarrow> 0 \<le> v \<and> v < nextValue st) \<and>
     (\<forall>s s' v. lookup_word st s = Some v \<longrightarrow> lookup_word st s' = Some v \<longrightarrow> s = s')"

lemma find_tuple_Some: "find_tuple s ts = Some t \<Longrightarrow> tstring t = s"
  by (induction ts) (auto split: if_splits)

lemma lookup_word_init [simp]: "lookup_word init_hash = Map.empty"
  by (simp add: lookup_word_def init_hash_def fun_eq_iff)

lemma hash_wf_init: "hash_wf init_hash"
  by (simp add: hash_wf_def, simp add: init_hash_def)

lemma lookup_word_insert:
  "lookup_word (st\<lparr>hashtable := (hashtable st)(bucket_of s := \<lparr>tvalue = v, tstring = s\<rparr>
      # hashtable st (bucket_of s)), nextValue := n, blocks := bs\<rparr>)
   = (lookup_word st)(s \<mapsto> v)"
  by (auto simp: lookup_word_def fun_eq_iff)

lemma getValue_known:
  "lookup_word st s = Some v \<Longrightarrow> getValue s st = Inr (v, st)"
  by (auto simp: lookup_word_def getValue_def Let_def)

lemma getValue_fresh:
  assumes "hash_wf st" "lookup_word st s = None" "nextValue st < VALUE_MAX"
  shows "\<exists>st'. getValue s st = Inr (nextValue st, st') \<and> hash_wf st' \<and>
    nextValue st' = nextValue st + 1 \<and> lookup_word st' = (lookup_word st)(s \<mapsto> nextValue st)"
proof -
  let ?bs = "snd (allocFromBlock (SIZEOF_TUPLE - 1 + length s) (blocks st))"
  let ?st = "st\<lparr>hashtable := (hashtable st)(bucket_of s := \<lparr>tvalue = nextValue st, tstring = s\<rparr>
      # hashtable st (bucket_of s)), nextValue := nextValue st + 1, blocks := ?bs\<rparr>"
  have get: "getValue s st = Inr (nextValue st, ?st)"
    using assms(2,3)
    by (simp add: getValue_def lookup_word_def Let_def split_beta)
  have look: "lookup_word ?st = (lookup_word st)(s \<mapsto> nextValue st)"
    by (rule lookup_word_insert)
  have "hash_wf ?st"
    using assms(1,2) unfolding hash_wf_def look
    by (auto split: if_splits simp: domIff order_less_imp_le) fastforce+
  with get look show ?thesis by auto
qed

lemma hash_wf_bounded: "hash_wf st \<Longrightarrow> lookup_word st s = Some v \<Longrightarrow> 0 \<le> v \<and> v < nextValue st"
  and hash_wf_injective:
    "hash_wf st \<Longrightarrow> lookup_word st s = Some v \<Longrightarrow> lookup_word st s' = Some v \<Longrightarrow> s = s'"
  and hash_wf_dense:
    "hash_wf st \<Longrightarrow> nextValue st = int (card (dom (lookup_word st))) \<and> finite (dom (lookup_word st))"
  unfolding hash_wf_def by blast+

interpretation words: interner getValue lookup_word nextValue VALUE_MAX hash_wf
  by (unfold_locales; (rule getValue_known | rule getValue_fresh | rule hash_wf_bounded
      | rule hash_wf_injective | rule hash_wf_dense); assumption)

section \<open>Allocation of tuples\<close>

definition blocks_wf :: "memblock list \<Rightarrow> bool" where
  "blocks_wf bs \<longleftrightarrow>
     (\<forall>b \<in> set bs. SIZEOF_MEMBLOCK \<le> bidx b \<and> bidx b \<le> bsize b \<and> ALIGNOF_TUPLE dvd bidx b)"

lemma ROUNDUP_ge:
  assumes "0 < to"
  shows "x \<le> ROUNDUP x to"
proof -
  have "(x + (to - 1)) mod to < to"
    using assms by simp
  moreover have "ROUNDUP x to + (x + (to - 1)) mod to = x + (to - 1)"
    unfolding ROUNDUP_def by (rule div_mult_mod_eq)
  ultimately show ?thesis by linarith
qed

lemma ROUNDUP_dvd: "to dvd ROUNDUP x to"
  by (simp add: ROUNDUP_def)

lemma newBlock_room:
  "SIZEOF_MEMBLOCK \<le> bidx (newBlock n) \<and> bidx (newBlock n) + n \<le> bsize (newBlock n)"
  by (simp add: newBlock_def MEMBLOCK_SIZE_def SIZEOF_MEMBLOCK_def ALIGNOF_TUPLE_def ROUNDUP_def)

lemma newBlock_aligned: "ALIGNOF_TUPLE dvd bidx (newBlock n)"
  by (simp add: newBlock_def ROUNDUP_dvd)

text \<open>The head block after the test for room: enough space and aligned.\<close>

lemma alloc_head:
  assumes "blocks_wf bs" "allocFromBlock n bs = (off, bs')"
  shows "\<exists>b rest. bs' = b\<lparr>bidx := off + ROUNDUP n ALIGNOF_TUPLE\<rparr> # rest \<and> off = bidx b \<and>
    SIZEOF_MEMBLOCK \<le> off \<and> off + ROUNDUP n ALIGNOF_TUPLE \<le> bsize b \<and>
    ALIGNOF_TUPLE dvd off \<and> set rest \<subseteq> set bs \<and> (rest \<noteq> bs \<longrightarrow> b # rest = bs)"
proof (cases "bs = [] \<or> ROUNDUP n ALIGNOF_TUPLE > bsize (hd bs) - bidx (hd bs)")
  case True
  let ?b = "newBlock (ROUNDUP n ALIGNOF_TUPLE)"
  from True assms(2) have "off = bidx ?b"
      "bs' = ?b\<lparr>bidx := bidx ?b + ROUNDUP n ALIGNOF_TUPLE\<rparr> # bs"
    by (auto simp: allocFromBlock_def Let_def split: list.splits)
  with newBlock_room newBlock_aligned show ?thesis by auto
next
  case False
  then obtain b rest where bs: "bs = b # rest" by (cases bs) auto
  with False assms(2) have off: "off = bidx b"
      "bs' = b\<lparr>bidx := bidx b + ROUNDUP n ALIGNOF_TUPLE\<rparr> # rest"
    by (auto simp: allocFromBlock_def Let_def)
  from False assms(1) bs have "SIZEOF_MEMBLOCK \<le> bidx b" "ALIGNOF_TUPLE dvd bidx b"
      "bidx b + ROUNDUP n ALIGNOF_TUPLE \<le> bsize b"
    by (auto simp: blocks_wf_def)
  with off bs show ?thesis by auto
qed

text \<open>
  C14: an allocation of \<open>n\<close> bytes returns an offset of the head block that is aligned for a
  tuple, lies after the block's header and leaves \<open>n\<close> bytes inside the block; it starts
  where the used part of that block ended, so it overlaps no earlier tuple; the used part
  of every block stays within the block.
\<close>

theorem allocFromBlock_safe:
  assumes "blocks_wf bs" "allocFromBlock n bs = (off, bs')"
  shows "blocks_wf bs' \<and> bs' \<noteq> [] \<and> ALIGNOF_TUPLE dvd off \<and> SIZEOF_MEMBLOCK \<le> off \<and>
    off + n \<le> bidx (hd bs') \<and> bidx (hd bs') \<le> bsize (hd bs') \<and>
    (length bs' = length bs \<longrightarrow> off = bidx (hd bs))"
proof -
  from alloc_head [OF assms] obtain b rest where
    b: "bs' = b\<lparr>bidx := off + ROUNDUP n ALIGNOF_TUPLE\<rparr> # rest" "off = bidx b"
      "SIZEOF_MEMBLOCK \<le> off" "off + ROUNDUP n ALIGNOF_TUPLE \<le> bsize b"
      "ALIGNOF_TUPLE dvd off" "set rest \<subseteq> set bs" "rest \<noteq> bs \<longrightarrow> b # rest = bs" by blast
  have n: "n \<le> ROUNDUP n ALIGNOF_TUPLE"
    by (rule ROUNDUP_ge) (simp add: ALIGNOF_TUPLE_def)
  have "ALIGNOF_TUPLE dvd off + ROUNDUP n ALIGNOF_TUPLE"
    using b(5) ROUNDUP_dvd by (rule dvd_add)
  with b n assms(1) have "blocks_wf bs'"
    by (auto simp: blocks_wf_def)
  moreover have "length bs' = length bs \<longrightarrow> off = bidx (hd bs)"
    using b(1,2,7) by auto
  ultimately show ?thesis
    using b n by simp
qed

theorem allocFromBlock_safe_witness:
  "blocks_wf [] \<and> allocFromBlock 34 [] = (24, [\<lparr>bsize = 32768, bidx = 64\<rparr>]) \<and>
   blocks_wf [\<lparr>bsize = 32768, bidx = 64\<rparr>]"
proof -
  have w: "blocks_wf []" by (simp add: blocks_wf_def)
  have a: "allocFromBlock 34 [] = (24, [\<lparr>bsize = 32768, bidx = 64\<rparr>])"
    by (simp add: allocFromBlock_def newBlock_def MEMBLOCK_SIZE_def SIZEOF_MEMBLOCK_def
        ALIGNOF_TUPLE_def ROUNDUP_def)
  show ?thesis using w a allocFromBlock_safe [OF w a] by simp
qed

section \<open>Numbers of words\<close>

text \<open>
  C13: numbering the words of a file pair with a fresh table never panics (below the
  number of values of the type) and gives two positions the same number exactly when they
  hold the same word, whatever the hash function does; the numbers are those below the
  value that \<open>getHashMax\<close> reports, which is the number of distinct words, and the table is
  empty again after \<open>getHashMax\<close>.
\<close>

theorem word_numbers:
  assumes "int (length ws) \<le> VALUE_MAX"
  shows "\<exists>vs st. intern_all getValue ws init_hash = Inr (vs, st) \<and> length vs = length ws \<and>
    (\<forall>i < length ws. \<forall>j < length ws. vs ! i = vs ! j \<longleftrightarrow> ws ! i = ws ! j) \<and>
    (\<forall>v \<in> set vs. 0 \<le> v \<and> v < fst (getHashMax st)) \<and>
    fst (getHashMax st) = int (card (set ws)) \<and> snd (getHashMax st) = init_hash"
proof -
  have "nextValue init_hash + int (length ws) \<le> VALUE_MAX" "dom (lookup_word init_hash) = {}"
    using assms by (simp_all, simp add: init_hash_def)
  from words.intern_all_spec [OF hash_wf_init this] show ?thesis
    by (auto simp: getHashMax_def init_hash_def)
qed

theorem word_numbers_witness:
  "\<exists>vs st. intern_all getValue [[97], [98], [97]] init_hash = Inr (vs, st) \<and>
     vs ! 0 = vs ! 2 \<and> vs ! 0 \<noteq> vs ! 1 \<and> fst (getHashMax st) = 2"
proof -
  let ?ws = "[[97], [98], [97]] :: byte list list"
  have "int (length ?ws) \<le> VALUE_MAX" by (simp add: VALUE_MAX_def)
  from word_numbers [OF this] obtain vs st where
    r: "intern_all getValue ?ws init_hash = Inr (vs, st)"
      "\<forall>i < length ?ws. \<forall>j < length ?ws. vs ! i = vs ! j \<longleftrightarrow> ?ws ! i = ?ws ! j"
      "fst (getHashMax st) = int (card (set ?ws))" by blast
  have "set ?ws = {[97], [98]}" by auto
  then have "card (set ?ws) = 2" by simp
  with r(2) [rule_format, of 0 2] r(2) [rule_format, of 0 1] r(3)
  show ?thesis using r(1) by auto
qed

end
