(* ===== verification/Output.thy ===== *)
theory Output
  imports Buffer Hashtable
begin

text \<open>
  Printing the words and the white space of the two files: the functions of doDiff.c up to
  \<open>loadNextWhitespace\<close>. The temporary files hold the words, and the white space before each
  word; a piece ends with a zero byte, and the bytes 0 and 1 are preceded by 1.

  The loops that read a stream are values of type \<open>run\<close>; a stream read by a loop is an argument
  and a result of it, and is put back in its file by the caller.
\<close>

record outstate = bufstate +
  oldLineNumber :: "32 word"
  newLineNumber :: "32 word"
  lastWasLinefeed :: bool
  lastWasDelete :: bool
  lastWasCarriageReturn :: bool
  charData :: CharData

record diffstate = outstate +
  oldFile :: InputFile
  newFile :: InputFile
  statistics :: Statistics
  differences :: int
  hash_table :: hashstate
  baseHashMax :: lin

definition resetColor :: "byte list" where
  "resetColor = [27, 91, 48, 109]"

definition eraseLine :: "byte list" where
  "eraseLine = [27, 91, 75]"

section \<open>Characters\<close>

definition charDataEquals :: "env \<Rightarrow> int \<Rightarrow> 'a outstate_scheme \<Rightarrow> bool" where
  "charDataEquals e c s =
     (if UTF8Mode e then (case vdata (original (charData s)) of [] \<Rightarrow> False | u # _ \<Rightarrow> uint u = c)
      else singleChar (charData s) = c)"

definition readNextChar :: "env \<Rightarrow> Stream \<Rightarrow> 'a outstate_scheme \<Rightarrow> (bool \<times> Stream \<times> 'a outstate_scheme) run" where
  "readNextChar e strm s =
     (if UTF8Mode e then
        bind_run (getBackspaceCluster (gcb_class e) strm (original (charData s)))
          (\<lambda>(ok, buf, strm'). Some (Inr (ok, strm', s\<lparr>charData := (charData s)\<lparr>original := buf\<rparr>\<rparr>)))
      else
        bind_run (Some (getChar strm))
          (\<lambda>(c, strm'). Some (Inr (c \<noteq> EOF, strm', s\<lparr>charData := (charData s)\<lparr>singleChar := c\<rparr>\<rparr>))))"

definition addchars :: "option_t \<Rightarrow> byte list \<Rightarrow> bool \<Rightarrow> 'a bufstate_scheme \<Rightarrow> 'a bufstate_scheme" where
  "addchars opt bs common s = foldl (\<lambda>s b. addchar opt b common s) s bs"

fun add_units :: "option_t \<Rightarrow> bool \<Rightarrow> int \<Rightarrow> UChar list \<Rightarrow> 'a bufstate_scheme \<Rightarrow> 'a bufstate_scheme res" where
  "add_units opt common high [] s = Inr s"
| "add_units opt common high (u # us) s =
     bind_res (filteredConvertToUTF8 (uint u) high) (\<lambda>(bs, high').
       add_units opt common high' us (addchars opt bs common s))"

definition addCharData :: "env \<Rightarrow> option_t \<Rightarrow> bool \<Rightarrow> 'a outstate_scheme \<Rightarrow> 'a outstate_scheme res" where
  "addCharData e opt common s =
     (if UTF8Mode e then add_units opt common 0 (vdata (original (charData s))) s
      else Inr (addchar opt (word_of_int (singleChar (charData s))) common s))"

section \<open>Modes and markers\<close>

datatype Mode = ADD | DEL | COMMON | OLD_COMMON

text \<open>\<open>mode & COMMON\<close>, \<open>mode + COMMON\<close>, and the conversion of a mode to \<open>bool\<close>.\<close>

definition is_common :: "Mode \<Rightarrow> bool" where
  "is_common m \<longleftrightarrow> m = COMMON \<or> m = OLD_COMMON"

definition plus_common :: "Mode \<Rightarrow> Mode" where
  "plus_common m = (case m of ADD \<Rightarrow> COMMON | DEL \<Rightarrow> OLD_COMMON | _ \<Rightarrow> m)"

definition mode_as_bool :: "Mode \<Rightarrow> bool" where
  "mode_as_bool m \<longleftrightarrow> m \<noteq> ADD"

definition write_color :: "option_t \<Rightarrow> Mode \<Rightarrow> 'a bufstate_scheme \<Rightarrow> 'a bufstate_scheme" where
  "write_color opt mode s =
     (if mode = ADD then writeString opt (at_pointer (addColor opt)) (addColorLen opt) s
      else writeString opt (at_pointer (delColor opt)) (delColorLen opt) s)"

definition write_start :: "option_t \<Rightarrow> Mode \<Rightarrow> 'a bufstate_scheme \<Rightarrow> 'a bufstate_scheme" where
  "write_start opt mode s =
     (if mode = ADD then writeString opt (at_pointer (addStart opt)) (addStartLen opt) s
      else writeString opt (at_pointer (delStart opt)) (delStartLen opt) s)"

definition write_stop :: "option_t \<Rightarrow> Mode \<Rightarrow> 'a bufstate_scheme \<Rightarrow> 'a bufstate_scheme" where
  "write_stop opt mode s =
     (if mode = ADD then writeString opt (at_pointer (addStop opt)) (addStopLen opt) s
      else writeString opt (at_pointer (delStop opt)) (delStopLen opt) s)"

definition doPostLinefeed :: "option_t \<Rightarrow> Mode \<Rightarrow> 'a outstate_scheme \<Rightarrow> 'a outstate_scheme" where
  "doPostLinefeed opt mode0 s =
     (if lastWasLinefeed s then
        let mode = (if is_common mode0 then COMMON else mode0);
            s1 = s\<lparr>lastWasLinefeed := False\<rparr>;
            s2 = (if lineNumbers opt \<noteq> 0 then
                    let s' = (if colorMode opt \<and> mode \<noteq> COMMON
                              then writeString opt resetColor (length resetColor) s1 else s1)
                    in printLineNumbers opt (oldLineNumber s') (newLineNumber s') s'
                  else s1)
        in if needStartStop opt \<and> mode \<noteq> COMMON then
             let s3 = (if colorMode opt then write_color opt mode s2 else s2)
             in if repeatMarkers opt then write_start opt mode s3 else s3
           else s2
      else s)"

text \<open>The end of the line inside changed text: the stop marker, and the rest of the line erased.\<close>

definition at_line_end :: "env \<Rightarrow> 'a outstate_scheme \<Rightarrow> bool" where
  "at_line_end e s \<longleftrightarrow>
     charDataEquals e 13 s \<or> \<not> lastWasCarriageReturn s \<and> charDataEquals e 10 s"

definition line_end_markers :: "option_t \<Rightarrow> Mode \<Rightarrow> 'a bufstate_scheme \<Rightarrow> 'a bufstate_scheme" where
  "line_end_markers opt mode s =
     (let s1 = (if repeatMarkers opt then write_stop opt mode s else s)
      in if colorMode opt then writeString opt eraseLine (length eraseLine) s1 else s1)"

definition after_char :: "env \<Rightarrow> 'a outstate_scheme \<Rightarrow> 'a outstate_scheme" where
  "after_char e s =
     (let s1 = (if charDataEquals e 10 s then s\<lparr>lastWasLinefeed := True\<rparr> else s)
      in s1\<lparr>lastWasCarriageReturn := charDataEquals e 13 s1\<rparr>)"

section \<open>White space\<close>

definition count_ws_line :: "Mode \<Rightarrow> 'a outstate_scheme \<Rightarrow> 'a outstate_scheme" where
  "count_ws_line mode s =
     (if mode = COMMON \<or> mode = ADD then s\<lparr>newLineNumber := newLineNumber s + 1\<rparr>
      else s\<lparr>oldLineNumber := oldLineNumber s + 1\<rparr>)"

definition handleWhitespaceChar :: "env \<Rightarrow> option_t \<Rightarrow> bool \<Rightarrow> Mode \<Rightarrow> 'a outstate_scheme \<Rightarrow> 'a outstate_scheme res" where
  "handleWhitespaceChar e opt print mode s0 =
     bind_res
       (if print then
          let s = doPostLinefeed opt mode s0;
              s1 = (if less_mode opt \<and> \<not> charDataEquals e 10 s \<and> \<not> charDataEquals e 13 s \<and> mode = DEL
                    then addchar opt 8 (is_common mode) (addchar opt 95 (is_common mode) s)
                    else if needStartStop opt \<and> \<not> is_common mode \<and> at_line_end e s
                    then line_end_markers opt mode s
                    else s)
          in bind_res (addCharData e opt (is_common mode) s1) (\<lambda>s2. Inr (after_char e s2))
        else Inr s0)
       (\<lambda>s. Inr (if charDataEquals e 10 s then count_ws_line mode s else s))"

text \<open>The character after the escape mark.\<close>

definition unescape :: "env \<Rightarrow> Stream \<Rightarrow> 'a outstate_scheme \<Rightarrow> (Stream \<times> 'a outstate_scheme) run" where
  "unescape e strm s =
     (if charDataEquals e 1 s then
        bind_run (readNextChar e strm s) (\<lambda>(ok, strm', s').
          if ok then Some (Inr (strm', s')) else Some (Inl (Fatal ''Error reading back input'')))
      else Some (Inr (strm, s)))"

partial_function (option) ws_string_loop :: "env \<Rightarrow> option_t \<Rightarrow> bool \<Rightarrow> Mode \<Rightarrow> Stream \<Rightarrow> 'a outstate_scheme \<Rightarrow>
    'a outstate_scheme run" where
  "ws_string_loop e opt print mode strm s =
     bind_run (readNextChar e strm s) (\<lambda>(ok, strm1, s1).
       if ok then bind_run (Some (handleWhitespaceChar e opt print mode s1)) (\<lambda>s2.
                    ws_string_loop e opt print mode strm1 s2)
       else Some (Inr s1))"

partial_function (option) ws_file_loop :: "env \<Rightarrow> option_t \<Rightarrow> bool \<Rightarrow> Mode \<Rightarrow> Stream \<Rightarrow> 'a outstate_scheme \<Rightarrow>
    (Stream \<times> 'a outstate_scheme) run" where
  "ws_file_loop e opt print mode strm s =
     bind_run (readNextChar e strm s) (\<lambda>(ok, strm1, s1).
       if \<not> ok \<or> charDataEquals e 0 s1 then Some (Inr (strm1, s1))
       else bind_run (unescape e strm1 s1) (\<lambda>(strm2, s2).
              bind_run (Some (handleWhitespaceChar e opt print mode s2)) (\<lambda>s3.
                ws_file_loop e opt print mode strm2 s3)))"

text \<open>The two files as the \<open>InputFile\<close> arguments.\<close>

datatype side = Old | New

definition get_file :: "side \<Rightarrow> 'a diffstate_scheme \<Rightarrow> InputFile" where
  "get_file f s = (case f of Old \<Rightarrow> oldFile s | New \<Rightarrow> newFile s)"

definition set_file :: "side \<Rightarrow> InputFile \<Rightarrow> 'a diffstate_scheme \<Rightarrow> 'a diffstate_scheme" where
  "set_file f x s = (case f of Old \<Rightarrow> s\<lparr>oldFile := x\<rparr> | New \<Rightarrow> s\<lparr>newFile := x\<rparr>)"

definition handleNextWhitespace :: "env \<Rightarrow> option_t \<Rightarrow> side \<Rightarrow> bool \<Rightarrow> Mode \<Rightarrow> 'a diffstate_scheme \<Rightarrow>
    'a diffstate_scheme run" where
  "handleNextWhitespace e opt f print mode s =
     (if whitespaceBufferUsed (get_file f s) then
        bind_run (ws_string_loop e opt print mode (newStringStream (vdata (iwhitespaceBuffer (get_file f s)))) s)
          (\<lambda>s1. let x = get_file f s1
                 in Some (Inr (set_file f (x\<lparr>iwhitespaceBuffer := vector_clear (iwhitespaceBuffer x),
                      whitespaceBufferUsed := False\<rparr>) s1)))
      else
        bind_run (ws_file_loop e opt print mode (iwhitespace (get_file f s)) s)
          (\<lambda>(strm, s1). Some (Inr (set_file f ((get_file f s1)\<lparr>iwhitespace := strm\<rparr>) s1))))"

section \<open>White space of both files at once\<close>

definition count_line :: "bool \<Rightarrow> 'a outstate_scheme \<Rightarrow> 'a outstate_scheme" where
  "count_line new s =
     (if new then s\<lparr>newLineNumber := newLineNumber s + 1\<rparr> else s\<lparr>oldLineNumber := oldLineNumber s + 1\<rparr>)"

text \<open>The loop that looks for the next newline of the B file; the first result is \<open>result\<close>.\<close>

partial_function (option) sync_b :: "env \<Rightarrow> bool \<Rightarrow> Stream \<Rightarrow> 'a outstate_scheme \<Rightarrow>
    (bool \<times> Stream \<times> 'a outstate_scheme) run" where
  "sync_b e printNew strm s =
     bind_run (readNextChar e strm s) (\<lambda>(ok, strm1, s1).
       if \<not> ok \<or> charDataEquals e 0 s1 then Some (Inr (ok, strm1, s1))
       else bind_run (unescape e strm1 s1) (\<lambda>(strm2, s2).
              if charDataEquals e 10 s2 then Some (Inr (True, strm2, count_line (\<not> printNew) s2))
              else sync_b e printNew strm2 s2))"

text \<open>The loop over the A file.\<close>

partial_function (option) sync_a :: "env \<Rightarrow> option_t \<Rightarrow> bool \<Rightarrow> bool \<Rightarrow> Stream \<Rightarrow> Stream \<Rightarrow> 'a outstate_scheme \<Rightarrow>
    (bool \<times> Stream \<times> Stream \<times> 'a outstate_scheme) run" where
  "sync_a e opt printNew BValid strmA strmB s =
     bind_run (readNextChar e strmA s) (\<lambda>(ok, strmA1, s1).
       if \<not> ok \<or> charDataEquals e 0 s1 then Some (Inr (BValid, strmA1, strmB, s1))
       else bind_run (unescape e strmA1 s1) (\<lambda>(strmA2, s2).
              bind_run
                (if printCommon opt
                 then Some (bind_res (addCharData e opt True (doPostLinefeed opt COMMON s2)) (\<lambda>s'. Inr (after_char e s')))
                 else Some (Inr s2))
                (\<lambda>s3. if charDataEquals e 10 s3 then
                         let s4 = count_line printNew s3
                         in if BValid then
                              bind_run (sync_b e printNew strmB s4) (\<lambda>(result, strmB1, s5).
                                sync_a e opt printNew (\<not> (charDataEquals e 0 s5 \<or> \<not> result)) strmA2 strmB1 s5)
                            else sync_a e opt printNew BValid strmA2 strmB s4
                       else sync_a e opt printNew BValid strmA2 strmB s3)))"

text \<open>The loop over what remains of the B file.\<close>

partial_function (option) sync_rest :: "env \<Rightarrow> bool \<Rightarrow> Stream \<Rightarrow> 'a outstate_scheme \<Rightarrow>
    (Stream \<times> 'a outstate_scheme) run" where
  "sync_rest e printNew strm s =
     bind_run (readNextChar e strm s) (\<lambda>(ok, strm1, s1).
       if \<not> ok \<or> charDataEquals e 0 s1 then Some (Inr (strm1, s1))
       else bind_run (unescape e strm1 s1) (\<lambda>(strm2, s2).
              sync_rest e printNew strm2 (if charDataEquals e 10 s2 then count_line (\<not> printNew) s2 else s2)))"

definition ws_stream :: "InputFile \<Rightarrow> Stream" where
  "ws_stream x =
     (if whitespaceBufferUsed x then newStringStream (vdata (iwhitespaceBuffer x)) else iwhitespace x)"

definition put_ws_stream :: "side \<Rightarrow> Stream \<Rightarrow> 'a diffstate_scheme \<Rightarrow> 'a diffstate_scheme" where
  "put_ws_stream f strm s =
     (let x = get_file f s
      in if whitespaceBufferUsed x then s else set_file f (x\<lparr>iwhitespace := strm\<rparr>) s)"

definition handleSynchronizedNextWhitespace :: "env \<Rightarrow> option_t \<Rightarrow> bool \<Rightarrow> 'a diffstate_scheme \<Rightarrow>
    'a diffstate_scheme run" where
  "handleSynchronizedNextWhitespace e opt printNew s =
     (let (A, B) = (if printNew then (New, Old) else (Old, New))
      in bind_run (sync_a e opt printNew True (ws_stream (get_file A s)) (ws_stream (get_file B s)) s)
           (\<lambda>(BValid, strmA, strmB, s1).
              bind_run (if BValid then sync_rest e printNew strmB s1 else Some (Inr (strmB, s1)))
                (\<lambda>(strmB1, s2). Some (Inr (put_ws_stream B strmB1 (put_ws_stream A strmA s2))))))"

section \<open>Words\<close>

definition addTokenChar :: "env \<Rightarrow> option_t \<Rightarrow> Mode \<Rightarrow> 'a outstate_scheme \<Rightarrow> 'a outstate_scheme res" where
  "addTokenChar e opt mode s =
     bind_res
       (if (printer opt \<or> less_mode opt) \<and> \<not> charDataEquals e 10 s \<and> \<not> charDataEquals e 13 s then
          if mode = DEL then Inr (addchar opt 8 (is_common mode) (addchar opt 95 (is_common mode) s))
          else if mode = ADD then
            bind_res (addCharData e opt (is_common mode) s) (\<lambda>s'. Inr (addchar opt 8 (is_common mode) s'))
          else Inr s
        else Inr s)
       (\<lambda>s'. addCharData e opt (is_common mode) s')"

text \<open>The loop that prints the paragraph marker.\<close>

partial_function (option) para_loop :: "env \<Rightarrow> option_t \<Rightarrow> Mode \<Rightarrow> Stream \<Rightarrow> 'a outstate_scheme \<Rightarrow>
    'a outstate_scheme run" where
  "para_loop e opt mode strm s =
     bind_run (readNextChar e strm s) (\<lambda>(ok, strm1, s1).
       if ok then
         bind_run (Some (addCharData e opt (mode_as_bool mode) (doPostLinefeed opt mode s1))) (\<lambda>s2.
           para_loop e opt mode strm1 s2)
       else Some (Inr s1))"

definition count_token_line :: "Mode \<Rightarrow> 'a outstate_scheme \<Rightarrow> 'a outstate_scheme" where
  "count_token_line mode s =
     (case mode of
        COMMON \<Rightarrow> s\<lparr>oldLineNumber := oldLineNumber s + 1, newLineNumber := newLineNumber s + 1\<rparr>
      | ADD \<Rightarrow> s\<lparr>newLineNumber := newLineNumber s + 1\<rparr>
      | DEL \<Rightarrow> s\<lparr>oldLineNumber := oldLineNumber s + 1\<rparr>
      | OLD_COMMON \<Rightarrow> s)"

definition print_token_char :: "env \<Rightarrow> option_t \<Rightarrow> Mode \<Rightarrow> 'a outstate_scheme \<Rightarrow> 'a outstate_scheme res" where
  "print_token_char e opt mode s =
     (let s1 = doPostLinefeed opt mode s;
          s2 = (if needStartStop opt \<and> \<not> is_common mode \<and> at_line_end e s1
                then line_end_markers opt mode s1 else s1)
      in bind_res (addTokenChar e opt mode s2) (\<lambda>s3. Inr (after_char e s3)))"

partial_function (option) token_loop :: "env \<Rightarrow> option_t \<Rightarrow> bool \<Rightarrow> Mode \<Rightarrow> bool \<Rightarrow> Stream \<Rightarrow> 'a outstate_scheme \<Rightarrow>
    (Stream \<times> 'a outstate_scheme) run" where
  "token_loop e opt print mode isEmpty strm s =
     bind_run (readNextChar e strm s) (\<lambda>(ok, strm1, s1).
       if \<not> ok then Some (Inr (strm1, s1))
       else if charDataEquals e 0 s1 then
         if paraDelim opt \<and> print \<and> isEmpty \<and> mode \<noteq> COMMON then
           bind_run (para_loop e opt mode
               (newStringStream (take (paraDelimMarkerLength opt) (paraDelimMarker opt))) s1)
             (\<lambda>s2. Some (Inr (strm1, s2)))
         else Some (Inr (strm1, s1))
       else bind_run (unescape e strm1 s1) (\<lambda>(strm2, s2).
              bind_run (Some (if print then print_token_char e opt mode s2 else Inr s2)) (\<lambda>s3.
                token_loop e opt print mode False strm2
                  (if charDataEquals e 10 s3 then count_token_line mode s3 else s3))))"

definition handleNextToken :: "env \<Rightarrow> option_t \<Rightarrow> side \<Rightarrow> bool \<Rightarrow> Mode \<Rightarrow> 'a diffstate_scheme \<Rightarrow>
    'a diffstate_scheme run" where
  "handleNextToken e opt f print mode s =
     bind_run (token_loop e opt print mode True (itokens (get_file f s)) s)
       (\<lambda>(strm, s1). Some (Inr (set_file f ((get_file f s1)\<lparr>itokens := strm\<rparr>) s1)))"

definition advance :: "side \<Rightarrow> 'a diffstate_scheme \<Rightarrow> 'a diffstate_scheme" where
  "advance f s = set_file f ((get_file f s)\<lparr>lastPrinted := lastPrinted (get_file f s) + 1\<rparr>) s"

text \<open>The loop runs once for every word between \<open>lastPrinted\<close> and the index.\<close>

fun word_loop :: "env \<Rightarrow> option_t \<Rightarrow> side \<Rightarrow> bool \<Rightarrow> Mode \<Rightarrow> nat \<Rightarrow> 'a diffstate_scheme \<Rightarrow> 'a diffstate_scheme run" where
  "word_loop e opt f print mode 0 s = Some (Inr s)"
| "word_loop e opt f print mode (Suc n) s =
     bind_run (handleNextWhitespace e opt f print mode s) (\<lambda>s1.
       bind_run (handleNextToken e opt f print mode s1) (\<lambda>s2.
         word_loop e opt f print mode n (advance f s2)))"

definition handleWord :: "env \<Rightarrow> option_t \<Rightarrow> side \<Rightarrow> int \<Rightarrow> bool \<Rightarrow> Mode \<Rightarrow> 'a diffstate_scheme \<Rightarrow>
    'a diffstate_scheme run" where
  "handleWord e opt f idx print mode s =
     word_loop e opt f print mode (nat (idx - lastPrinted (get_file f s))) s"

definition common_word :: "env \<Rightarrow> option_t \<Rightarrow> 'a diffstate_scheme \<Rightarrow> 'a diffstate_scheme run" where
  "common_word e opt s =
     bind_run (handleSynchronizedNextWhitespace e opt (\<not> lastWasDelete s) s) (\<lambda>s1.
       bind_run (handleNextToken e opt New (printCommon opt) COMMON (s1\<lparr>lastWasDelete := False\<rparr>)) (\<lambda>s2.
         handleNextToken e opt Old False OLD_COMMON s2))"

fun common_loop :: "env \<Rightarrow> option_t \<Rightarrow> nat \<Rightarrow> 'a diffstate_scheme \<Rightarrow> 'a diffstate_scheme run" where
  "common_loop e opt 0 s = Some (Inr s)"
| "common_loop e opt (Suc n) s =
     bind_run (common_word e opt s) (\<lambda>s1. common_loop e opt n (advance Old (advance New s1)))"

definition printToCommonWord :: "env \<Rightarrow> option_t \<Rightarrow> int \<Rightarrow> 'a diffstate_scheme \<Rightarrow> 'a diffstate_scheme run" where
  "printToCommonWord e opt idx s = common_loop e opt (nat (idx - lastPrinted (newFile s))) s"

definition printWords :: "env \<Rightarrow> option_t \<Rightarrow> lin \<Rightarrow> lin \<Rightarrow> side \<Rightarrow> bool \<Rightarrow> Mode \<Rightarrow> 'a diffstate_scheme \<Rightarrow>
    'a diffstate_scheme run" where
  "printWords e opt start count f print mode s =
     (if lastPrinted (get_file f s) \<noteq> start then Some (Inl Panic)
      else bind_run (handleNextWhitespace e opt f print (plus_common mode) s) (\<lambda>s1.
             let s2 = (if print then doPostLinefeed opt COMMON s1 else s1);
                 s3 = (if print \<and> needStartStop opt
                       then write_start opt mode (if colorMode opt then write_color opt mode s2 else s2)
                       else s2)
             in bind_run (handleNextToken e opt f print mode s3) (\<lambda>s4.
                  bind_run (handleWord e opt f (start + count) print mode (advance f s4)) (\<lambda>s5.
                    let s6 = (if print then doPostLinefeed opt mode s5 else s5)
                    in Some (Inr
                        (if print \<and> needStartStop opt
                         then let s7 = write_stop opt mode s6
                              in if colorMode opt then writeString opt resetColor (length resetColor) s7 else s7
                         else s6))))))"

text \<open>The loop of \<open>printEnd\<close>: until the end of the words of the new file has been read.\<close>

definition at_eof :: "Stream \<Rightarrow> bool" where
  "at_eof strm = (case sdata strm of FileData f \<Rightarrow> fileEof f | StringData _ _ \<Rightarrow> True)"

partial_function (option) end_loop :: "env \<Rightarrow> option_t \<Rightarrow> 'a diffstate_scheme \<Rightarrow> 'a diffstate_scheme run" where
  "end_loop e opt s =
     (if at_eof (itokens (newFile s)) then Some (Inr s)
      else bind_run (handleSynchronizedNextWhitespace e opt (\<not> lastWasDelete s) s) (\<lambda>s1.
             bind_run (handleNextToken e opt New True COMMON (s1\<lparr>lastWasDelete := False\<rparr>)) (\<lambda>s2.
               bind_run (handleNextToken e opt Old False OLD_COMMON s2) (\<lambda>s3. end_loop e opt s3))))"

definition printEnd :: "env \<Rightarrow> option_t \<Rightarrow> 'a diffstate_scheme \<Rightarrow> 'a diffstate_scheme run" where
  "printEnd e opt s = (if printCommon opt then end_loop e opt s else Some (Inr s))"

section \<open>Loading white space\<close>

fun append_units :: "int \<Rightarrow> UChar list \<Rightarrow> CharBuffer \<Rightarrow> CharBuffer res" where
  "append_units high [] b = Inr b"
| "append_units high (u # us) b =
     bind_res (filteredConvertToUTF8 (uint u) high) (\<lambda>(bs, high').
       append_units high' us (foldl VECTOR_APPEND b bs))"

partial_function (option) load_loop :: "env \<Rightarrow> bool \<Rightarrow> Stream \<Rightarrow> CharBuffer \<Rightarrow> 'a outstate_scheme \<Rightarrow>
    (bool \<times> Stream \<times> CharBuffer \<times> 'a outstate_scheme) run" where
  "load_loop e newlineFound strm b s =
     bind_run (readNextChar e strm s) (\<lambda>(ok, strm1, s1).
       if \<not> ok \<or> charDataEquals e 0 s1 then Some (Inr (newlineFound, strm1, b, s1))
       else bind_run (unescape e strm1 s1) (\<lambda>(strm2, s2).
              bind_run (Some (if UTF8Mode e then append_units 0 (vdata (original (charData s2))) b
                              else Inr (VECTOR_APPEND b (word_of_int (singleChar (charData s2))))))
                (\<lambda>b'. load_loop e (newlineFound \<or> charDataEquals e 10 s2) strm2 b' s2)))"

definition loadNextWhitespace :: "env \<Rightarrow> side \<Rightarrow> 'a diffstate_scheme \<Rightarrow> (bool \<times> 'a diffstate_scheme) run" where
  "loadNextWhitespace e f s =
     bind_run (load_loop e False (iwhitespace (get_file f s)) (vector_clear (iwhitespaceBuffer (get_file f s))) s)
       (\<lambda>(newlineFound, strm, b, s1).
          Some (Inr (newlineFound,
            set_file f ((get_file f s1)\<lparr>iwhitespace := strm, iwhitespaceBuffer := b, whitespaceBufferUsed := True\<rparr>) s1)))"

end
