(* ===== verification/Diffseq.thy ===== *)
theory Diffseq
  imports Prelude "HOL-Library.Monad_Syntax"
begin

text \<open>
  The comparison of two vectors of diff/diffseq.h, as analyze.c instantiates it: elements
  are numbers compared by equality, an offset is a \<open>lin\<close>, and a deletion or insertion is
  recorded in the \<open>changed\<close> flags of the two files through the \<open>realindexes\<close> tables.

  The vectors \<open>fdiag\<close> and \<open>bdiag\<close> are functions from diagonals to X coordinates; their
  contents before a search are arbitrary, as the memory is not initialised. The loop
  of \<open>diag\<close> has no bound in the source; it is a partial function whose value \<open>None\<close> means
  that it does not return, and so is the recursion of \<open>compareseq\<close>, where \<open>None\<close> also
  stands for a flag written outside its vector.
\<close>

type_synonym diagvec = "int \<Rightarrow> int"

definition OFFSET_MAX :: lin where
  "OFFSET_MAX = (2 ^ 62 - 1) * 2 + 1"

definition SNAKE_LIMIT :: lin where
  "SNAKE_LIMIT = 20"

record diff_context =
  xvec :: "lin list"
  yvec :: "lin list"
  heuristic :: bool
  too_expensive :: lin

record partition =
  xmid :: lin
  ymid :: lin
  lo_minimal :: bool
  hi_minimal :: bool

definition XREF_YREF_EQUAL :: "diff_context \<Rightarrow> lin \<Rightarrow> lin \<Rightarrow> bool" where
  "XREF_YREF_EQUAL ctxt x y \<longleftrightarrow> xvec ctxt ! nat x = yvec ctxt ! nat y"

section \<open>The search for a midpoint\<close>

text \<open>Moving along a diagonal while the elements match, forwards and backwards.\<close>

function slide_fwd :: "(lin \<Rightarrow> lin \<Rightarrow> bool) \<Rightarrow> lin \<Rightarrow> lin \<Rightarrow> lin \<Rightarrow> lin \<Rightarrow> lin \<times> lin" where
  "slide_fwd eq xlim ylim x y =
     (if x < xlim \<and> y < ylim \<and> eq x y then slide_fwd eq xlim ylim (x + 1) (y + 1) else (x, y))"
  by pat_completeness auto
termination
  by (relation "measure (\<lambda>(eq, xlim, ylim, x, y). nat (xlim - x))") auto

function slide_bwd :: "(lin \<Rightarrow> lin \<Rightarrow> bool) \<Rightarrow> lin \<Rightarrow> lin \<Rightarrow> lin \<Rightarrow> lin \<Rightarrow> lin \<times> lin" where
  "slide_bwd eq xoff yoff x y =
     (if xoff < x \<and> yoff < y \<and> eq (x - 1) (y - 1) then slide_bwd eq xoff yoff (x - 1) (y - 1)
      else (x, y))"
  by pat_completeness auto
termination
  by (relation "measure (\<lambda>(eq, xoff, yoff, x, y). nat (x - xoff))") auto

declare slide_fwd.simps [simp del] slide_bwd.simps [simp del]

record search =
  fmin :: lin
  fmax :: lin
  bmin :: lin
  bmax :: lin
  fd :: diagvec
  bd :: diagvec

text \<open>The limits of the two searches move by one diagonal at either end.\<close>

definition extend_fwd :: "lin \<Rightarrow> lin \<Rightarrow> search \<Rightarrow> search" where
  "extend_fwd dmin dmax s =
     (let s1 = (if fmin s > dmin
                then s\<lparr>fmin := fmin s - 1, fd := (fd s)(fmin s - 1 - 1 := - 1)\<rparr>
                else s\<lparr>fmin := fmin s + 1\<rparr>)
      in if fmax s1 < dmax
         then s1\<lparr>fmax := fmax s1 + 1, fd := (fd s1)(fmax s1 + 1 + 1 := - 1)\<rparr>
         else s1\<lparr>fmax := fmax s1 - 1\<rparr>)"

definition extend_bwd :: "lin \<Rightarrow> lin \<Rightarrow> search \<Rightarrow> search" where
  "extend_bwd dmin dmax s =
     (let s1 = (if bmin s > dmin
                then s\<lparr>bmin := bmin s - 1, bd := (bd s)(bmin s - 1 - 1 := OFFSET_MAX)\<rparr>
                else s\<lparr>bmin := bmin s + 1\<rparr>)
      in if bmax s1 < dmax
         then s1\<lparr>bmax := bmax s1 + 1, bd := (bd s1)(bmax s1 + 1 + 1 := OFFSET_MAX)\<rparr>
         else s1\<lparr>bmax := bmax s1 - 1\<rparr>)"

text \<open>
  One extension of the top-down search on every active diagonal, from \<open>fmax\<close> down. The
  result is the meeting point, if the searches meet, the vector, and \<open>big_snake\<close>.
\<close>

function fwd_pass :: "(lin \<Rightarrow> lin \<Rightarrow> bool) \<Rightarrow> lin \<Rightarrow> lin \<Rightarrow> bool \<Rightarrow> lin \<Rightarrow> lin \<Rightarrow> diagvec \<Rightarrow> lin \<Rightarrow>
    lin \<Rightarrow> diagvec \<Rightarrow> bool \<Rightarrow> (lin \<times> lin) option \<times> diagvec \<times> bool" where
  "fwd_pass eq xlim ylim is_odd lo hi bdv dlow d fdv big =
     (if dlow \<le> d then
        let tlo = fdv (d - 1);
            thi = fdv (d + 1);
            x0 = (if tlo < thi then thi else tlo + 1);
            (x, y) = slide_fwd eq xlim ylim x0 (x0 - d);
            big' = (big \<or> x - x0 > SNAKE_LIMIT);
            fdv' = fdv(d := x)
        in if is_odd \<and> lo \<le> d \<and> d \<le> hi \<and> bdv d \<le> x then (Some (x, y), fdv', big')
           else fwd_pass eq xlim ylim is_odd lo hi bdv dlow (d - 2) fdv' big'
      else (None, fdv, big))"
  by pat_completeness auto
termination
  by (relation "measure (\<lambda>(eq, xlim, ylim, is_odd, lo, hi, bdv, dlow, d, fdv, big). nat (d + 2 - dlow))")
    auto

function bwd_pass :: "(lin \<Rightarrow> lin \<Rightarrow> bool) \<Rightarrow> lin \<Rightarrow> lin \<Rightarrow> bool \<Rightarrow> lin \<Rightarrow> lin \<Rightarrow> diagvec \<Rightarrow> lin \<Rightarrow>
    lin \<Rightarrow> diagvec \<Rightarrow> bool \<Rightarrow> (lin \<times> lin) option \<times> diagvec \<times> bool" where
  "bwd_pass eq xoff yoff is_odd lo hi fdv dlow d bdv big =
     (if dlow \<le> d then
        let tlo = bdv (d - 1);
            thi = bdv (d + 1);
            x0 = (if tlo < thi then tlo else thi - 1);
            (x, y) = slide_bwd eq xoff yoff x0 (x0 - d);
            big' = (big \<or> x0 - x > SNAKE_LIMIT);
            bdv' = bdv(d := x)
        in if \<not> is_odd \<and> lo \<le> d \<and> d \<le> hi \<and> x \<le> fdv d then (Some (x, y), bdv', big')
           else bwd_pass eq xoff yoff is_odd lo hi fdv dlow (d - 2) bdv' big'
      else (None, bdv, big))"
  by pat_completeness auto
termination
  by (relation "measure (\<lambda>(eq, xoff, yoff, is_odd, lo, hi, fdv, dlow, d, bdv, big). nat (d + 2 - dlow))")
    auto

declare fwd_pass.simps [simp del] bwd_pass.simps [simp del]

text \<open>
  The heuristic for large vectors: among the active diagonals, the one with the most
  progress that ends with a snake of \<open>SNAKE_LIMIT\<close> matches. The inner loop over \<open>k\<close> finds
  the limit exactly when the \<open>SNAKE_LIMIT\<close> comparisons all succeed.
\<close>

function heuristic_fwd :: "(lin \<Rightarrow> lin \<Rightarrow> bool) \<Rightarrow> lin \<Rightarrow> lin \<Rightarrow> lin \<Rightarrow> lin \<Rightarrow> lin \<Rightarrow> diagvec \<Rightarrow> lin \<Rightarrow>
    lin \<Rightarrow> lin \<times> lin \<times> lin \<Rightarrow> lin \<times> lin \<times> lin" where
  "heuristic_fwd eq xoff xlim yoff ylim c fdv dlow d acc =
     (if dlow \<le> d then
        let (best, xm, ym) = acc;
            dd = d - (xoff - yoff);
            x = fdv d;
            y = x - d;
            v = (x - xoff) * 2 - dd;
            acc' = (if v > 12 * (c + (if dd < 0 then - dd else dd)) \<and> v > best
                       \<and> xoff + SNAKE_LIMIT \<le> x \<and> x < xlim
                       \<and> yoff + SNAKE_LIMIT \<le> y \<and> y < ylim
                       \<and> list_all (\<lambda>k. eq (x - k) (y - k)) [1..SNAKE_LIMIT]
                    then (v, x, y) else acc)
        in heuristic_fwd eq xoff xlim yoff ylim c fdv dlow (d - 2) acc'
      else acc)"
  by pat_completeness auto
termination
  by (relation "measure (\<lambda>(eq, xoff, xlim, yoff, ylim, c, fdv, dlow, d, acc). nat (d + 2 - dlow))")
    auto

function heuristic_bwd :: "(lin \<Rightarrow> lin \<Rightarrow> bool) \<Rightarrow> lin \<Rightarrow> lin \<Rightarrow> lin \<Rightarrow> lin \<Rightarrow> lin \<Rightarrow> diagvec \<Rightarrow> lin \<Rightarrow>
    lin \<Rightarrow> lin \<times> lin \<times> lin \<Rightarrow> lin \<times> lin \<times> lin" where
  "heuristic_bwd eq xoff xlim yoff ylim c bdv dlow d acc =
     (if dlow \<le> d then
        let (best, xm, ym) = acc;
            dd = d - (xlim - ylim);
            x = bdv d;
            y = x - d;
            v = (xlim - x) * 2 + dd;
            acc' = (if v > 12 * (c + (if dd < 0 then - dd else dd)) \<and> v > best
                       \<and> xoff < x \<and> x \<le> xlim - SNAKE_LIMIT
                       \<and> yoff < y \<and> y \<le> ylim - SNAKE_LIMIT
                       \<and> list_all (\<lambda>k. eq (x + k) (y + k)) [0..SNAKE_LIMIT - 1]
                    then (v, x, y) else acc)
        in heuristic_bwd eq xoff xlim yoff ylim c bdv dlow (d - 2) acc'
      else acc)"
  by pat_completeness auto
termination
  by (relation "measure (\<lambda>(eq, xoff, xlim, yoff, ylim, c, bdv, dlow, d, acc). nat (d + 2 - dlow))")
    auto

text \<open>
  Giving up: the forward diagonal that maximises X + Y and the backward diagonal that
  minimises it, each as the pair of the sum and the X coordinate.
\<close>

function best_fwd :: "lin \<Rightarrow> lin \<Rightarrow> diagvec \<Rightarrow> lin \<Rightarrow> lin \<Rightarrow> lin \<times> lin \<Rightarrow> lin \<times> lin" where
  "best_fwd xlim ylim fdv dlow d acc =
     (if dlow \<le> d then
        let (fxybest, fxbest) = acc;
            x0 = min (fdv d) xlim;
            y0 = x0 - d;
            (x, y) = (if ylim < y0 then (ylim + d, ylim) else (x0, y0))
        in best_fwd xlim ylim fdv dlow (d - 2) (if fxybest < x + y then (x + y, x) else acc)
      else acc)"
  by pat_completeness auto
termination
  by (relation "measure (\<lambda>(xlim, ylim, fdv, dlow, d, acc). nat (d + 2 - dlow))") auto

function best_bwd :: "lin \<Rightarrow> lin \<Rightarrow> diagvec \<Rightarrow> lin \<Rightarrow> lin \<Rightarrow> lin \<times> lin \<Rightarrow> lin \<times> lin" where
  "best_bwd xoff yoff bdv dlow d acc =
     (if dlow \<le> d then
        let (bxybest, bxbest) = acc;
            x0 = max xoff (bdv d);
            y0 = x0 - d;
            (x, y) = (if y0 < yoff then (yoff + d, yoff) else (x0, y0))
        in best_bwd xoff yoff bdv dlow (d - 2) (if x + y < bxybest then (x + y, x) else acc)
      else acc)"
  by pat_completeness auto
termination
  by (relation "measure (\<lambda>(xoff, yoff, bdv, dlow, d, acc). nat (d + 2 - dlow))") auto

declare heuristic_fwd.simps [simp del] heuristic_bwd.simps [simp del]
  best_fwd.simps [simp del] best_bwd.simps [simp del]

definition give_up :: "lin \<Rightarrow> lin \<Rightarrow> lin \<Rightarrow> lin \<Rightarrow> search \<Rightarrow> partition" where
  "give_up xoff xlim yoff ylim s =
     (let (fxybest, fxbest) = best_fwd xlim ylim (fd s) (fmin s) (fmax s) (- 1, 0);
          (bxybest, bxbest) = best_bwd xoff yoff (bd s) (bmin s) (bmax s) (OFFSET_MAX, 0)
      in if (xlim + ylim) - bxybest < fxybest - (xoff + yoff)
         then \<lparr>xmid = fxbest, ymid = fxybest - fxbest, lo_minimal = True, hi_minimal = False\<rparr>
         else \<lparr>xmid = bxbest, ymid = bxybest - bxbest, lo_minimal = False, hi_minimal = True\<rparr>)"

text \<open>What follows the two passes of an iteration that did not meet.\<close>

definition stop_early :: "diff_context \<Rightarrow> lin \<Rightarrow> lin \<Rightarrow> lin \<Rightarrow> lin \<Rightarrow> lin \<Rightarrow> bool \<Rightarrow> search \<Rightarrow>
    partition option" where
  "stop_early ctxt xoff xlim yoff ylim c big_snake s =
     (let eq = XREF_YREF_EQUAL ctxt;
          h = 200 < c \<and> big_snake \<and> heuristic ctxt;
          (fbest, fx, fy) =
            heuristic_fwd eq xoff xlim yoff ylim c (fd s) (fmin s) (fmax s) (0, 0, 0);
          (bbest, bx, by) =
            heuristic_bwd eq xoff xlim yoff ylim c (bd s) (bmin s) (bmax s) (0, 0, 0)
      in if h \<and> fbest > 0
         then Some \<lparr>xmid = fx, ymid = fy, lo_minimal = True, hi_minimal = False\<rparr>
         else if h \<and> bbest > 0
         then Some \<lparr>xmid = bx, ymid = by, lo_minimal = False, hi_minimal = True\<rparr>
         else if c \<ge> too_expensive ctxt then Some (give_up xoff xlim yoff ylim s)
         else None)"

text \<open>One iteration of the main loop; \<open>Some\<close> is a return of the function.\<close>

definition diag_step :: "diff_context \<Rightarrow> lin \<Rightarrow> lin \<Rightarrow> lin \<Rightarrow> lin \<Rightarrow> bool \<Rightarrow> lin \<Rightarrow> search \<Rightarrow>
    partition option \<times> search" where
  "diag_step ctxt xoff xlim yoff ylim find_minimal c s =
     (let eq = XREF_YREF_EQUAL ctxt;
          dmin = xoff - ylim;
          dmax = xlim - yoff;
          is_odd = (((xoff - yoff) - (xlim - ylim)) mod 2 = 1);
          s1 = extend_fwd dmin dmax s;
          (fmeet, fd1, big1) = fwd_pass eq xlim ylim is_odd (bmin s1) (bmax s1) (bd s1)
                                 (fmin s1) (fmax s1) (fd s1) False;
          s2 = s1\<lparr>fd := fd1\<rparr>
      in case fmeet of
           Some (x, y) \<Rightarrow>
             (Some \<lparr>xmid = x, ymid = y, lo_minimal = True, hi_minimal = True\<rparr>, s2)
         | None \<Rightarrow>
             let s3 = extend_bwd dmin dmax s2;
                 (bmeet, bd1, big2) = bwd_pass eq xoff yoff is_odd (fmin s3) (fmax s3) (fd s3)
                                        (bmin s3) (bmax s3) (bd s3) big1;
                 s4 = s3\<lparr>bd := bd1\<rparr>
             in case bmeet of
                  Some (x, y) \<Rightarrow>
                    (Some \<lparr>xmid = x, ymid = y, lo_minimal = True, hi_minimal = True\<rparr>, s4)
                | None \<Rightarrow>
                    if find_minimal then (None, s4)
                    else (stop_early ctxt xoff xlim yoff ylim c big2 s4, s4))"

partial_function (option) diag_loop :: "diff_context \<Rightarrow> lin \<Rightarrow> lin \<Rightarrow> lin \<Rightarrow> lin \<Rightarrow> bool \<Rightarrow> lin \<Rightarrow>
    search \<Rightarrow> (partition \<times> search) option" where
  "diag_loop ctxt xoff xlim yoff ylim find_minimal c s =
     (case diag_step ctxt xoff xlim yoff ylim find_minimal c s of
        (Some part, s') \<Rightarrow> Some (part, s')
      | (None, s') \<Rightarrow> diag_loop ctxt xoff xlim yoff ylim find_minimal (c + 1) s')"

definition diag :: "diff_context \<Rightarrow> lin \<Rightarrow> lin \<Rightarrow> lin \<Rightarrow> lin \<Rightarrow> bool \<Rightarrow> diagvec \<Rightarrow> diagvec \<Rightarrow>
    (partition \<times> diagvec \<times> diagvec) option" where
  "diag ctxt xoff xlim yoff ylim find_minimal fdv bdv =
     (let fmid = xoff - yoff;
          bmid = xlim - ylim
      in map_option (\<lambda>(part, s). (part, fd s, bd s))
           (diag_loop ctxt xoff xlim yoff ylim find_minimal 1
              \<lparr>fmin = fmid, fmax = fmid, bmin = bmid, bmax = bmid,
               fd = fdv(fmid := xoff), bd = bdv(bmid := xlim)\<rparr>))"

section \<open>The divide-and-conquer comparison\<close>

record cmpstate =
  fdiag :: diagvec
  bdiag :: diagvec
  changed0 :: "bool list"
  changed1 :: "bool list"

text \<open>\<open>changed[realindexes[off]] = 1\<close>; \<open>None\<close> if either index is outside its vector.\<close>

definition note_change :: "lin list \<Rightarrow> lin \<Rightarrow> bool list \<Rightarrow> bool list option" where
  "note_change realindexes off changed =
     (if 0 \<le> off \<and> nat off < length realindexes then
        let i = realindexes ! nat off
        in if 0 \<le> i \<and> nat i < length changed then Some (changed[nat i := True]) else None
      else None)"

function note_range :: "lin list \<Rightarrow> lin \<Rightarrow> lin \<Rightarrow> bool list \<Rightarrow> bool list option" where
  "note_range realindexes off lim changed =
     (if off < lim then
        Option.bind (note_change realindexes off changed)
          (note_range realindexes (off + 1) lim)
      else Some changed)"
  by pat_completeness auto
termination
  by (relation "measure (\<lambda>(realindexes, off, lim, changed). nat (lim - off))") auto

declare note_range.simps [simp del]

partial_function (option) compareseq :: "diff_context \<Rightarrow> lin list \<Rightarrow> lin list \<Rightarrow> lin \<Rightarrow> lin \<Rightarrow> lin \<Rightarrow>
    lin \<Rightarrow> bool \<Rightarrow> cmpstate \<Rightarrow> cmpstate option" where
  "compareseq ctxt ri0 ri1 xoff0 xlim0 yoff0 ylim0 find_minimal st =
     (let eq = XREF_YREF_EQUAL ctxt;
          (xoff, yoff) = slide_fwd eq xlim0 ylim0 xoff0 yoff0;
          (xlim, ylim) = slide_bwd eq xoff yoff xlim0 ylim0
      in if xoff = xlim then
           map_option (\<lambda>ch. st\<lparr>changed1 := ch\<rparr>) (note_range ri1 yoff ylim (changed1 st))
         else if yoff = ylim then
           map_option (\<lambda>ch. st\<lparr>changed0 := ch\<rparr>) (note_range ri0 xoff xlim (changed0 st))
         else
           do { (part, fdv, bdv) \<leftarrow> diag ctxt xoff xlim yoff ylim find_minimal
                                      (fdiag st) (bdiag st);
                st1 \<leftarrow> compareseq ctxt ri0 ri1 xoff (xmid part) yoff (ymid part)
                         (lo_minimal part) (st\<lparr>fdiag := fdv, bdiag := bdv\<rparr>);
                compareseq ctxt ri0 ri1 (xmid part) xlim (ymid part) ylim
                         (hi_minimal part) st1 })"

end
