(* ===== verification/Analyze.thy ===== *)
theory Analyze
  imports Diffseq
begin

text \<open>
  The steps of diff/analyze.c around the comparison: leaving out confusing lines, moving the
  boundaries of the changes, building the edit script, and \<open>diff_2_files\<close>, which composes
  them. Every read and write of a vector is checked: \<open>None\<close> is an access outside the vector
  (or a loop that does not end), so that a result \<open>Some\<close> includes memory safety.
\<close>

text \<open>Checked access to a vector.\<close>

definition at :: "'a list \<Rightarrow> lin \<Rightarrow> 'a option" where
  "at xs i = (if 0 \<le> i \<and> i < int (length xs) then Some (xs ! nat i) else None)"

definition put :: "'a list \<Rightarrow> lin \<Rightarrow> 'a \<Rightarrow> 'a list option" where
  "put xs i v = (if 0 \<le> i \<and> i < int (length xs) then Some (xs[nat i := v]) else None)"

text \<open>
  A vector of flags has an extra element at each end, which is allocated clear; reading it
  gives false, writing it or going beyond it is an error.
\<close>

definition flag_at :: "bool list \<Rightarrow> lin \<Rightarrow> bool option" where
  "flag_at ch i = (if i = - 1 \<or> i = int (length ch) then Some False else at ch i)"

record file_data =
  equivs :: "lin list"
  undiscarded :: "lin list"
  realindexes :: "lin list"
  changed :: "bool list"

abbreviation buffered_lines :: "file_data \<Rightarrow> lin" where
  "buffered_lines f \<equiv> int (length (equivs f))"

abbreviation nondiscarded_lines :: "file_data \<Rightarrow> lin" where
  "nondiscarded_lines f \<equiv> int (length (undiscarded f))"

section \<open>Leaving out confusing lines\<close>

text \<open>The number of lines in each equivalence class.\<close>

primrec count_equivs :: "lin list \<Rightarrow> lin list \<Rightarrow> lin list option" where
  "count_equivs counts [] = Some counts"
| "count_equivs counts (e # es) =
     do { n \<leftarrow> at counts e; counts' \<leftarrow> put counts e (n + 1); count_equivs counts' es }"

text \<open>The threshold for lines that may be left out provisionally.\<close>

function many_matches :: "nat \<Rightarrow> nat \<Rightarrow> nat" where
  "many_matches tem many =
     (let tem' = drop_bit 2 tem in if tem' > 0 then many_matches tem' (many * 2) else many)"
  by pat_completeness auto
termination
  by (relation "measure fst") (auto simp: drop_bit_eq_div)

declare many_matches.simps [simp del]

text \<open>Mark 1 for a line without a match, 2 for a line with many, 0 for any other.\<close>

primrec mark_discards :: "lin list \<Rightarrow> nat \<Rightarrow> lin list \<Rightarrow> nat list option" where
  "mark_discards counts many [] = Some []"
| "mark_discards counts many (e # es) =
     do { v \<leftarrow> (if e = 0 then Some 0
              else do { nmatch \<leftarrow> at counts e;
                        Some (if nmatch = 0 then 1 else if nmatch > int many then 2 else 0) });
          vs \<leftarrow> mark_discards counts many es;
          Some (v # vs) }"

text \<open>The end of a run of discardable lines and the number of provisional ones in it.\<close>

function run_end :: "nat list \<Rightarrow> lin \<Rightarrow> lin \<Rightarrow> lin \<Rightarrow> (lin \<times> lin) option" where
  "run_end d lim j provisional =
     (if j < lim then
        do { v \<leftarrow> at d j;
             if v = 0 then Some (j, provisional)
             else run_end d lim (j + 1) (if v = 2 then provisional + 1 else provisional) }
      else Some (j, provisional))"
  by pat_completeness auto
termination
  by (relation "measure (\<lambda>(d, lim, j, provisional). nat (lim - j))") auto

text \<open>Provisional lines at the end of the run are kept.\<close>

function trim_run :: "lin \<Rightarrow> lin \<Rightarrow> lin \<Rightarrow> nat list \<Rightarrow> (lin \<times> lin \<times> nat list) option" where
  "trim_run i j provisional d =
     (if j > i then
        do { v \<leftarrow> at d (j - 1);
             if v = 2 then do { d' \<leftarrow> put d (j - 1) 0; trim_run i (j - 1) (provisional - 1) d' }
             else Some (j, provisional, d) }
      else Some (j, provisional, d))"
  by pat_completeness auto
termination
  by (relation "measure (\<lambda>(i, j, provisional, d). nat (j - i))") auto

text \<open>All provisional lines of the run are kept.\<close>

function cancel_provisional :: "lin \<Rightarrow> lin \<Rightarrow> nat list \<Rightarrow> nat list option" where
  "cancel_provisional i j d =
     (if j > i then
        do { v \<leftarrow> at d (j - 1);
             d' \<leftarrow> (if v = 2 then put d (j - 1) 0 else Some d);
             cancel_provisional i (j - 1) d' }
      else Some d)"
  by pat_completeness auto
termination
  by (relation "measure (\<lambda>(i, j, d). nat (j - i))") auto

text \<open>One more than the approximate square root of a quarter of the run's length.\<close>

function minimum_loop :: "nat \<Rightarrow> nat \<Rightarrow> nat" where
  "minimum_loop tem minimum =
     (let tem' = drop_bit 2 tem in if 0 < tem' then minimum_loop tem' (push_bit 1 minimum) else minimum)"
  by pat_completeness auto
termination
  by (relation "measure fst") (auto simp: drop_bit_eq_div)

definition subrun_minimum :: "lin \<Rightarrow> lin" where
  "subrun_minimum len = int (minimum_loop (drop_bit 2 (nat len)) 1) + 1"

text \<open>
  A subrun of \<open>minimum\<close> or more provisional lines is kept; the loop backs up to the start of
  the subrun when it has counted \<open>minimum\<close> of them.
\<close>

partial_function (option) cancel_subruns :: "lin \<Rightarrow> lin \<Rightarrow> lin \<Rightarrow> lin \<Rightarrow> lin \<Rightarrow> nat list \<Rightarrow>
    nat list option" where
  "cancel_subruns i len minimum j consec d =
     (if j < len then
        do { v \<leftarrow> at d (i + j);
             if v \<noteq> 2 then cancel_subruns i len minimum (j + 1) 0 d
             else if minimum = consec + 1 then
               cancel_subruns i len minimum (j - (consec + 1) + 1) (consec + 1) d
             else if minimum < consec + 1 then
               do { d' \<leftarrow> put d (i + j) 0; cancel_subruns i len minimum (j + 1) (consec + 1) d' }
             else cancel_subruns i len minimum (j + 1) (consec + 1) d }
      else Some d)"

text \<open>
  Provisional lines are kept until three nonprovisional ones follow each other, or until the
  first nonprovisional one at least 8 lines in: from the start of the run with \<open>step = 1\<close>,
  from its end with \<open>step = -1\<close>.
\<close>

function cancel_edge :: "lin \<Rightarrow> lin \<Rightarrow> lin \<Rightarrow> lin \<Rightarrow> lin \<Rightarrow> nat list \<Rightarrow> nat list option" where
  "cancel_edge step i len j consec d =
     (if j < len then
        do { v \<leftarrow> at d (i + step * j);
             if j \<ge> 8 \<and> v = 1 then Some d
             else do { d' \<leftarrow> (if v = 2 then put d (i + step * j) 0 else Some d);
                       let consec' = (if v = 2 \<or> v = 0 then 0 else consec + 1);
                       if consec' = 3 then Some d'
                       else cancel_edge step i len (j + 1) consec' d' } }
      else Some d)"
  by pat_completeness auto
termination
  by (relation "measure (\<lambda>(step, i, len, j, consec, d). nat (len - j))") auto

declare run_end.simps [simp del] trim_run.simps [simp del] cancel_provisional.simps [simp del]
  minimum_loop.simps [simp del] cancel_edge.simps [simp del]

text \<open>Provisional lines are left out only inside a run that starts and ends with others.\<close>

partial_function (option) cancel_loop :: "lin \<Rightarrow> lin \<Rightarrow> nat list \<Rightarrow> nat list option" where
  "cancel_loop lim i d =
     (if i < lim then
        do { v \<leftarrow> at d i;
             if v = 2 then do { d' \<leftarrow> put d i 0; cancel_loop lim (i + 1) d' }
             else if v \<noteq> 0 then
               do { (j0, p0) \<leftarrow> run_end d lim i 0;
                    (j, provisional, d1) \<leftarrow> trim_run i j0 p0 d;
                    let len = j - i;
                    if provisional * 4 > len then
                      do { d2 \<leftarrow> cancel_provisional i j d1; cancel_loop lim (i + 1) d2 }
                    else
                      do { d2 \<leftarrow> cancel_subruns i len (subrun_minimum len) 0 0 d1;
                           d3 \<leftarrow> cancel_edge 1 i len 0 0 d2;
                           d4 \<leftarrow> cancel_edge (- 1) (i + (len - 1)) len 0 0 d3;
                           cancel_loop lim (i + (len - 1) + 1) d4 } }
             else cancel_loop lim (i + 1) d }
      else Some d)"

text \<open>The lines that stay, with their line numbers, and the flags of the others.\<close>

fun squeeze :: "bool \<Rightarrow> lin \<Rightarrow> lin list \<Rightarrow> nat list \<Rightarrow> lin list \<times> lin list \<times> bool list" where
  "squeeze minimal i (e # es) (v # vs) =
     (let (und, ri, ch) = squeeze minimal (i + 1) es vs
      in if minimal \<or> v = 0 then (e # und, i # ri, False # ch) else (und, ri, True # ch))"
| "squeeze minimal i _ _ = ([], [], [])"

definition discard_file :: "bool \<Rightarrow> lin list \<Rightarrow> lin list \<Rightarrow> file_data option" where
  "discard_file minimal counts eqs =
     do { d \<leftarrow> mark_discards counts (many_matches (length eqs div 64) 5) eqs;
          d' \<leftarrow> cancel_loop (int (length eqs)) 0 d;
          let (und, ri, ch) = squeeze minimal 0 eqs d';
          Some \<lparr>equivs = eqs, undiscarded = und, realindexes = ri, changed = ch\<rparr> }"

definition discard_confusing_lines :: "bool \<Rightarrow> lin \<Rightarrow> lin list \<Rightarrow> lin list \<Rightarrow>
    (file_data \<times> file_data) option" where
  "discard_confusing_lines minimal equiv_max eqs0 eqs1 =
     do { counts0 \<leftarrow> count_equivs (replicate (nat equiv_max) 0) eqs0;
          counts1 \<leftarrow> count_equivs (replicate (nat equiv_max) 0) eqs1;
          f0 \<leftarrow> discard_file minimal counts1 eqs0;
          f1 \<leftarrow> discard_file minimal counts0 eqs1;
          Some (f0, f1) }"

section \<open>Moving the boundaries of the changes\<close>

text \<open>
  Scanning a vector of flags: the first clear flag at or after a position, and the last
  clear flag at or before one. Both stop at the extra elements at the latest.
\<close>

function scan_up :: "bool list \<Rightarrow> lin \<Rightarrow> lin option" where
  "scan_up ch i =
     (case flag_at ch i of None \<Rightarrow> None | Some b \<Rightarrow> if b then scan_up ch (i + 1) else Some i)"
  by pat_completeness auto
termination
  by (relation "measure (\<lambda>(ch, i). nat (int (length ch) - i))")
    (auto simp: flag_at_def at_def split: if_splits)

function scan_down :: "bool list \<Rightarrow> lin \<Rightarrow> lin option" where
  "scan_down ch i =
     (case flag_at ch i of None \<Rightarrow> None | Some b \<Rightarrow> if b then scan_down ch (i - 1) else Some i)"
  by pat_completeness auto
termination
  by (relation "measure (\<lambda>(ch, i). nat (i + 1))")
    (auto simp: flag_at_def at_def split: if_splits)

declare scan_up.simps [simp del] scan_down.simps [simp del]

text \<open>The start of the next run of changes, and the corresponding point in the other file.\<close>

function find_run :: "bool list \<Rightarrow> bool list \<Rightarrow> lin \<Rightarrow> lin \<Rightarrow> lin \<Rightarrow> (lin \<times> lin) option" where
  "find_run ch other i_end i j =
     (if i < i_end then
        do { c \<leftarrow> flag_at ch i;
             if \<not> c then do { j' \<leftarrow> scan_up other j; find_run ch other i_end (i + 1) (j' + 1) }
             else Some (i, j) }
      else Some (i, j))"
  by pat_completeness auto
termination
  by (relation "measure (\<lambda>(ch, other, i_end, i, j). nat (i_end - i))") auto

declare find_run.simps [simp del]

text \<open>The changed region \<open>[start, i)\<close> moves back while the lines at its ends match.\<close>

partial_function (option) shift_back :: "lin list \<Rightarrow> bool list \<Rightarrow> bool list \<Rightarrow> lin \<Rightarrow> lin \<Rightarrow> lin \<Rightarrow>
    (bool list \<times> lin \<times> lin \<times> lin) option" where
  "shift_back eqs other ch start i j =
     (if start = 0 then Some (ch, start, i, j)
      else do { a \<leftarrow> at eqs (start - 1);
                b \<leftarrow> at eqs (i - 1);
                if a = b then
                  do { ch1 \<leftarrow> put ch (start - 1) True;
                       ch2 \<leftarrow> put ch1 (i - 1) False;
                       p \<leftarrow> scan_down ch2 (start - 1 - 1);
                       j' \<leftarrow> scan_down other (j - 1);
                       shift_back eqs other ch2 (p + 1) (i - 1) j' }
                else Some (ch, start, i, j) })"

text \<open>
  Moving \<open>j\<close> past the corresponding line; \<open>corresponding\<close> becomes \<open>i\<close> when changed lines
  are passed.
\<close>

function pass_other :: "bool list \<Rightarrow> lin \<Rightarrow> lin \<Rightarrow> lin \<Rightarrow> (lin \<times> lin) option" where
  "pass_other other i j corresponding =
     (case flag_at other (j + 1) of
        None \<Rightarrow> None
      | Some b \<Rightarrow> if b then pass_other other i (j + 1) i else Some (j + 1, corresponding))"
  by pat_completeness auto
termination
  by (relation "measure (\<lambda>(other, i, j, corresponding). nat (int (length other) - j))")
    (auto simp: flag_at_def at_def split: if_splits)

declare pass_other.simps [simp del]

text \<open>The changed region moves forward while the lines at its ends match.\<close>

partial_function (option) shift_forward :: "lin list \<Rightarrow> bool list \<Rightarrow> lin \<Rightarrow> bool list \<Rightarrow> lin \<Rightarrow> lin \<Rightarrow>
    lin \<Rightarrow> lin \<Rightarrow> (bool list \<times> lin \<times> lin \<times> lin \<times> lin) option" where
  "shift_forward eqs other i_end ch start i j corresponding =
     (if i = i_end then Some (ch, start, i, j, corresponding)
      else do { a \<leftarrow> at eqs start;
                b \<leftarrow> at eqs i;
                if a = b then
                  do { ch1 \<leftarrow> put ch start False;
                       ch2 \<leftarrow> put ch1 i True;
                       i' \<leftarrow> scan_up ch2 (i + 1);
                       (j', corr') \<leftarrow> pass_other other i' j corresponding;
                       shift_forward eqs other i_end ch2 (start + 1) i' j' corr' }
                else Some (ch, start, i, j, corresponding) })"

text \<open>The two movements are repeated as long as the region has grown by merging.\<close>

partial_function (option) merge_run :: "lin list \<Rightarrow> bool list \<Rightarrow> lin \<Rightarrow> bool list \<Rightarrow> lin \<Rightarrow> lin \<Rightarrow> lin \<Rightarrow>
    (bool list \<times> lin \<times> lin \<times> lin \<times> lin) option" where
  "merge_run eqs other i_end ch start i j =
     do { let runlength = i - start;
          (ch1, start1, i1, j1) \<leftarrow> shift_back eqs other ch start i j;
          c \<leftarrow> flag_at other (j1 - 1);
          (ch2, start2, i2, j2, corr) \<leftarrow>
            shift_forward eqs other i_end ch1 start1 i1 j1 (if c then i1 else i_end);
          if runlength \<noteq> i2 - start2 then merge_run eqs other i_end ch2 start2 i2 j2
          else Some (ch2, start2, i2, j2, corr) }"

text \<open>The region moves back to the last corresponding run of the other file.\<close>

partial_function (option) move_to_corresponding :: "bool list \<Rightarrow> lin \<Rightarrow> bool list \<Rightarrow> lin \<Rightarrow> lin \<Rightarrow> lin \<Rightarrow>
    (bool list \<times> lin \<times> lin \<times> lin) option" where
  "move_to_corresponding other corresponding ch start i j =
     (if corresponding < i then
        do { ch1 \<leftarrow> put ch (start - 1) True;
             ch2 \<leftarrow> put ch1 (i - 1) False;
             j' \<leftarrow> scan_down other (j - 1);
             move_to_corresponding other corresponding ch2 (start - 1) (i - 1) j' }
      else Some (ch, start, i, j))"

partial_function (option) shift_runs :: "lin list \<Rightarrow> bool list \<Rightarrow> lin \<Rightarrow> bool list \<Rightarrow> lin \<Rightarrow> lin \<Rightarrow>
    bool list option" where
  "shift_runs eqs other i_end ch i0 j0 =
     do { (start, j1) \<leftarrow> find_run ch other i_end i0 j0;
          if start = i_end then Some ch
          else do { i \<leftarrow> scan_up ch (start + 1);
                    j \<leftarrow> scan_up other j1;
                    (ch1, start1, i1, j2, corr) \<leftarrow> merge_run eqs other i_end ch start i j;
                    (ch2, start2, i2, j3) \<leftarrow> move_to_corresponding other corr ch1 start1 i1 j2;
                    shift_runs eqs other i_end ch2 i2 j3 } }"

definition shift_boundaries :: "file_data \<Rightarrow> file_data \<Rightarrow> (file_data \<times> file_data) option" where
  "shift_boundaries f0 f1 =
     do { ch0 \<leftarrow> shift_runs (equivs f0) (changed f1) (buffered_lines f0) (changed f0) 0 0;
          ch1 \<leftarrow> shift_runs (equivs f1) ch0 (buffered_lines f1) (changed f1) 0 0;
          Some (f0\<lparr>changed := ch0\<rparr>, f1\<lparr>changed := ch1\<rparr>) }"

section \<open>The edit script\<close>

record change =
  inserted :: lin
  deleted :: lin
  line0 :: lin
  line1 :: lin

definition add_change :: "lin \<Rightarrow> lin \<Rightarrow> lin \<Rightarrow> lin \<Rightarrow> change list \<Rightarrow> change list" where
  "add_change l0 l1 del ins old = \<lparr>inserted = ins, deleted = del, line0 = l0, line1 = l1\<rparr> # old"

partial_function (option) build_script :: "bool list \<Rightarrow> bool list \<Rightarrow> lin \<Rightarrow> lin \<Rightarrow> change list \<Rightarrow>
    change list option" where
  "build_script ch0 ch1 i0 i1 script =
     (if i0 \<ge> 0 \<or> i1 \<ge> 0 then
        do { c0 \<leftarrow> flag_at ch0 (i0 - 1);
             c1 \<leftarrow> flag_at ch1 (i1 - 1);
             if c0 \<or> c1 then
               do { p0 \<leftarrow> scan_down ch0 (i0 - 1);
                    p1 \<leftarrow> scan_down ch1 (i1 - 1);
                    build_script ch0 ch1 (p0 + 1 - 1) (p1 + 1 - 1)
                      (add_change (p0 + 1) (p1 + 1) (i0 - (p0 + 1)) (i1 - (p1 + 1)) script) }
             else build_script ch0 ch1 (i0 - 1) (i1 - 1) script }
      else Some script)"

section \<open>The whole comparison\<close>

text \<open>The approximate square root of the number of diagonals, by shifts.\<close>

function expense :: "nat \<Rightarrow> nat \<Rightarrow> nat" where
  "expense diags e = (if diags \<noteq> 0 then expense (drop_bit 2 diags) (push_bit 1 e) else e)"
  by pat_completeness auto
termination
  by (relation "measure fst") (auto simp: drop_bit_eq_div)

declare expense.simps [simp del]

text \<open>
  \<open>fdv\<close> and \<open>bdv\<close> are the contents of the allocated, uninitialised vectors of diagonals.
\<close>

definition diff_2_files :: "bool \<Rightarrow> bool \<Rightarrow> diagvec \<Rightarrow> diagvec \<Rightarrow> lin \<Rightarrow> lin list \<Rightarrow> lin list \<Rightarrow>
    change list option" where
  "diff_2_files minimal speed_large_files fdv bdv equiv_max eqs0 eqs1 =
     do { (f0, f1) \<leftarrow> discard_confusing_lines minimal equiv_max eqs0 eqs1;
          let diags = nat (nondiscarded_lines f0 + nondiscarded_lines f1 + 3);
          let ctxt = \<lparr>xvec = undiscarded f0, yvec = undiscarded f1,
                      heuristic = speed_large_files,
                      too_expensive = max 256 (int (expense diags 1))\<rparr>;
          st \<leftarrow> compareseq ctxt (realindexes f0) (realindexes f1)
                  0 (nondiscarded_lines f0) 0 (nondiscarded_lines f1) minimal
                  \<lparr>fdiag = fdv, bdiag = bdv, changed0 = changed f0, changed1 = changed f1\<rparr>;
          (g0, g1) \<leftarrow> shift_boundaries (f0\<lparr>changed := changed0 st\<rparr>) (f1\<lparr>changed := changed1 st\<rparr>);
          build_script (changed g0) (changed g1) (buffered_lines g0) (buffered_lines g1) [] }"

end
