(* ===== verification/Frontier.thy ===== *)
theory Frontier
  imports Diffseq
begin

text \<open>
  Furthest-reaching points on the diagonals of the edit matrix, for one of the two
  searches of \<open>diag\<close>. The box is given by its corners \<open>(xo, yo)\<close> and \<open>(xl, yl)\<close>. After
  \<open>k\<close> extensions the search has a point on each diagonal of \<open>ring\<close> with radius \<open>k\<close>
  around the diagonal it started on. The invariant \<open>front_inv\<close> bounds the points from
  below and says how a point that has left the box drags its neighbours along; with the
  fact that the two searches have not met so far it gives that a point where they meet
  lies in the box. The bottom-up search is the mirror image of the top-down search, so each
  lemma serves both.
\<close>

section \<open>Diagonals reached after a number of steps\<close>

definition ring :: "int \<Rightarrow> int \<Rightarrow> int \<Rightarrow> int \<Rightarrow> int set" where
  "ring dmin dmax m r =
     {d. dmin \<le> d \<and> d \<le> dmax \<and> m - r \<le> d \<and> d \<le> m + r \<and> even (d - m - r)}"

lemma ring_iff:
  "d \<in> ring dmin dmax m r \<longleftrightarrow>
     dmin \<le> d \<and> d \<le> dmax \<and> m - r \<le> d \<and> d \<le> m + r \<and> even (d - m - r)"
  by (simp add: ring_def)

lemma ring_0: "dmin \<le> m \<Longrightarrow> m \<le> dmax \<Longrightarrow> ring dmin dmax m 0 = {m}"
  by (auto simp: ring_def)

lemma ring_mirror: "- d \<in> ring (- dmax) (- dmin) (- m) r \<longleftrightarrow> d \<in> ring dmin dmax m r"
proof -
  have "even (- d + m - r) \<longleftrightarrow> even (d - m - r)" by presburger
  then show ?thesis by (auto simp: ring_iff)
qed

lemma ring_between:
  "d \<in> ring dmin dmax m (r + 1) \<Longrightarrow> d + 2 \<in> ring dmin dmax m (r + 1) \<Longrightarrow> d + 1 \<in> ring dmin dmax m r"
  by (simp add: ring_iff) presburger

text \<open>A diagonal of the next ring has a neighbour in the ring, when the box is wide enough.\<close>

lemma ring_neighbour:
  assumes "d \<in> ring dmin dmax m (r + 1)" "0 \<le> r" "dmin < m" "m < dmax"
  shows "d - 1 \<in> ring dmin dmax m r \<or> d + 1 \<in> ring dmin dmax m r"
  using assms by (simp add: ring_iff) presburger

text \<open>The limits that the loop keeps for a ring.\<close>

definition ring_limits :: "int \<Rightarrow> int \<Rightarrow> int \<Rightarrow> int \<Rightarrow> int \<Rightarrow> int \<Rightarrow> bool" where
  "ring_limits dmin dmax m r lo hi \<longleftrightarrow>
     dmin \<le> lo \<and> hi \<le> dmax \<and> m - r \<le> lo \<and> hi \<le> m + r \<and> lo \<le> hi \<and>
     even (lo - m - r) \<and> even (hi - m - r) \<and>
     (lo = m - r \<or> lo \<le> dmin + 1) \<and> (hi = m + r \<or> dmax - 1 \<le> hi)"

lemma even_le_1: "even (n :: int) \<Longrightarrow> n \<le> 1 \<Longrightarrow> n \<le> 0"
  by presburger

lemma ring_limits_iff:
  assumes "ring_limits dmin dmax m r lo hi"
  shows "d \<in> ring dmin dmax m r \<longleftrightarrow> lo \<le> d \<and> d \<le> hi \<and> even (hi - d)"
proof
  assume d: "d \<in> ring dmin dmax m r"
  from assms d have "even (lo - m - r)" "even (hi - m - r)" "even (d - m - r)"
    unfolding ring_limits_def ring_iff by blast+
  then have ev: "even (lo - d)" "even (hi - d)" and ev': "even (d - hi)" by presburger+
  from assms d have "lo - d \<le> 1" "d - hi \<le> 1"
    by (auto simp: ring_limits_def ring_iff)
  with ev ev' have "lo - d \<le> 0" "d - hi \<le> 0"
    by (blast intro: even_le_1)+
  with ev show "lo \<le> d \<and> d \<le> hi \<and> even (hi - d)" by simp
next
  assume d: "lo \<le> d \<and> d \<le> hi \<and> even (hi - d)"
  from assms have "even (hi - m - r)"
    unfolding ring_limits_def by blast
  with d have "even (d - m - r)" by presburger
  with assms d show "d \<in> ring dmin dmax m r"
    by (auto simp: ring_limits_def ring_iff)
qed

lemma ring_limits_0: "dmin \<le> m \<Longrightarrow> m \<le> dmax \<Longrightarrow> ring_limits dmin dmax m 0 m m"
  by (simp add: ring_limits_def)

lemma ring_limits_step:
  assumes "ring_limits dmin dmax m r lo hi" "0 \<le> r" "dmin < m" "m < dmax"
  shows "ring_limits dmin dmax m (r + 1)
           (if dmin < lo then lo - 1 else lo + 1) (if hi < dmax then hi + 1 else hi - 1)"
proof -
  from assms have lo: "lo = m - r \<or> lo \<le> dmin + 1" and hi: "hi = m + r \<or> dmax - 1 \<le> hi"
    and ev: "even (lo - m - r)" "even (hi - m - r)"
    and b: "dmin \<le> lo" "hi \<le> dmax" "m - r \<le> lo" "hi \<le> m + r" "lo \<le> hi"
    by (simp_all add: ring_limits_def)
  let ?lo = "if dmin < lo then lo - 1 else lo + 1"
  let ?hi = "if hi < dmax then hi + 1 else hi - 1"
  have e: "even (?lo - m - (r + 1))" "even (?hi - m - (r + 1))"
    using ev by presburger+
  have "?lo \<le> ?hi"
  proof (cases "lo = dmin \<and> hi = dmax")
    case True
    then show ?thesis using assms by auto
  next
    case False
    then show ?thesis using b by auto
  qed
  moreover have "?lo = m - (r + 1) \<or> ?lo \<le> dmin + 1" "?hi = m + (r + 1) \<or> dmax - 1 \<le> ?hi"
    using lo hi b by auto
  moreover have "dmin \<le> ?lo" "?hi \<le> dmax" "m - (r + 1) \<le> ?lo" "?hi \<le> m + (r + 1)"
    using b by auto
  ultimately show ?thesis
    using e unfolding ring_limits_def by blast
qed

section \<open>One extension of the search\<close>

definition extend_point :: "(int \<Rightarrow> int \<Rightarrow> bool) \<Rightarrow> int \<Rightarrow> int \<Rightarrow> (int \<Rightarrow> int) \<Rightarrow> int \<Rightarrow> int" where
  "extend_point eq xl yl f d =
     (let x0 = max (f (d - 1) + 1) (f (d + 1)) in fst (slide_fwd eq xl yl x0 (x0 - d)))"

lemma slide_fwd_spec:
  "slide_fwd eq xl yl x y = (x', y') \<Longrightarrow>
     x \<le> x' \<and> x' - y' = x - y \<and> (x < x' \<longrightarrow> x' \<le> xl \<and> y' \<le> yl \<and> eq (x' - 1) (y' - 1)) \<and>
     (x' < xl \<and> y' < yl \<longrightarrow> \<not> eq x' y') \<and> (\<forall>i. x \<le> i \<and> i < x' \<longrightarrow> eq i (i - (x - y)))"
proof (induction eq xl yl x y rule: slide_fwd.induct)
  case (1 eq xl yl x y)
  show ?case
  proof (cases "x < xl \<and> y < yl \<and> eq x y")
    case True
    with "1.prems" have "slide_fwd eq xl yl (x + 1) (y + 1) = (x', y')"
      by (simp add: slide_fwd.simps [of eq xl yl x y])
    note IH = "1.IH" [OF True this]
    have "eq i (i - (x - y))" if "x \<le> i" "i < x'" for i
      using IH True that by (cases "i = x") auto
    moreover have "x < x' \<longrightarrow> x' \<le> xl \<and> y' \<le> yl \<and> eq (x' - 1) (y' - 1)"
    proof (cases "x + 1 = x'")
      case xx: True
      with IH have "y' = y + 1" by linarith
      with xx True show ?thesis by auto
    next
      case False
      with IH show ?thesis by auto
    qed
    ultimately show ?thesis using IH by auto
  next
    case False
    with "1.prems" show ?thesis
      by (auto simp: slide_fwd.simps [of eq xl yl x y])
  qed
qed

lemma slide_fwd_snd: "snd (slide_fwd eq xl yl x y) = fst (slide_fwd eq xl yl x y) - (x - y)"
  using slide_fwd_spec [of eq xl yl x y] by (cases "slide_fwd eq xl yl x y") auto

text \<open>The new point is at least the step from either neighbour, and beyond it only by matches.\<close>

lemma extend_point_spec:
  assumes "x0 = max (f (d - 1) + 1) (f (d + 1))" "x = extend_point eq xl yl f d"
  shows "x0 \<le> x \<and> (x0 < x \<longrightarrow> x \<le> xl \<and> x - d \<le> yl \<and> eq (x - 1) (x - d - 1))"
proof -
  obtain x' y' where s: "slide_fwd eq xl yl x0 (x0 - d) = (x', y')" by fastforce
  then have "x = x'"
    by (simp add: assms extend_point_def Let_def)
  moreover from slide_fwd_spec [OF s] have "y' = x' - d" by linarith
  ultimately show ?thesis
    using slide_fwd_spec [OF s] by auto
qed

lemma extend_point_ge:
  "f (d - 1) + 1 \<le> extend_point eq xl yl f d" "f (d + 1) \<le> extend_point eq xl yl f d"
  using extend_point_spec [OF refl refl, of f d eq xl yl] by linarith+

lemma extend_point_out:
  assumes "x = extend_point eq xl yl f d" "xl < x \<or> yl < x - d"
  shows "x = f (d - 1) + 1 \<or> x = f (d + 1)"
  using extend_point_spec [OF refl assms(1)] assms(2) by linarith

section \<open>The invariant of a search\<close>

abbreviation reach :: "int \<Rightarrow> int \<Rightarrow> int \<Rightarrow> int \<Rightarrow> int \<Rightarrow> int set" where
  "reach xo xl yo yl k \<equiv> ring (xo - yl) (xl - yo) (xo - yo) k"

definition front_inv :: "int \<Rightarrow> int \<Rightarrow> int \<Rightarrow> int \<Rightarrow> int \<Rightarrow> (int \<Rightarrow> int) \<Rightarrow> bool" where
  "front_inv xo xl yo yl k f \<longleftrightarrow>
     (\<forall>d \<in> reach xo xl yo yl k. xo \<le> f d \<and> yo \<le> f d - d \<and> xo + yo + k \<le> 2 * f d - d) \<and>
     (\<forall>d. d \<in> reach xo xl yo yl k \<longrightarrow> d + 2 \<in> reach xo xl yo yl k \<longrightarrow> yl < f d - d \<longrightarrow>
        f d + 1 \<le> f (d + 2)) \<and>
     (\<forall>d. d \<in> reach xo xl yo yl k \<longrightarrow> d - 2 \<in> reach xo xl yo yl k \<longrightarrow> xl < f d \<longrightarrow>
        f d - 1 \<le> f (d - 2)) \<and>
     (xo - yo + k \<in> reach xo xl yo yl k \<longrightarrow> f (xo - yo + k) - (xo - yo + k) \<le> yl) \<and>
     (xo - yo - k \<in> reach xo xl yo yl k \<longrightarrow> f (xo - yo - k) \<le> xl)"

text \<open>Outside the ring the neighbours of the next ring hold a value below every point.\<close>

definition margins :: "int \<Rightarrow> int \<Rightarrow> int \<Rightarrow> int \<Rightarrow> int \<Rightarrow> (int \<Rightarrow> int) \<Rightarrow> bool" where
  "margins xo xl yo yl k f \<longleftrightarrow>
     (\<forall>d \<in> reach xo xl yo yl (k + 1).
        (d - 1 \<in> reach xo xl yo yl k \<or> f (d - 1) < xo) \<and>
        (d + 1 \<in> reach xo xl yo yl k \<or> f (d + 1) < xo))"

lemma front_inv_0:
  assumes "xo < xl" "yo < yl" "f (xo - yo) = xo"
  shows "front_inv xo xl yo yl 0 f"
proof -
  have "reach xo xl yo yl 0 = {xo - yo}"
    using assms by (intro ring_0) auto
  with assms show ?thesis by (simp add: front_inv_def)
qed

lemma front_inv_cong:
  assumes "front_inv xo xl yo yl k f" "\<forall>d \<in> reach xo xl yo yl k. g d = f d"
  shows "front_inv xo xl yo yl k g"
proof -
  have eq: "g d = f d" if "d \<in> reach xo xl yo yl k" for d
    using assms(2) that by blast
  show ?thesis
    using assms(1) unfolding front_inv_def by (simp add: eq)
qed

text \<open>The point that a new point is a step from.\<close>

lemma front_pred:
  assumes "xo < xl" "yo < yl" "0 \<le> k" "front_inv xo xl yo yl k f" "margins xo xl yo yl k f"
    and "d \<in> reach xo xl yo yl (k + 1)" "x0 = max (f (d - 1) + 1) (f (d + 1))"
  shows "(d - 1 \<in> reach xo xl yo yl k \<and> x0 = f (d - 1) + 1) \<or>
    (d + 1 \<in> reach xo xl yo yl k \<and> x0 = f (d + 1))"
proof -
  have nb: "d - 1 \<in> reach xo xl yo yl k \<or> d + 1 \<in> reach xo xl yo yl k"
    using assms(1,2,3,6) by (intro ring_neighbour) auto
  have m: "d - 1 \<in> reach xo xl yo yl k \<or> f (d - 1) < xo"
      "d + 1 \<in> reach xo xl yo yl k \<or> f (d + 1) < xo"
    using assms(5,6) by (auto simp: margins_def)
  have ge: "e \<in> reach xo xl yo yl k \<Longrightarrow> xo \<le> f e" for e
    using assms(4) by (auto simp: front_inv_def)
  show ?thesis
    using nb m ge [of "d - 1"] ge [of "d + 1"] assms(7) by fastforce
qed

lemma front_step:
  assumes box: "xo < xl" "yo < yl" "0 \<le> k"
    and inv: "front_inv xo xl yo yl k f" and mar: "margins xo xl yo yl k f"
    and new: "\<forall>d \<in> reach xo xl yo yl (k + 1). f' d = extend_point eq xl yl f d"
  shows "front_inv xo xl yo yl (k + 1) f'"
proof -
  let ?S = "reach xo xl yo yl k" and ?S' = "reach xo xl yo yl (k + 1)"
  have pred: "(d - 1 \<in> ?S \<and> x0 = f (d - 1) + 1) \<or> (d + 1 \<in> ?S \<and> x0 = f (d + 1))"
    if "d \<in> ?S'" "x0 = max (f (d - 1) + 1) (f (d + 1))" for d x0
    using front_pred [OF box inv mar that] .
  have spec: "max (f (d - 1) + 1) (f (d + 1)) \<le> f' d \<and>
      (max (f (d - 1) + 1) (f (d + 1)) < f' d \<longrightarrow> f' d \<le> xl \<and> f' d - d \<le> yl)"
    if "d \<in> ?S'" for d
    using extend_point_spec [OF refl refl, of f d eq xl yl] new that by auto
  have out: "(d - 1 \<in> ?S \<and> f' d = f (d - 1) + 1) \<or> (d + 1 \<in> ?S \<and> f' d = f (d + 1))"
    if "d \<in> ?S'" "xl < f' d \<or> yl < f' d - d" for d
    using pred [OF that(1) refl] spec [OF that(1)] that(2) by linarith
  have low: "xo \<le> f d \<and> yo \<le> f d - d \<and> xo + yo + k \<le> 2 * f d - d" if "d \<in> ?S" for d
    using inv that by (auto simp: front_inv_def)
  have A: "xo \<le> f' d \<and> yo \<le> f' d - d \<and> xo + yo + (k + 1) \<le> 2 * f' d - d" if "d \<in> ?S'" for d
    using pred [OF that refl] spec [OF that] low [of "d - 1"] low [of "d + 1"] by linarith
  have drag_y: "f e + 1 \<le> f e'" if "e \<in> ?S" "e' \<in> ?S" "e' = e + 2" "yl < f e - e" for e e'
    using inv that unfolding front_inv_def by blast
  have drag_x: "f e - 1 \<le> f e'" if "e \<in> ?S" "e' \<in> ?S" "e' = e - 2" "xl < f e" for e e'
    using inv that unfolding front_inv_def by blast
  have top: "f e - e \<le> yl" if "e \<in> ?S" "e = xo - yo + k" for e
    using inv that unfolding front_inv_def by blast
  have bot: "f e \<le> xl" if "e \<in> ?S" "e = xo - yo - k" for e
    using inv that unfolding front_inv_def by blast
  have B: "f' d + 1 \<le> f' (d + 2)" if d: "d \<in> ?S'" "d + 2 \<in> ?S'" "yl < f' d - d" for d
  proof -
    have mid: "d + 1 \<in> ?S" using d(1,2) by (rule ring_between)
    have up: "f (d + 1) + 1 \<le> f' (d + 2)" using spec [OF d(2)] by (simp add: algebra_simps)
    from out [OF d(1)] d(3) consider "d - 1 \<in> ?S" "f' d = f (d - 1) + 1" | "f' d = f (d + 1)"
      by blast
    then show ?thesis
    proof cases
      case 1
      have "f (d - 1) + 1 \<le> f (d + 1)"
        by (rule drag_y) (use 1 mid d(3) in auto)
      with 1 up show ?thesis by linarith
    next
      case 2
      with up show ?thesis by simp
    qed
  qed
  have C: "f' d - 1 \<le> f' (d - 2)" if d: "d \<in> ?S'" "d - 2 \<in> ?S'" "xl < f' d" for d
  proof -
    have mid: "d - 1 \<in> ?S" using ring_between [of "d - 2"] d(1,2) by simp
    have dn: "f (d - 1) \<le> f' (d - 2)" using spec [OF d(2)] by (simp add: algebra_simps)
    from out [OF d(1)] d(3) consider "f' d = f (d - 1) + 1" | "d + 1 \<in> ?S" "f' d = f (d + 1)"
      by blast
    then show ?thesis
    proof cases
      case 1
      with dn show ?thesis by simp
    next
      case 2
      have "f (d + 1) - 1 \<le> f (d - 1)"
        by (rule drag_x) (use 2 mid d(3) in auto)
      with 2 dn show ?thesis by linarith
    qed
  qed
  have D: "f' (xo - yo + (k + 1)) - (xo - yo + (k + 1)) \<le> yl" if "xo - yo + (k + 1) \<in> ?S'"
  proof (rule ccontr)
    let ?d = "xo - yo + (k + 1)"
    assume no: "\<not> ?thesis"
    moreover have "?d + 1 \<notin> ?S" by (simp add: ring_iff)
    ultimately have "?d - 1 \<in> ?S \<and> f' ?d = f (?d - 1) + 1" using out [OF that] by auto
    moreover from this have "f (?d - 1) - (?d - 1) \<le> yl"
      by (intro top) auto
    ultimately show False using no by linarith
  qed
  have E: "f' (xo - yo - (k + 1)) \<le> xl" if "xo - yo - (k + 1) \<in> ?S'"
  proof (rule ccontr)
    let ?d = "xo - yo - (k + 1)"
    assume no: "\<not> ?thesis"
    moreover have "?d - 1 \<notin> ?S" by (simp add: ring_iff)
    ultimately have "?d + 1 \<in> ?S \<and> f' ?d = f (?d + 1)" using out [OF that] by auto
    moreover from this have "f (?d + 1) \<le> xl"
      by (intro bot) auto
    ultimately show False using no by linarith
  qed
  show ?thesis unfolding front_inv_def using A B C D E by blast
qed

section \<open>Where the two searches meet\<close>

text \<open>
  The other search has reached the ring of radius \<open>j\<close> around the opposite corner's diagonal.
  As long as the searches have not met, the points on common diagonals are strictly inside
  the box.
\<close>

definition unmet :: "int \<Rightarrow> int \<Rightarrow> int \<Rightarrow> int \<Rightarrow> int \<Rightarrow> int \<Rightarrow> (int \<Rightarrow> int) \<Rightarrow> bool" where
  "unmet xo xl yo yl k j f \<longleftrightarrow>
     (\<forall>e \<in> reach xo xl yo yl k. e \<in> ring (xo - yl) (xl - yo) (xl - yl) j \<longrightarrow>
        f e < xl \<and> f e - e < yl)"

lemma ring_parity_top: "e \<in> ring dmin dmax m k \<Longrightarrow> m + k < e + 2 \<Longrightarrow> e = m + k"
  by (simp add: ring_iff) presburger

lemma ring_parity_bot: "e \<in> ring dmin dmax m k \<Longrightarrow> e - 2 < m - k \<Longrightarrow> e = m - k"
  by (simp add: ring_iff) presburger

text \<open>A neighbour of the next ring that is not in the ring lies just outside it.\<close>

lemma ring_left_edge:
  assumes "d \<in> ring dmin dmax m (j + 1)" "dmin \<le> d - 1" "d - 1 \<notin> ring dmin dmax m j" "- 1 \<le> j"
  shows "d = m - j - 1"
  using assms by (simp add: ring_iff) presburger

lemma ring_right_edge:
  assumes "d \<in> ring dmin dmax m (j + 1)" "d + 1 \<le> dmax" "d + 1 \<notin> ring dmin dmax m j" "- 1 \<le> j"
  shows "d = m + j + 1"
  using assms by (simp add: ring_iff) presburger

lemma left_edge_in_box:
  assumes box: "xo < xl" "yo < yl" "0 \<le> k" and inv: "front_inv xo xl yo yl k f"
    and un: "unmet xo xl yo yl k j f" and j: "j = k \<or> j = k - 1"
    and e: "e \<in> reach xo xl yo yl k" "e = xl - yl - j - 2"
  shows "f e - e \<le> yl"
proof (cases "e + 2 \<in> reach xo xl yo yl k")
  case True
  show ?thesis
  proof (rule ccontr)
    assume no: "\<not> ?thesis"
    with inv e(1) True have "f e + 1 \<le> f (e + 2)"
      unfolding front_inv_def by (meson not_le)
    moreover from True e(1) have "0 < k" by (simp add: ring_iff)
    with j have "0 \<le> j" by auto
    with True e have "e + 2 \<in> ring (xo - yl) (xl - yo) (xl - yl) j" by (simp add: ring_iff)
    with un True have "f (e + 2) - (e + 2) < yl" by (auto simp: unmet_def)
    ultimately show False using no by linarith
  qed
next
  case False
  from e j box have "e + 2 \<le> xl - yo" by auto
  with False e(1) have "xo - yo + k < e + 2" by (auto simp: ring_iff)
  with e(1) have "e = xo - yo + k" by (rule ring_parity_top)
  with inv e(1) show ?thesis by (auto simp: front_inv_def)
qed

lemma right_edge_in_box:
  assumes box: "xo < xl" "yo < yl" "0 \<le> k" and inv: "front_inv xo xl yo yl k f"
    and un: "unmet xo xl yo yl k j f" and j: "j = k \<or> j = k - 1"
    and e: "e \<in> reach xo xl yo yl k" "e = xl - yl + j + 2"
  shows "f e \<le> xl"
proof (cases "e - 2 \<in> reach xo xl yo yl k")
  case True
  show ?thesis
  proof (rule ccontr)
    assume no: "\<not> ?thesis"
    with inv e(1) True have "f e - 1 \<le> f (e - 2)"
      unfolding front_inv_def by (meson not_le)
    moreover from True e(1) have "0 < k" by (simp add: ring_iff)
    with j have "0 \<le> j" by auto
    with True e have "e - 2 \<in> ring (xo - yl) (xl - yo) (xl - yl) j" by (simp add: ring_iff)
    with un True have "f (e - 2) < xl" by (auto simp: unmet_def)
    ultimately show False using no by linarith
  qed
next
  case False
  from e j box have "xo - yl \<le> e - 2" by auto
  with False e(1) have "e - 2 < xo - yo - k" by (auto simp: ring_iff)
  with e(1) have "e = xo - yo - k" by (rule ring_parity_bot)
  with inv e(1) show ?thesis by (auto simp: front_inv_def)
qed

text \<open>
  A new point on a diagonal that both searches have reached is in the box, and it is not the
  far corner when the last elements differ.
\<close>

lemma front_meet:
  assumes box: "xo < xl" "yo < yl" "0 \<le> k"
    and inv: "front_inv xo xl yo yl k f" and mar: "margins xo xl yo yl k f"
    and un: "unmet xo xl yo yl k j f" and j: "j = k \<or> j = k - 1"
    and start: "k = 0 \<longrightarrow> f (xo - yo) = xo"
    and d: "d \<in> reach xo xl yo yl (k + 1)" "d \<in> ring (xo - yl) (xl - yo) (xl - yl) (j + 1)"
    and x: "x = extend_point eq xl yl f d"
  shows "x \<le> xl \<and> x - d \<le> yl \<and> (\<not> eq (xl - 1) (yl - 1) \<longrightarrow> \<not> (x = xl \<and> x - d = yl))"
proof -
  let ?S = "reach xo xl yo yl k" and ?B = "ring (xo - yl) (xl - yo) (xl - yl) j"
  let ?x0 = "max (f (d - 1) + 1) (f (d + 1))"
  have j1: "- 1 \<le> j" using j box by auto
  have start': "e = xo - yo \<and> f e = xo" if "e \<in> ?S" "j < 0" for e
  proof -
    have "k = 0" using that j box by auto
    moreover have "reach xo xl yo yl 0 = {xo - yo}" using box by (intro ring_0) auto
    ultimately show ?thesis using that start by simp
  qed
  from extend_point_spec [OF refl x] consider "?x0 < x" "x \<le> xl \<and> x - d \<le> yl \<and> eq (x - 1) (x - d - 1)"
    | "x = ?x0" by linarith
  then show ?thesis
  proof cases
    case 1
    then show ?thesis by auto
  next
    case 2
    from front_pred [OF box inv mar d(1) 2] consider
      (h) "d - 1 \<in> ?S" "x = f (d - 1) + 1" | (v) "d + 1 \<in> ?S" "x = f (d + 1)" by blast
    then show ?thesis
    proof cases
      case h
      show ?thesis
      proof (cases "d - 1 \<in> ?B")
        case True
        with un h(1) have "f (d - 1) < xl \<and> f (d - 1) - (d - 1) < yl" by (auto simp: unmet_def)
        with h(2) show ?thesis by linarith
      next
        case False
        from h(1) have "xo - yl \<le> d - 1" by (simp add: ring_iff)
        with d(2) False j1 have dj: "d = xl - yl - j - 1" by (intro ring_left_edge)
        then have "f (d - 1) - (d - 1) \<le> yl"
          using left_edge_in_box [OF box inv un j h(1)] by simp
        with h(2) dj j1 start' [OF h(1)] box show ?thesis by auto
      qed
    next
      case v
      show ?thesis
      proof (cases "d + 1 \<in> ?B")
        case True
        with un v(1) have "f (d + 1) < xl \<and> f (d + 1) - (d + 1) < yl" by (auto simp: unmet_def)
        with v(2) show ?thesis by linarith
      next
        case False
        from v(1) have "d + 1 \<le> xl - yo" by (simp add: ring_iff)
        with d(2) False j1 have dj: "d = xl - yl + j + 1" by (intro ring_right_edge)
        then have "f (d + 1) \<le> xl"
          using right_edge_in_box [OF box inv un j v(1)] by simp
        with v(2) dj j1 start' [OF v(1)] box show ?thesis by auto
      qed
    qed
  qed
qed

text \<open>The searches cannot stay apart for longer than the box is wide and high.\<close>

lemma unmet_bound:
  assumes box: "xo < xl" "yo < yl" and inv: "front_inv xo xl yo yl k f"
    and un: "unmet xo xl yo yl k j f" and j: "j = k \<or> j = k - 1"
    and par: "even (xo - yo + k - (xl - yl) - j)"
  shows "k \<le> xl - xo + (yl - yo)"
proof (rule ccontr)
  assume no: "\<not> ?thesis"
  let ?d = "if even k then xo - yo else xo - yo + 1"
  have d: "?d \<in> reach xo xl yo yl k"
    using no box by (auto simp: ring_iff)
  moreover have "?d \<in> ring (xo - yl) (xl - yo) (xl - yl) j"
  proof -
    have "even (?d - (xl - yl) - j)" using par by presburger
    then show ?thesis using no box j by (auto simp: ring_iff)
  qed
  ultimately have "f ?d < xl \<and> f ?d - ?d < yl" using un by (auto simp: unmet_def)
  moreover have "xo + yo + k \<le> 2 * f ?d - ?d" using inv d by (auto simp: front_inv_def)
  ultimately show False using no by linarith
qed

end
