(* ===== verification/Passes.thy ===== *)
theory Passes
  imports Frontier
begin

text \<open>
  The two passes over the diagonals of one iteration of \<open>diag\<close>, described by the point they
  compute on each diagonal, and the limits of the searches. The bottom-up pass is translated
  to the top-down one by mirroring the box.
\<close>

section \<open>The two passes\<close>

definition retract_point :: "(int \<Rightarrow> int \<Rightarrow> bool) \<Rightarrow> int \<Rightarrow> int \<Rightarrow> (int \<Rightarrow> int) \<Rightarrow> int \<Rightarrow> int" where
  "retract_point eq xo yo f d =
     (let x0 = min (f (d - 1)) (f (d + 1) - 1) in fst (slide_bwd eq xo yo x0 (x0 - d)))"

definition mirror_eq :: "(int \<Rightarrow> int \<Rightarrow> bool) \<Rightarrow> int \<Rightarrow> int \<Rightarrow> bool" where
  "mirror_eq eq x y = eq (- x - 1) (- y - 1)"

definition flip :: "(int \<Rightarrow> int) \<Rightarrow> int \<Rightarrow> int" where
  "flip f d = - f (- d)"

lemma slide_bwd_mirror:
  "slide_bwd eq xo yo x y =
     (case slide_fwd (mirror_eq eq) (- xo) (- yo) (- x) (- y) of (a, b) \<Rightarrow> (- a, - b))"
proof (induction eq xo yo x y rule: slide_bwd.induct)
  case (1 eq xo yo x y)
  have m: "mirror_eq eq (- x) (- y) = eq (x - 1) (y - 1)" by (simp add: mirror_eq_def)
  show ?case
  proof (cases "xo < x \<and> yo < y \<and> eq (x - 1) (y - 1)")
    case True
    then show ?thesis
      using "1.IH" m
      by (simp add: slide_bwd.simps [of eq xo yo x y]
          slide_fwd.simps [of "mirror_eq eq" "- xo" "- yo" "- x" "- y"])
  next
    case False
    then show ?thesis
      using m
      by (auto simp: slide_bwd.simps [of eq xo yo x y]
          slide_fwd.simps [of "mirror_eq eq" "- xo" "- yo" "- x" "- y"])
  qed
qed

lemma retract_point_mirror:
  "retract_point eq xo yo f d = - extend_point (mirror_eq eq) (- xo) (- yo) (flip f) (- d)"
proof -
  let ?x0 = "min (f (d - 1)) (f (d + 1) - 1)"
  have "flip f (- d - 1) = - f (d + 1)" "flip f (- d + 1) = - f (d - 1)"
    by (simp_all add: flip_def add.commute)
  then have "max (flip f (- d - 1) + 1) (flip f (- d + 1)) = - ?x0"
    by simp
  then show ?thesis
    by (simp add: retract_point_def extend_point_def Let_def slide_bwd_mirror split: prod.split)
qed

lemma extend_point_upd:
  "even (d - e) \<Longrightarrow> extend_point eq xl yl (f(d := x)) e = extend_point eq xl yl f e"
  by (subgoal_tac "d \<noteq> e - 1 \<and> d \<noteq> e + 1") (auto simp: extend_point_def)

lemma retract_point_upd:
  "even (d - e) \<Longrightarrow> retract_point eq xo yo (f(d := x)) e = retract_point eq xo yo f e"
  by (subgoal_tac "d \<noteq> e - 1 \<and> d \<noteq> e + 1") (auto simp: retract_point_def)

definition on_pass :: "int \<Rightarrow> int \<Rightarrow> int \<Rightarrow> bool" where
  "on_pass lo d e \<longleftrightarrow> lo \<le> e \<and> e \<le> d \<and> even (d - e)"

lemma on_pass_step:
  "lo \<le> d \<Longrightarrow> on_pass lo d e \<longleftrightarrow> e = d \<or> on_pass lo (d - 2) e"
  unfolding on_pass_def by presburger

lemma fwd_pass_spec:
  assumes "fwd_pass eq xl yl is_odd lo hi bdv dlow d f big = (r, f', big')"
  shows "(\<forall>e. \<not> on_pass dlow d e \<longrightarrow> f' e = f e) \<and>
    (case r of
       None \<Rightarrow> \<forall>e. on_pass dlow d e \<longrightarrow> f' e = extend_point eq xl yl f e \<and>
                 \<not> (is_odd \<and> lo \<le> e \<and> e \<le> hi \<and> bdv e \<le> f' e)
     | Some (x, y) \<Rightarrow> \<exists>e. on_pass dlow d e \<and> is_odd \<and> lo \<le> e \<and> e \<le> hi \<and> bdv e \<le> x \<and>
                 x = extend_point eq xl yl f e \<and> y = x - e)"
  using assms
proof (induction eq xl yl is_odd lo hi bdv dlow d f big rule: fwd_pass.induct)
  case (1 eq xl yl is_odd lo hi bdv dlow d f big)
  show ?case
  proof (cases "dlow \<le> d")
    case False
    with "1.prems" show ?thesis
      by (auto simp: fwd_pass.simps [of _ _ _ _ _ _ _ dlow d] on_pass_def)
  next
    case True
    define x0 where "x0 = (if f (d - 1) < f (d + 1) then f (d + 1) else f (d - 1) + 1)"
    obtain x y where s: "slide_fwd eq xl yl x0 (x0 - d) = (x, y)" by fastforce
    have x: "x = extend_point eq xl yl f d"
    proof -
      have "x0 = max (f (d - 1) + 1) (f (d + 1))" by (auto simp: x0_def)
      with s show ?thesis by (simp add: extend_point_def Let_def)
    qed
    have y: "y = x - d" using slide_fwd_spec [OF s] by linarith
    have unf: "fwd_pass eq xl yl is_odd lo hi bdv dlow d f big =
        (if is_odd \<and> lo \<le> d \<and> d \<le> hi \<and> bdv d \<le> x
         then (Some (x, y), f(d := x), big \<or> SNAKE_LIMIT < x - x0)
         else fwd_pass eq xl yl is_odd lo hi bdv dlow (d - 2) (f(d := x))
                (big \<or> SNAKE_LIMIT < x - x0))"
      by (subst fwd_pass.simps) (simp only: Let_def True s if_True prod.case flip: x0_def)
    show ?thesis
    proof (cases "is_odd \<and> lo \<le> d \<and> d \<le> hi \<and> bdv d \<le> x")
      case meet: True
      with "1.prems" unf have "r = Some (x, y)" "f' = f(d := x)" by simp_all
      with meet x y True show ?thesis by (auto simp: on_pass_def)
    next
      case no: False
      with "1.prems" unf
      have rec: "fwd_pass eq xl yl is_odd lo hi bdv dlow (d - 2) (f(d := x))
          (big \<or> SNAKE_LIMIT < x - x0) = (r, f', big')" by simp
      note IH = "1.IH" [OF True refl refl x0_def s [symmetric] refl refl refl no rec]
      have eqp: "extend_point eq xl yl (f(d := x)) e = extend_point eq xl yl f e"
        if "on_pass dlow (d - 2) e" for e
        by (rule extend_point_upd) (use that in \<open>simp add: on_pass_def\<close>)
      have d2: "\<not> on_pass dlow (d - 2) d" by (simp add: on_pass_def)
      have fd: "f' d = x" using IH d2 by simp
      show ?thesis
        unfolding on_pass_step [OF True]
        using IH eqp fd x no d2 by (cases r) (auto split: prod.splits)
    qed
  qed
qed

lemma slide_bwd_diag: "slide_bwd eq xo yo x y = (x', y') \<Longrightarrow> x' - y' = x - y"
  using slide_fwd_spec [of "mirror_eq eq" "- xo" "- yo" "- x" "- y"]
  by (auto simp: slide_bwd_mirror split: prod.splits)

lemma bwd_pass_spec:
  assumes "bwd_pass eq xo yo is_odd lo hi fdv dlow d f big = (r, f', big')"
  shows "(\<forall>e. \<not> on_pass dlow d e \<longrightarrow> f' e = f e) \<and>
    (case r of
       None \<Rightarrow> \<forall>e. on_pass dlow d e \<longrightarrow> f' e = retract_point eq xo yo f e \<and>
                 \<not> (\<not> is_odd \<and> lo \<le> e \<and> e \<le> hi \<and> f' e \<le> fdv e)
     | Some (x, y) \<Rightarrow> \<exists>e. on_pass dlow d e \<and> \<not> is_odd \<and> lo \<le> e \<and> e \<le> hi \<and> x \<le> fdv e \<and>
                 x = retract_point eq xo yo f e \<and> y = x - e)"
  using assms
proof (induction eq xo yo is_odd lo hi fdv dlow d f big rule: bwd_pass.induct)
  case (1 eq xo yo is_odd lo hi fdv dlow d f big)
  show ?case
  proof (cases "dlow \<le> d")
    case False
    with "1.prems" show ?thesis
      by (auto simp: bwd_pass.simps [of _ _ _ _ _ _ _ dlow d] on_pass_def)
  next
    case True
    define x0 where "x0 = (if f (d - 1) < f (d + 1) then f (d - 1) else f (d + 1) - 1)"
    obtain x y where s: "slide_bwd eq xo yo x0 (x0 - d) = (x, y)" by fastforce
    have x: "x = retract_point eq xo yo f d"
    proof -
      have "x0 = min (f (d - 1)) (f (d + 1) - 1)" by (auto simp: x0_def)
      with s show ?thesis by (simp add: retract_point_def Let_def)
    qed
    have y: "y = x - d" using slide_bwd_diag [OF s] by linarith
    have unf: "bwd_pass eq xo yo is_odd lo hi fdv dlow d f big =
        (if \<not> is_odd \<and> lo \<le> d \<and> d \<le> hi \<and> x \<le> fdv d
         then (Some (x, y), f(d := x), big \<or> SNAKE_LIMIT < x0 - x)
         else bwd_pass eq xo yo is_odd lo hi fdv dlow (d - 2) (f(d := x))
                (big \<or> SNAKE_LIMIT < x0 - x))"
      by (subst bwd_pass.simps) (simp only: Let_def True s if_True prod.case flip: x0_def)
    show ?thesis
    proof (cases "\<not> is_odd \<and> lo \<le> d \<and> d \<le> hi \<and> x \<le> fdv d")
      case meet: True
      with "1.prems" unf have "r = Some (x, y)" "f' = f(d := x)" by simp_all
      with meet x y True show ?thesis by (auto simp: on_pass_def)
    next
      case no: False
      with "1.prems" unf
      have rec: "bwd_pass eq xo yo is_odd lo hi fdv dlow (d - 2) (f(d := x))
          (big \<or> SNAKE_LIMIT < x0 - x) = (r, f', big')" by simp
      note IH = "1.IH" [OF True refl refl x0_def s [symmetric] refl refl refl no rec]
      have eqp: "retract_point eq xo yo (f(d := x)) e = retract_point eq xo yo f e"
        if "on_pass dlow (d - 2) e" for e
        by (rule retract_point_upd) (use that in \<open>simp add: on_pass_def\<close>)
      have d2: "\<not> on_pass dlow (d - 2) d" by (simp add: on_pass_def)
      have fd: "f' d = x" using IH d2 by simp
      show ?thesis
        unfolding on_pass_step [OF True]
        using IH eqp fd x no d2 by (cases r) (auto split: prod.splits)
    qed
  qed
qed

section \<open>The limits of the searches\<close>

lemma extend_fwd_sel:
  "fmin (extend_fwd dmin dmax s) = (if dmin < fmin s then fmin s - 1 else fmin s + 1)"
  "fmax (extend_fwd dmin dmax s) = (if fmax s < dmax then fmax s + 1 else fmax s - 1)"
  "bmin (extend_fwd dmin dmax s) = bmin s" "bmax (extend_fwd dmin dmax s) = bmax s"
  "bd (extend_fwd dmin dmax s) = bd s"
  by (simp_all add: extend_fwd_def Let_def)

lemma extend_bwd_sel:
  "bmin (extend_bwd dmin dmax s) = (if dmin < bmin s then bmin s - 1 else bmin s + 1)"
  "bmax (extend_bwd dmin dmax s) = (if bmax s < dmax then bmax s + 1 else bmax s - 1)"
  "fmin (extend_bwd dmin dmax s) = fmin s" "fmax (extend_bwd dmin dmax s) = fmax s"
  "fd (extend_bwd dmin dmax s) = fd s"
  by (simp_all add: extend_bwd_def Let_def)

lemma extend_fwd_fd:
  "fd (extend_fwd dmin dmax s) e =
     (if (dmin < fmin s \<and> e = fmin s - 2) \<or> (fmax s < dmax \<and> e = fmax s + 2) then - 1 else fd s e)"
  by (simp add: extend_fwd_def Let_def)

lemma extend_bwd_bd:
  "bd (extend_bwd dmin dmax s) e =
     (if (dmin < bmin s \<and> e = bmin s - 2) \<or> (bmax s < dmax \<and> e = bmax s + 2) then OFFSET_MAX
      else bd s e)"
  by (simp add: extend_bwd_def Let_def)

text \<open>
  A vector that agrees with the old one on the ring, and holds a value below \<open>low\<close> next to
  the limits wherever they move outwards, has the margins that the next pass needs.
\<close>

lemma margins_from_limits:
  assumes "ring_limits dmin dmax m k lo hi"
    and "dmin = xo - yl" "dmax = xl - yo" "m = xo - yo"
    and "dmin < lo \<longrightarrow> f (lo - 2) < xo" "hi < dmax \<longrightarrow> f (hi + 2) < xo"
  shows "margins xo xl yo yl k f"
  unfolding margins_def
proof
  fix d assume d: "d \<in> reach xo xl yo yl (k + 1)"
  from assms(1) have ev: "even (lo - m - k)" "even (hi - m - k)" and b: "m - k \<le> lo" "hi \<le> m + k"
      "lo = m - k \<or> lo \<le> dmin + 1" "hi = m + k \<or> dmax - 1 \<le> hi" "lo \<le> hi"
    unfolding ring_limits_def by blast+
  from d assms(2-4) have r: "dmin \<le> d" "d \<le> dmax" "m - k - 1 \<le> d" "d \<le> m + k + 1" "even (d - m - (k + 1))"
    by (auto simp: ring_iff)
  have in_ring: "e \<in> reach xo xl yo yl k \<longleftrightarrow> lo \<le> e \<and> e \<le> hi" if "e = d - 1 \<or> e = d + 1" for e
    using ring_limits_iff [OF assms(1), of e] assms(2-4) that ev r(5) by (auto; presburger)
  have "d - 1 = lo - 2 \<and> dmin < lo" if "d - 1 < lo"
    using that r b ev by presburger
  moreover have "d + 1 = hi + 2 \<and> hi < dmax" if "hi < d + 1"
    using that r b ev by presburger
  moreover have "d - 1 \<le> hi" "lo \<le> d + 1"
    using r b ev by presburger+
  ultimately show "(d - 1 \<in> reach xo xl yo yl k \<or> f (d - 1) < xo) \<and>
      (d + 1 \<in> reach xo xl yo yl k \<or> f (d + 1) < xo)"
    using in_ring [of "d - 1"] in_ring [of "d + 1"] assms(5,6) by (metis not_le_imp_less)
qed

end
