(* ===== verification/Diag.thy ===== *)
theory Diag
  imports Passes
begin

text \<open>
  The search for a midpoint returns, and returns a point of the box that splits it into two
  smaller problems. The invariant of the loop is the invariant of both searches together
  with the fact that they have not met.
\<close>

section \<open>One pass of each search\<close>

text \<open>The diagonals of the bottom-up search, and its invariant by mirroring the box.\<close>

abbreviation breach :: "int \<Rightarrow> int \<Rightarrow> int \<Rightarrow> int \<Rightarrow> int \<Rightarrow> int set" where
  "breach xo xl yo yl k \<equiv> ring (xo - yl) (xl - yo) (xl - yl) k"

definition back_inv :: "int \<Rightarrow> int \<Rightarrow> int \<Rightarrow> int \<Rightarrow> int \<Rightarrow> (int \<Rightarrow> int) \<Rightarrow> bool" where
  "back_inv xo xl yo yl k b \<longleftrightarrow> front_inv (- xl) (- xo) (- yl) (- yo) k (flip b)"

definition back_margins :: "int \<Rightarrow> int \<Rightarrow> int \<Rightarrow> int \<Rightarrow> int \<Rightarrow> (int \<Rightarrow> int) \<Rightarrow> bool" where
  "back_margins xo xl yo yl k b \<longleftrightarrow> margins (- xl) (- xo) (- yl) (- yo) k (flip b)"

definition back_unmet :: "int \<Rightarrow> int \<Rightarrow> int \<Rightarrow> int \<Rightarrow> int \<Rightarrow> int \<Rightarrow> (int \<Rightarrow> int) \<Rightarrow> bool" where
  "back_unmet xo xl yo yl k j b \<longleftrightarrow> unmet (- xl) (- xo) (- yl) (- yo) k j (flip b)"

lemma reach_mirror:
  "d \<in> reach (- xl) (- xo) (- yl) (- yo) k \<longleftrightarrow> - d \<in> breach xo xl yo yl k"
  using ring_mirror [of "- d" "xl - yo" "xo - yl" "xl - yl" k] by simp

lemma breach_mirror:
  "d \<in> ring (- xl - - yo) (- xo - - yl) (- xo - - yo) k \<longleftrightarrow> - d \<in> reach xo xl yo yl k"
  using ring_mirror [of "- d" "xl - yo" "xo - yl" "xo - yo" k] by simp

lemma flip_minus [simp]: "flip f (- d) = - f d"
  by (simp add: flip_def)

lemma mirror_eq_corner: "mirror_eq eq (- xo - 1) (- yo - 1) = eq xo yo"
  by (simp add: mirror_eq_def)

lemma front_low:
  "front_inv xo xl yo yl k f \<Longrightarrow> d \<in> reach xo xl yo yl k \<Longrightarrow>
     xo \<le> f d \<and> yo \<le> f d - d \<and> xo + yo + k \<le> 2 * f d - d"
  by (auto simp: front_inv_def)

lemma back_high:
  assumes "back_inv xo xl yo yl k b" "d \<in> breach xo xl yo yl k"
  shows "b d \<le> xl \<and> b d - d \<le> yl \<and> 2 * b d - d \<le> xl + yl - k"
proof -
  have "- d \<in> reach (- xl) (- xo) (- yl) (- yo) k"
    using assms(2) by (subst reach_mirror) simp
  from front_low [OF assms(1) [unfolded back_inv_def] this] show ?thesis by simp
qed

text \<open>A new point of the top-down search on a common diagonal is a proper midpoint.\<close>

definition inner_point :: "int \<Rightarrow> int \<Rightarrow> int \<Rightarrow> int \<Rightarrow> int \<Rightarrow> int \<Rightarrow> bool" where
  "inner_point xo xl yo yl x y \<longleftrightarrow>
     xo \<le> x \<and> x \<le> xl \<and> yo \<le> y \<and> y \<le> yl \<and> xo + yo < x + y \<and> x + y < xl + yl"

lemma front_meet_inner:
  assumes box: "xo < xl" "yo < yl" "0 \<le> k"
    and inv: "front_inv xo xl yo yl k f" and mar: "margins xo xl yo yl k f"
    and un: "unmet xo xl yo yl k j f" and j: "j = k \<or> j = k - 1"
    and start: "k = 0 \<longrightarrow> f (xo - yo) = xo" and neq: "\<not> eq (xl - 1) (yl - 1)"
    and d: "d \<in> reach xo xl yo yl (k + 1)" "d \<in> ring (xo - yl) (xl - yo) (xl - yl) (j + 1)"
    and x: "x = extend_point eq xl yl f d"
  shows "inner_point xo xl yo yl x (x - d)"
proof -
  have "front_inv xo xl yo yl (k + 1) (extend_point eq xl yl f)"
    by (rule front_step [OF box inv mar, where eq = eq]) simp
  from front_low [OF this d(1)] x
  have "xo \<le> x" "yo \<le> x - d" "xo + yo + (k + 1) \<le> 2 * x - d" by auto
  moreover have "x \<le> xl" "x - d \<le> yl" "\<not> (x = xl \<and> x - d = yl)"
    using front_meet [OF box inv mar un j start d x] neq by auto
  ultimately show ?thesis using box by (auto simp: inner_point_def)
qed

lemma back_meet_inner:
  assumes box: "xo < xl" "yo < yl" "0 \<le> k"
    and inv: "back_inv xo xl yo yl k b" and mar: "back_margins xo xl yo yl k b"
    and un: "back_unmet xo xl yo yl k j b" and j: "j = k \<or> j = k - 1"
    and start: "k = 0 \<longrightarrow> b (xl - yl) = xl" and neq: "\<not> eq xo yo"
    and d: "d \<in> breach xo xl yo yl (k + 1)" "d \<in> reach xo xl yo yl (j + 1)"
    and x: "x = retract_point eq xo yo b d"
  shows "inner_point xo xl yo yl x (x - d)"
proof -
  have "inner_point (- xl) (- xo) (- yl) (- yo) (- x) (- x - - d)"
  proof (rule front_meet_inner)
    show "front_inv (- xl) (- xo) (- yl) (- yo) k (flip b)"
      "margins (- xl) (- xo) (- yl) (- yo) k (flip b)"
      "unmet (- xl) (- xo) (- yl) (- yo) k j (flip b)"
      using inv mar un by (simp_all add: back_inv_def back_margins_def back_unmet_def)
    show "k = 0 \<longrightarrow> flip b (- xl - - yl) = - xl"
      using start by (simp add: flip_def)
    show "- d \<in> reach (- xl) (- xo) (- yl) (- yo) (k + 1)"
      using d(1) by (subst reach_mirror) simp
    show "- d \<in> ring (- xl - - yo) (- xo - - yl) (- xo - - yo) (j + 1)"
      using d(2) by (subst breach_mirror) simp
    show "- x = extend_point (mirror_eq eq) (- xo) (- yo) (flip b) (- d)"
      using x by (simp add: retract_point_mirror)
    show "\<not> mirror_eq eq (- xo - 1) (- yo - 1)" using neq by (simp add: mirror_eq_corner)
  qed (use box j in auto)
  then show ?thesis by (auto simp: inner_point_def)
qed

lemma back_step:
  assumes box: "xo < xl" "yo < yl" "0 \<le> k"
    and inv: "back_inv xo xl yo yl k b" and mar: "back_margins xo xl yo yl k b"
    and new: "\<forall>d \<in> breach xo xl yo yl (k + 1). b' d = retract_point eq xo yo b d"
  shows "back_inv xo xl yo yl (k + 1) b'"
  unfolding back_inv_def
proof (rule front_step)
  show "front_inv (- xl) (- xo) (- yl) (- yo) k (flip b)"
    "margins (- xl) (- xo) (- yl) (- yo) k (flip b)"
    using inv mar by (simp_all add: back_inv_def back_margins_def)
  show "\<forall>d \<in> reach (- xl) (- xo) (- yl) (- yo) (k + 1).
      flip b' d = extend_point (mirror_eq eq) (- xo) (- yo) (flip b) d"
  proof
    fix d assume "d \<in> reach (- xl) (- xo) (- yl) (- yo) (k + 1)"
    then have "- d \<in> breach xo xl yo yl (k + 1)" by (subst (asm) reach_mirror)
    with new have "b' (- d) = retract_point eq xo yo b (- d)" by blast
    then show "flip b' d = extend_point (mirror_eq eq) (- xo) (- yo) (flip b) d"
      by (simp add: flip_def retract_point_mirror)
  qed
qed (use box in auto)

text \<open>A pass visits the diagonals of a ring.\<close>

lemma on_pass_ring:
  "ring_limits dmin dmax m k lo hi \<Longrightarrow> on_pass lo hi e \<longleftrightarrow> e \<in> ring dmin dmax m k"
  by (auto simp: on_pass_def ring_limits_iff)

lemma unmet_cong:
  "unmet xo xl yo yl k j f \<Longrightarrow> \<forall>d \<in> reach xo xl yo yl k. g d = f d \<Longrightarrow> unmet xo xl yo yl k j g"
  by (auto simp: unmet_def)

lemma back_cong:
  assumes "\<forall>d \<in> breach xo xl yo yl k. g d = b d"
  shows "back_inv xo xl yo yl k b \<Longrightarrow> back_inv xo xl yo yl k g"
    and "back_unmet xo xl yo yl k j b \<Longrightarrow> back_unmet xo xl yo yl k j g"
proof -
  have *: "\<forall>d \<in> reach (- xl) (- xo) (- yl) (- yo) k. flip g d = flip b d"
  proof
    fix d assume "d \<in> reach (- xl) (- xo) (- yl) (- yo) k"
    then have "- d \<in> breach xo xl yo yl k" by (subst (asm) reach_mirror)
    with assms show "flip g d = flip b d" by (simp add: flip_def)
  qed
  show "back_inv xo xl yo yl k b \<Longrightarrow> back_inv xo xl yo yl k g"
    unfolding back_inv_def by (rule front_inv_cong [OF _ *])
  show "back_unmet xo xl yo yl k j b \<Longrightarrow> back_unmet xo xl yo yl k j g"
    unfolding back_unmet_def by (rule unmet_cong [OF _ *])
qed

definition fwd_ok :: "int \<Rightarrow> int \<Rightarrow> int \<Rightarrow> int \<Rightarrow> int \<Rightarrow> search \<Rightarrow> bool" where
  "fwd_ok xo xl yo yl k s \<longleftrightarrow>
     ring_limits (xo - yl) (xl - yo) (xo - yo) k (fmin s) (fmax s) \<and>
     front_inv xo xl yo yl k (fd s) \<and> (k = 0 \<longrightarrow> fd s (xo - yo) = xo)"

definition bwd_ok :: "int \<Rightarrow> int \<Rightarrow> int \<Rightarrow> int \<Rightarrow> int \<Rightarrow> search \<Rightarrow> bool" where
  "bwd_ok xo xl yo yl k s \<longleftrightarrow>
     ring_limits (xo - yl) (xl - yo) (xl - yl) k (bmin s) (bmax s) \<and>
     back_inv xo xl yo yl k (bd s) \<and> (k = 0 \<longrightarrow> bd s (xl - yl) = xl)"

abbreviation odd_diff :: "int \<Rightarrow> int \<Rightarrow> int \<Rightarrow> int \<Rightarrow> bool" where
  "odd_diff xo xl yo yl \<equiv> ((xo - yo) - (xl - yl)) mod 2 = 1"

definition diag_inv :: "int \<Rightarrow> int \<Rightarrow> int \<Rightarrow> int \<Rightarrow> int \<Rightarrow> search \<Rightarrow> bool" where
  "diag_inv xo xl yo yl k s \<longleftrightarrow> fwd_ok xo xl yo yl k s \<and> bwd_ok xo xl yo yl k s \<and>
     (odd_diff xo xl yo yl \<longrightarrow> unmet xo xl yo yl k (k - 1) (fd s)) \<and>
     (\<not> odd_diff xo xl yo yl \<longrightarrow> back_unmet xo xl yo yl k k (bd s))"

text \<open>Moving the limits keeps the points and gives the margins.\<close>

lemma extend_fwd_ok:
  assumes box: "0 \<le> xo" "xo < xl" "yo < yl" "0 \<le> k" and ok: "fwd_ok xo xl yo yl k s"
    and s1: "s1 = extend_fwd (xo - yl) (xl - yo) s"
  shows "ring_limits (xo - yl) (xl - yo) (xo - yo) (k + 1) (fmin s1) (fmax s1)"
    and "\<forall>d \<in> reach xo xl yo yl k. fd s1 d = fd s d"
    and "margins xo xl yo yl k (fd s1)"
proof -
  from ok have lim: "ring_limits (xo - yl) (xl - yo) (xo - yo) k (fmin s) (fmax s)"
    by (simp add: fwd_ok_def)
  show "ring_limits (xo - yl) (xl - yo) (xo - yo) (k + 1) (fmin s1) (fmax s1)"
    unfolding s1 extend_fwd_sel by (rule ring_limits_step [OF lim]) (use box in auto)
  show "\<forall>d \<in> reach xo xl yo yl k. fd s1 d = fd s d"
    by (auto simp: s1 extend_fwd_fd ring_limits_iff [OF lim])
  show "margins xo xl yo yl k (fd s1)"
    by (rule margins_from_limits [OF lim refl refl refl]) (use box in \<open>auto simp: s1 extend_fwd_fd\<close>)
qed

lemma ring_limits_mirror:
  assumes "ring_limits dmin dmax m k lo hi"
  shows "ring_limits (- dmax) (- dmin) (- m) k (- hi) (- lo)"
proof -
  from assms have "even (- hi + m - k)" "even (- lo + m - k)"
    unfolding ring_limits_def by presburger+
  with assms show ?thesis by (auto simp: ring_limits_def)
qed

lemma extend_bwd_ok:
  assumes box: "xl < OFFSET_MAX" "xo < xl" "yo < yl" "0 \<le> k" and ok: "bwd_ok xo xl yo yl k s"
    and s1: "s1 = extend_bwd (xo - yl) (xl - yo) s"
  shows "ring_limits (xo - yl) (xl - yo) (xl - yl) (k + 1) (bmin s1) (bmax s1)"
    and "\<forall>d \<in> breach xo xl yo yl k. bd s1 d = bd s d"
    and "back_margins xo xl yo yl k (bd s1)"
proof -
  from ok have lim: "ring_limits (xo - yl) (xl - yo) (xl - yl) k (bmin s) (bmax s)"
    by (simp add: bwd_ok_def)
  show "ring_limits (xo - yl) (xl - yo) (xl - yl) (k + 1) (bmin s1) (bmax s1)"
    unfolding s1 extend_bwd_sel by (rule ring_limits_step [OF lim]) (use box in auto)
  show "\<forall>d \<in> breach xo xl yo yl k. bd s1 d = bd s d"
    by (auto simp: s1 extend_bwd_bd ring_limits_iff [OF lim])
  show "back_margins xo xl yo yl k (bd s1)"
    unfolding back_margins_def
    by (rule margins_from_limits [OF ring_limits_mirror [OF lim]])
      (use box in \<open>auto simp: s1 extend_bwd_bd flip_def\<close>)
qed

lemma odd_diff_ring:
  assumes "e \<in> reach xo xl yo yl k" "ring_limits (xo - yl) (xl - yo) (xl - yl) j lo hi"
    "lo \<le> e" "e \<le> hi" "even (xo - yo + k - (xl - yl) - j)"
  shows "e \<in> breach xo xl yo yl j"
proof -
  from assms have "even (hi - (xl - yl) - j)" "even (e - (xo - yo) - k)"
    unfolding ring_limits_def ring_iff by blast+
  with assms(5) have "even (hi - e)" by presburger
  with assms(3,4) show ?thesis by (simp add: ring_limits_iff [OF assms(2)])
qed

lemma fwd_phase:
  assumes box: "0 \<le> xo" "xo < xl" "yo < yl" "0 \<le> k" and inv: "diag_inv xo xl yo yl k s"
    and neq: "\<not> eq (xl - 1) (yl - 1)"
    and s1: "s1 = extend_fwd (xo - yl) (xl - yo) s"
    and pass: "fwd_pass eq xl yl (odd_diff xo xl yo yl) (bmin s1) (bmax s1) (bd s1)
      (fmin s1) (fmax s1) (fd s1) False = (r, fd1, big)"
  shows "case r of
      None \<Rightarrow> fwd_ok xo xl yo yl (k + 1) (s1\<lparr>fd := fd1\<rparr>) \<and>
              (odd_diff xo xl yo yl \<longrightarrow> unmet xo xl yo yl (k + 1) k fd1)
    | Some (x, y) \<Rightarrow> inner_point xo xl yo yl x y"
proof -
  from inv have f: "fwd_ok xo xl yo yl k s" and b: "bwd_ok xo xl yo yl k s"
    and un: "odd_diff xo xl yo yl \<longrightarrow> unmet xo xl yo yl k (k - 1) (fd s)"
    by (simp_all add: diag_inv_def)
  note e = extend_fwd_ok [OF box f s1]
  note visit = on_pass_ring [OF e(1)]
  have start: "k = 0 \<longrightarrow> fd s1 (xo - yo) = xo"
    using f e(2) box ring_0 [of "xo - yl" "xo - yo" "xl - yo"] by (auto simp: fwd_ok_def)
  have finv: "front_inv xo xl yo yl k (fd s1)"
    using f by (intro front_inv_cong [OF _ e(2)]) (simp add: fwd_ok_def)
  have same: "bmin s1 = bmin s" "bmax s1 = bmax s" "bd s1 = bd s"
    by (simp_all add: s1 extend_fwd_sel)
  have common: "d \<in> breach xo xl yo yl k"
    if "odd_diff xo xl yo yl" "d \<in> reach xo xl yo yl (k + 1)" "bmin s1 \<le> d" "d \<le> bmax s1" for d
  proof (rule odd_diff_ring [OF that(2)])
    show "ring_limits (xo - yl) (xl - yo) (xl - yl) k (bmin s1) (bmax s1)"
      using b same by (simp add: bwd_ok_def)
    show "even (xo - yo + (k + 1) - (xl - yl) - k)" using that(1) by presburger
  qed (use that in auto)
  note spec = fwd_pass_spec [OF pass, unfolded visit]
  show ?thesis
  proof (cases r)
    case None
    from spec have new: "\<forall>d \<in> reach xo xl yo yl (k + 1). fd1 d = extend_point eq xl yl (fd s1) d"
      by (simp add: None)
    have "front_inv xo xl yo yl (k + 1) fd1" by (rule front_step [OF box(2-4) finv e(3) new])
    moreover have "unmet xo xl yo yl (k + 1) k fd1" if od: "odd_diff xo xl yo yl"
      unfolding unmet_def
    proof (intro ballI impI)
      fix d assume d: "d \<in> reach xo xl yo yl (k + 1)" "d \<in> breach xo xl yo yl k"
      with b same have "bmin s1 \<le> d" "d \<le> bmax s1"
        by (auto simp: bwd_ok_def ring_limits_iff)
      with spec od d(1) have "fd1 d < bd s d" by (auto simp: None same)
      moreover have "bd s d \<le> xl \<and> bd s d - d \<le> yl"
        using b d(2) by (auto simp: bwd_ok_def dest: back_high)
      ultimately show "fd1 d < xl \<and> fd1 d - d < yl" by auto
    qed
    ultimately show ?thesis using e(1) box(4) by (simp add: None fwd_ok_def)
  next
    case (Some p)
    obtain x y where p: "p = (x, y)" by fastforce
    with spec Some obtain d where d: "d \<in> reach xo xl yo yl (k + 1)" "odd_diff xo xl yo yl"
      "bmin s1 \<le> d" "d \<le> bmax s1" "x = extend_point eq xl yl (fd s1) d" "y = x - d" by auto
    have un': "unmet xo xl yo yl k (k - 1) (fd s1)" using un d(2) e(2) by (blast intro: unmet_cong)
    have "inner_point xo xl yo yl x (x - d)"
      using common [OF d(2,1,3,4)]
      by (intro front_meet_inner [OF box(2-4) finv e(3) un' _ start neq d(1) _ d(5)]) simp_all
    with d(6) show ?thesis by (simp add: Some p)
  qed
qed

lemma bwd_phase:
  assumes box: "xl < OFFSET_MAX" "xo < xl" "yo < yl" "0 \<le> k"
    and f: "fwd_ok xo xl yo yl (k + 1) s" and b: "bwd_ok xo xl yo yl k s"
    and un: "\<not> odd_diff xo xl yo yl \<longrightarrow> back_unmet xo xl yo yl k k (bd s)"
    and neq: "\<not> eq xo yo"
    and s1: "s1 = extend_bwd (xo - yl) (xl - yo) s"
    and pass: "bwd_pass eq xo yo (odd_diff xo xl yo yl) (fmin s1) (fmax s1) (fd s1)
      (bmin s1) (bmax s1) (bd s1) big0 = (r, bd1, big)"
  shows "case r of
      None \<Rightarrow> bwd_ok xo xl yo yl (k + 1) (s1\<lparr>bd := bd1\<rparr>) \<and>
              (\<not> odd_diff xo xl yo yl \<longrightarrow> back_unmet xo xl yo yl (k + 1) (k + 1) bd1)
    | Some (x, y) \<Rightarrow> inner_point xo xl yo yl x y"
proof -
  note e = extend_bwd_ok [OF box b s1]
  note visit = on_pass_ring [OF e(1)]
  have start: "k = 0 \<longrightarrow> bd s1 (xl - yl) = xl"
    using b e(2) box ring_0 [of "xo - yl" "xl - yl" "xl - yo"] by (auto simp: bwd_ok_def)
  have binv: "back_inv xo xl yo yl k (bd s1)"
    using b by (intro back_cong(1) [OF e(2)]) (simp add: bwd_ok_def)
  have same: "fmin s1 = fmin s" "fmax s1 = fmax s" "fd s1 = fd s"
    by (simp_all add: s1 extend_bwd_sel)
  from f have flim: "ring_limits (xo - yl) (xl - yo) (xo - yo) (k + 1) (fmin s) (fmax s)"
    by (simp add: fwd_ok_def)
  have common: "d \<in> reach xo xl yo yl (k + 1)"
    if "\<not> odd_diff xo xl yo yl" "d \<in> breach xo xl yo yl (k + 1)" "fmin s1 \<le> d" "d \<le> fmax s1" for d
  proof -
    from flim that(2) have "even (fmax s - (xo - yo) - (k + 1))" "even (d - (xl - yl) - (k + 1))"
      unfolding ring_limits_def ring_iff by blast+
    moreover from that(1) have "even ((xo - yo) - (xl - yl))" by presburger
    ultimately have "even (fmax s - d)" by presburger
    with that same show ?thesis by (simp add: ring_limits_iff [OF flim])
  qed
  note spec = bwd_pass_spec [OF pass, unfolded visit]
  show ?thesis
  proof (cases r)
    case None
    from spec have new: "\<forall>d \<in> breach xo xl yo yl (k + 1). bd1 d = retract_point eq xo yo (bd s1) d"
      by (simp add: None)
    have "back_inv xo xl yo yl (k + 1) bd1" by (rule back_step [OF box(2-4) binv e(3) new])
    moreover have "back_unmet xo xl yo yl (k + 1) (k + 1) bd1" if od: "\<not> odd_diff xo xl yo yl"
      unfolding back_unmet_def unmet_def
    proof (intro ballI impI)
      fix d'
      assume d': "d' \<in> reach (- xl) (- xo) (- yl) (- yo) (k + 1)"
        "d' \<in> ring (- xl - - yo) (- xo - - yl) (- xo - - yo) (k + 1)"
      define d where "d = - d'"
      from d'(1) have d1: "d \<in> breach xo xl yo yl (k + 1)"
        unfolding d_def by (subst (asm) reach_mirror)
      from d'(2) have d2: "d \<in> reach xo xl yo yl (k + 1)"
        unfolding d_def by (subst (asm) breach_mirror)
      from d2 have "fmin s1 \<le> d" "d \<le> fmax s1"
        by (auto simp: ring_limits_iff [OF flim] same)
      with spec od d1 have "fd s d < bd1 d" by (auto simp: None same)
      moreover have "xo \<le> fd s d \<and> yo \<le> fd s d - d"
        using f d2 by (auto simp: fwd_ok_def dest: front_low)
      ultimately show "flip bd1 d' < - xo \<and> flip bd1 d' - d' < - yo"
        by (auto simp: flip_def d_def)
    qed
    ultimately show ?thesis using e(1) box(4) by (simp add: None bwd_ok_def)
  next
    case (Some p)
    obtain x y where p: "p = (x, y)" by fastforce
    with spec Some obtain d where d: "d \<in> breach xo xl yo yl (k + 1)" "\<not> odd_diff xo xl yo yl"
      "fmin s1 \<le> d" "d \<le> fmax s1" "x = retract_point eq xo yo (bd s1) d" "y = x - d" by auto
    have un': "back_unmet xo xl yo yl k k (bd s1)" using un d(2) e(2) by (blast intro: back_cong(2))
    have "inner_point xo xl yo yl x (x - d)"
      using common [OF d(2,1,3,4)]
      by (intro back_meet_inner [OF box(2-4) binv e(3) un' _ start neq d(1) _ d(5)]) simp_all
    with d(6) show ?thesis by (simp add: Some p)
  qed
qed

section \<open>Stopping before the searches meet\<close>

definition good_best :: "int \<Rightarrow> int \<Rightarrow> int \<Rightarrow> int \<Rightarrow> lin \<times> lin \<times> lin \<Rightarrow> bool" where
  "good_best xo xl yo yl acc \<longleftrightarrow>
     (case acc of (v, x, y) \<Rightarrow> 0 < v \<longrightarrow> inner_point xo xl yo yl x y)"

lemma heuristic_fwd_step:
  assumes "dlow \<le> d" "good_best xo xl yo yl acc"
  shows "\<exists>acc'. good_best xo xl yo yl acc' \<and>
    heuristic_fwd eq xo xl yo yl c f dlow d acc = heuristic_fwd eq xo xl yo yl c f dlow (d - 2) acc'"
proof (cases acc)
  case (fields best xm ym)
  define x where "x = f d"
  define dd where "dd = d - (xo - yo)"
  define v where "v = (x - xo) * 2 - dd"
  let ?c = "v > 12 * (c + (if dd < 0 then - dd else dd)) \<and> v > best
      \<and> xo + SNAKE_LIMIT \<le> x \<and> x < xl \<and> yo + SNAKE_LIMIT \<le> x - d \<and> x - d < yl
      \<and> list_all (\<lambda>k. eq (x - k) (x - d - k)) [1..SNAKE_LIMIT]"
  have "?c \<Longrightarrow> inner_point xo xl yo yl x (x - d)"
    by (auto simp: inner_point_def SNAKE_LIMIT_def)
  with assms(2) have "good_best xo xl yo yl (if ?c then (v, x, x - d) else acc)"
    unfolding good_best_def by (simp split: prod.splits if_splits)
  moreover have "heuristic_fwd eq xo xl yo yl c f dlow d acc =
      heuristic_fwd eq xo xl yo yl c f dlow (d - 2) (if ?c then (v, x, x - d) else acc)"
    by (subst heuristic_fwd.simps)
      (simp only: assms(1) fields Let_def if_True prod.case x_def dd_def v_def)
  ultimately show ?thesis by blast
qed

lemma heuristic_fwd_inner:
  "good_best xo xl yo yl acc \<Longrightarrow>
     good_best xo xl yo yl (heuristic_fwd eq xo xl yo yl c f dlow d acc)"
proof (induction "nat (d + 2 - dlow)" arbitrary: d acc rule: less_induct)
  case less
  show ?case
  proof (cases "dlow \<le> d")
    case True
    obtain acc' where "good_best xo xl yo yl acc'" and
      eq: "heuristic_fwd eq xo xl yo yl c f dlow d acc = heuristic_fwd eq xo xl yo yl c f dlow (d - 2) acc'"
      using heuristic_fwd_step [OF True less.prems] by blast
    with less.hyps [of "d - 2"] True show ?thesis unfolding eq by simp
  next
    case False
    with less.prems show ?thesis by (subst heuristic_fwd.simps) simp
  qed
qed

lemma heuristic_bwd_step:
  assumes "dlow \<le> d" "good_best xo xl yo yl acc"
  shows "\<exists>acc'. good_best xo xl yo yl acc' \<and>
    heuristic_bwd eq xo xl yo yl c f dlow d acc = heuristic_bwd eq xo xl yo yl c f dlow (d - 2) acc'"
proof (cases acc)
  case (fields best xm ym)
  define x where "x = f d"
  define dd where "dd = d - (xl - yl)"
  define v where "v = (xl - x) * 2 + dd"
  let ?c = "v > 12 * (c + (if dd < 0 then - dd else dd)) \<and> v > best
      \<and> xo < x \<and> x \<le> xl - SNAKE_LIMIT \<and> yo < x - d \<and> x - d \<le> yl - SNAKE_LIMIT
      \<and> list_all (\<lambda>k. eq (x + k) (x - d + k)) [0..SNAKE_LIMIT - 1]"
  have "?c \<Longrightarrow> inner_point xo xl yo yl x (x - d)"
    by (auto simp: inner_point_def SNAKE_LIMIT_def)
  with assms(2) have "good_best xo xl yo yl (if ?c then (v, x, x - d) else acc)"
    unfolding good_best_def by (simp split: prod.splits if_splits)
  moreover have "heuristic_bwd eq xo xl yo yl c f dlow d acc =
      heuristic_bwd eq xo xl yo yl c f dlow (d - 2) (if ?c then (v, x, x - d) else acc)"
    by (subst heuristic_bwd.simps)
      (simp only: assms(1) fields Let_def if_True prod.case x_def dd_def v_def)
  ultimately show ?thesis by blast
qed

lemma heuristic_bwd_inner:
  "good_best xo xl yo yl acc \<Longrightarrow>
     good_best xo xl yo yl (heuristic_bwd eq xo xl yo yl c f dlow d acc)"
proof (induction "nat (d + 2 - dlow)" arbitrary: d acc rule: less_induct)
  case less
  show ?case
  proof (cases "dlow \<le> d")
    case True
    obtain acc' where "good_best xo xl yo yl acc'" and
      eq: "heuristic_bwd eq xo xl yo yl c f dlow d acc = heuristic_bwd eq xo xl yo yl c f dlow (d - 2) acc'"
      using heuristic_bwd_step [OF True less.prems] by blast
    with less.hyps [of "d - 2"] True show ?thesis unfolding eq by simp
  next
    case False
    with less.prems show ?thesis by (subst heuristic_bwd.simps) simp
  qed
qed

text \<open>Giving up: a point of either search, clipped to the box.\<close>

definition fwd_pt :: "int \<Rightarrow> int \<Rightarrow> int \<Rightarrow> int \<Rightarrow> lin \<times> lin \<Rightarrow> bool" where
  "fwd_pt xo xl yo yl acc \<longleftrightarrow> (case acc of (xy, x) \<Rightarrow>
     xo \<le> x \<and> x \<le> xl \<and> yo \<le> xy - x \<and> xy - x \<le> yl \<and> xo + yo < xy)"

definition bwd_pt :: "int \<Rightarrow> int \<Rightarrow> int \<Rightarrow> int \<Rightarrow> lin \<times> lin \<Rightarrow> bool" where
  "bwd_pt xo xl yo yl acc \<longleftrightarrow> (case acc of (xy, x) \<Rightarrow>
     xo \<le> x \<and> x \<le> xl \<and> yo \<le> xy - x \<and> xy - x \<le> yl \<and> xy < xl + yl)"

lemma best_fwd_in_box:
  assumes "0 \<le> xo" "0 \<le> yo" "xo < xl" "yo < yl"
    and "\<forall>e. on_pass dlow d e \<longrightarrow> xo - yl \<le> e \<and> e \<le> xl - yo \<and> xo \<le> f e \<and> yo \<le> f e - e \<and>
      xo + yo < 2 * f e - e"
    and "dlow \<le> d \<or> fwd_pt xo xl yo yl acc" "fst acc = - 1 \<or> fwd_pt xo xl yo yl acc"
  shows "fwd_pt xo xl yo yl (best_fwd xl yl f dlow d acc)"
  using assms(5-7)
proof (induction "nat (d + 2 - dlow)" arbitrary: d acc rule: less_induct)
  case less
  show ?case
  proof (cases "dlow \<le> d")
    case True
    define x0 where "x0 = min (f d) xl"
    define x where "x = (if yl < x0 - d then yl + d else x0)"
    define y where "y = (if yl < x0 - d then yl else x0 - d)"
    let ?acc = "if fst acc < x + y then (x + y, x) else acc"
    have unf: "best_fwd xl yl f dlow d acc = best_fwd xl yl f dlow (d - 2) ?acc"
      by (subst best_fwd.simps) (simp add: True Let_def x_def y_def x0_def split: prod.splits)
    have "on_pass dlow d d" using True by (simp add: on_pass_def)
    with less.prems(1) have d: "xo - yl \<le> d" "d \<le> xl - yo" "xo \<le> f d" "yo \<le> f d - d"
      "xo + yo < 2 * f d - d" by auto
    have "fwd_pt xo xl yo yl (x + y, x)"
      using d assms(3,4) by (auto simp: fwd_pt_def x_def y_def x0_def min_def)
    moreover from this have "- 1 < x + y" using assms(1,2) by (simp add: fwd_pt_def)
    ultimately have good: "fwd_pt xo xl yo yl ?acc" using less.prems(3) by auto
    have "on_pass dlow (d - 2) e \<Longrightarrow> on_pass dlow d e" for e by (simp add: on_pass_def)
    with less.prems(1) good True show ?thesis
      unfolding unf by (intro less.hyps) auto
  next
    case False
    with less.prems show ?thesis by (subst best_fwd.simps) simp
  qed
qed

lemma best_bwd_in_box:
  assumes "xl + yl < OFFSET_MAX" "xo < xl" "yo < yl"
    and "\<forall>e. on_pass dlow d e \<longrightarrow> xo - yl \<le> e \<and> e \<le> xl - yo \<and> f e \<le> xl \<and> f e - e \<le> yl \<and>
      2 * f e - e < xl + yl"
    and "dlow \<le> d \<or> bwd_pt xo xl yo yl acc" "fst acc = OFFSET_MAX \<or> bwd_pt xo xl yo yl acc"
  shows "bwd_pt xo xl yo yl (best_bwd xo yo f dlow d acc)"
  using assms(4-6)
proof (induction "nat (d + 2 - dlow)" arbitrary: d acc rule: less_induct)
  case less
  show ?case
  proof (cases "dlow \<le> d")
    case True
    define x0 where "x0 = max xo (f d)"
    define x where "x = (if x0 - d < yo then yo + d else x0)"
    define y where "y = (if x0 - d < yo then yo else x0 - d)"
    let ?acc = "if x + y < fst acc then (x + y, x) else acc"
    have unf: "best_bwd xo yo f dlow d acc = best_bwd xo yo f dlow (d - 2) ?acc"
      by (subst best_bwd.simps) (simp add: True Let_def x_def y_def x0_def split: prod.splits)
    have "on_pass dlow d d" using True by (simp add: on_pass_def)
    with less.prems(1) have d: "xo - yl \<le> d" "d \<le> xl - yo" "f d \<le> xl" "f d - d \<le> yl"
      "2 * f d - d < xl + yl" by auto
    have "bwd_pt xo xl yo yl (x + y, x)"
      using d assms(2,3) by (auto simp: bwd_pt_def x_def y_def x0_def max_def)
    moreover from this have "x + y < OFFSET_MAX" using assms(1) by (simp add: bwd_pt_def)
    ultimately have good: "bwd_pt xo xl yo yl ?acc" using less.prems(3) by auto
    have "on_pass dlow (d - 2) e \<Longrightarrow> on_pass dlow d e" for e by (simp add: on_pass_def)
    with less.prems(1) good True show ?thesis
      unfolding unf by (intro less.hyps) auto
  next
    case False
    with less.prems show ?thesis by (subst best_bwd.simps) simp
  qed
qed

text \<open>
  What a midpoint promises. Each of the two parts is smaller than the box, or it is solved
  minimally after all when the box was not.
\<close>

definition part_ok :: "int \<Rightarrow> int \<Rightarrow> int \<Rightarrow> int \<Rightarrow> bool \<Rightarrow> partition \<Rightarrow> bool" where
  "part_ok xo xl yo yl find_minimal p \<longleftrightarrow>
     xo \<le> xmid p \<and> xmid p \<le> xl \<and> yo \<le> ymid p \<and> ymid p \<le> yl \<and>
     (xmid p + ymid p < xl + yl \<or> lo_minimal p \<and> \<not> find_minimal) \<and>
     (xo + yo < xmid p + ymid p \<or> hi_minimal p \<and> \<not> find_minimal)"

lemma inner_part_ok:
  "inner_point xo xl yo yl x y \<Longrightarrow>
     part_ok xo xl yo yl fm \<lparr>xmid = x, ymid = y, lo_minimal = l, hi_minimal = h\<rparr>"
  by (auto simp: inner_point_def part_ok_def)

lemma give_up_ok:
  assumes box: "0 \<le> xo" "0 \<le> yo" "xo < xl" "yo < yl" "xl + yl < OFFSET_MAX" and k: "0 < k"
    and f: "fwd_ok xo xl yo yl k s" and b: "bwd_ok xo xl yo yl k s"
  shows "part_ok xo xl yo yl False (give_up xo xl yo yl s)"
proof -
  from f have fl: "ring_limits (xo - yl) (xl - yo) (xo - yo) k (fmin s) (fmax s)"
    and finv: "front_inv xo xl yo yl k (fd s)" by (simp_all add: fwd_ok_def)
  from b have bl: "ring_limits (xo - yl) (xl - yo) (xl - yl) k (bmin s) (bmax s)"
    and binv: "back_inv xo xl yo yl k (bd s)" by (simp_all add: bwd_ok_def)
  obtain fxy fx where fb: "best_fwd xl yl (fd s) (fmin s) (fmax s) (- 1, 0) = (fxy, fx)" by fastforce
  obtain bxy bx where bb: "best_bwd xo yo (bd s) (bmin s) (bmax s) (OFFSET_MAX, 0) = (bxy, bx)"
    by fastforce
  have "fwd_pt xo xl yo yl (best_fwd xl yl (fd s) (fmin s) (fmax s) (- 1, 0))"
  proof (rule best_fwd_in_box)
    show "\<forall>e. on_pass (fmin s) (fmax s) e \<longrightarrow> xo - yl \<le> e \<and> e \<le> xl - yo \<and> xo \<le> fd s e \<and>
        yo \<le> fd s e - e \<and> xo + yo < 2 * fd s e - e"
      using front_low [OF finv] k unfolding on_pass_ring [OF fl] by (fastforce simp: ring_iff)
    show "fmin s \<le> fmax s \<or> fwd_pt xo xl yo yl (- 1, 0)" using fl by (simp add: ring_limits_def)
  qed (use box in auto)
  moreover have "bwd_pt xo xl yo yl (best_bwd xo yo (bd s) (bmin s) (bmax s) (OFFSET_MAX, 0))"
  proof (rule best_bwd_in_box)
    show "\<forall>e. on_pass (bmin s) (bmax s) e \<longrightarrow> xo - yl \<le> e \<and> e \<le> xl - yo \<and> bd s e \<le> xl \<and>
        bd s e - e \<le> yl \<and> 2 * bd s e - e < xl + yl"
      using back_high [OF binv] k unfolding on_pass_ring [OF bl] by (fastforce simp: ring_iff)
    show "bmin s \<le> bmax s \<or> bwd_pt xo xl yo yl (OFFSET_MAX, 0)" using bl by (simp add: ring_limits_def)
  qed (use box in auto)
  ultimately show ?thesis
    using box by (auto simp: give_up_def fb bb fwd_pt_def bwd_pt_def part_ok_def)
qed

lemma stop_early_ok:
  assumes box: "0 \<le> xo" "0 \<le> yo" "xo < xl" "yo < yl" "xl + yl < OFFSET_MAX" and k: "0 < k"
    and ok: "fwd_ok xo xl yo yl k s" "bwd_ok xo xl yo yl k s"
    and r: "stop_early ctxt xo xl yo yl c big s = Some p"
  shows "part_ok xo xl yo yl False p"
proof -
  let ?eq = "XREF_YREF_EQUAL ctxt"
  obtain fb fx fy where
    f: "heuristic_fwd ?eq xo xl yo yl c (fd s) (fmin s) (fmax s) (0, 0, 0) = (fb, fx, fy)"
    by (metis prod_cases3)
  obtain bb bx b_y where
    b: "heuristic_bwd ?eq xo xl yo yl c (bd s) (bmin s) (bmax s) (0, 0, 0) = (bb, bx, b_y)"
    by (metis prod_cases3)
  have start: "good_best xo xl yo yl (0, 0, 0)" by (simp add: good_best_def)
  have "0 < fb \<Longrightarrow> inner_point xo xl yo yl fx fy" "0 < bb \<Longrightarrow> inner_point xo xl yo yl bx b_y"
    using heuristic_fwd_inner [OF start, of ?eq c "fd s" "fmin s" "fmax s"]
      heuristic_bwd_inner [OF start, of ?eq c "bd s" "bmin s" "bmax s"]
    by (simp_all add: f b good_best_def)
  then show ?thesis
    using r give_up_ok [OF box k ok]
    by (auto simp: stop_early_def f b inner_part_ok split: if_splits)
qed

lemma diag_step_ok:
  assumes box: "0 \<le> xo" "0 \<le> yo" "xo < xl" "yo < yl" "xl + yl < OFFSET_MAX" and k: "0 \<le> k"
    and inv: "diag_inv xo xl yo yl k s"
    and neq: "\<not> XREF_YREF_EQUAL ctxt xo yo" "\<not> XREF_YREF_EQUAL ctxt (xl - 1) (yl - 1)"
  shows "case diag_step ctxt xo xl yo yl fm c s of
      (None, s') \<Rightarrow> diag_inv xo xl yo yl (k + 1) s'
    | (Some p, s') \<Rightarrow> part_ok xo xl yo yl fm p"
proof -
  let ?eq = "XREF_YREF_EQUAL ctxt" and ?odd = "odd_diff xo xl yo yl"
  define s1 where "s1 = extend_fwd (xo - yl) (xl - yo) s"
  obtain fm1 fd1 big1 where p1: "fwd_pass ?eq xl yl ?odd (bmin s1) (bmax s1) (bd s1) (fmin s1) (fmax s1)
      (fd s1) False = (fm1, fd1, big1)" by (metis prod_cases3)
  define s3 where "s3 = extend_bwd (xo - yl) (xl - yo) (s1\<lparr>fd := fd1\<rparr>)"
  obtain bm1 bd1 big2 where p2: "bwd_pass ?eq xo yo ?odd (fmin s3) (fmax s3) (fd s3) (bmin s3) (bmax s3)
      (bd s3) big1 = (bm1, bd1, big2)" by (metis prod_cases3)
  note unf = diag_step_def Let_def s1_def [symmetric] p1 prod.case
  note F = fwd_phase [OF box(1,3,4) k inv neq(2) s1_def p1]
  show ?thesis
  proof (cases fm1)
    case (Some p)
    then show ?thesis using F by (simp only: unf option.case) (auto simp: inner_part_ok)
  next
    case None
    let ?s2 = "s1\<lparr>fd := fd1\<rparr>"
    from F None have f: "fwd_ok xo xl yo yl (k + 1) ?s2"
      and un: "?odd \<longrightarrow> unmet xo xl yo yl (k + 1) k fd1" by simp_all
    from inv have b: "bwd_ok xo xl yo yl k ?s2" "\<not> ?odd \<longrightarrow> back_unmet xo xl yo yl k k (bd ?s2)"
      by (simp_all add: diag_inv_def bwd_ok_def s1_def extend_fwd_sel)
    have lim: "xl < OFFSET_MAX" using box by simp
    note B = bwd_phase [OF lim box(3,4) k f b neq(1) s3_def p2]
    note unf' = unf None option.case s3_def [symmetric] p2
    show ?thesis
    proof (cases bm1)
      case (Some p)
      then show ?thesis using B by (simp only: unf') (auto simp: inner_part_ok)
    next
      case none: None
      let ?s4 = "s3\<lparr>bd := bd1\<rparr>"
      from B none have b4: "bwd_ok xo xl yo yl (k + 1) ?s4"
        "\<not> ?odd \<longrightarrow> back_unmet xo xl yo yl (k + 1) (k + 1) (bd ?s4)" by simp_all
      from f un have f4: "fwd_ok xo xl yo yl (k + 1) ?s4"
        "?odd \<longrightarrow> unmet xo xl yo yl (k + 1) (k + 1 - 1) (fd ?s4)"
        by (simp_all add: s3_def extend_bwd_sel fwd_ok_def)
      have "diag_inv xo xl yo yl (k + 1) ?s4" using b4 f4 by (simp add: diag_inv_def)
      moreover have "part_ok xo xl yo yl False p"
        if "stop_early ctxt xo xl yo yl c big2 ?s4 = Some p" for p
        using stop_early_ok [OF box _ f4(1) b4(1) that] k by simp
      ultimately show ?thesis
        by (simp only: unf' none) (auto split: option.splits)
    qed
  qed
qed

section \<open>The search returns\<close>

lemma diag_inv_bound:
  assumes box: "xo < xl" "yo < yl" and inv: "diag_inv xo xl yo yl k s"
  shows "k \<le> xl - xo + (yl - yo)"
proof (cases "odd_diff xo xl yo yl")
  case True
  with inv have "front_inv xo xl yo yl k (fd s)" "unmet xo xl yo yl k (k - 1) (fd s)"
    by (simp_all add: diag_inv_def fwd_ok_def)
  moreover have "even (xo - yo + k - (xl - yl) - (k - 1))" using True by presburger
  ultimately show ?thesis using box by (intro unmet_bound [of xo xl yo yl k _ "k - 1"]) auto
next
  case False
  with inv have "front_inv (- xl) (- xo) (- yl) (- yo) k (flip (bd s))"
    "unmet (- xl) (- xo) (- yl) (- yo) k k (flip (bd s))"
    by (simp_all add: diag_inv_def bwd_ok_def back_inv_def back_unmet_def)
  moreover have "even (- xl - - yl + k - (- xo - - yo) - k)" using False by presburger
  ultimately have "k \<le> - xo - - xl + (- yo - - yl)"
    using box by (intro unmet_bound [of "- xl" "- xo" "- yl" "- yo" k _ k]) auto
  then show ?thesis by simp
qed

lemma diag_loop_ok:
  assumes box: "0 \<le> xo" "0 \<le> yo" "xo < xl" "yo < yl" "xl + yl < OFFSET_MAX"
    and neq: "\<not> XREF_YREF_EQUAL ctxt xo yo" "\<not> XREF_YREF_EQUAL ctxt (xl - 1) (yl - 1)"
    and k: "0 \<le> k" and inv: "diag_inv xo xl yo yl k s"
  shows "\<exists>p s'. diag_loop ctxt xo xl yo yl fm c s = Some (p, s') \<and> part_ok xo xl yo yl fm p"
  using k inv
proof (induction "nat (xl - xo + (yl - yo) + 1 - k)" arbitrary: k c s rule: less_induct)
  case less
  note step = diag_step_ok [OF box less.prems neq, of fm c]
  obtain r s' where r: "diag_step ctxt xo xl yo yl fm c s = (r, s')" by fastforce
  show ?case
  proof (cases r)
    case (Some p)
    with step r show ?thesis by (subst diag_loop.simps) simp
  next
    case None
    with step r have inv': "diag_inv xo xl yo yl (k + 1) s'" by simp
    with box have "k + 1 \<le> xl - xo + (yl - yo)" by (intro diag_inv_bound)
    with less.prems less.hyps [OF _ _ inv', of "c + 1"] r None show ?thesis
      by (subst diag_loop.simps) simp
  qed
qed

lemma diag_inv_start:
  assumes "xo < xl" "yo < yl" "fd s (xo - yo) = xo" "bd s (xl - yl) = xl"
    "fmin s = xo - yo" "fmax s = xo - yo" "bmin s = xl - yl" "bmax s = xl - yl"
  shows "diag_inv xo xl yo yl 0 s"
proof -
  have "front_inv xo xl yo yl 0 (fd s)" using assms by (intro front_inv_0) auto
  moreover have "front_inv (- xl) (- xo) (- yl) (- yo) 0 (flip (bd s))"
    using assms by (intro front_inv_0) (auto simp: flip_def)
  moreover have "unmet xo xl yo yl 0 (0 - 1) (fd s)" by (auto simp: unmet_def ring_iff)
  moreover have "unmet (- xl) (- xo) (- yl) (- yo) 0 0 (flip (bd s))"
  proof -
    have "reach (- xl) (- xo) (- yl) (- yo) 0 = {- xl - - yl}"
      by (rule ring_0) (use assms in auto)
    with assms show ?thesis by (simp add: unmet_def flip_def)
  qed
  ultimately show ?thesis
    using assms by (simp add: diag_inv_def fwd_ok_def bwd_ok_def back_inv_def back_unmet_def
        ring_limits_0)
qed

lemma diag_returns:
  assumes "0 \<le> xo" "0 \<le> yo" "xo < xl" "yo < yl" "xl + yl < OFFSET_MAX"
    and "\<not> XREF_YREF_EQUAL ctxt xo yo" "\<not> XREF_YREF_EQUAL ctxt (xl - 1) (yl - 1)"
  shows "\<exists>p f b. diag ctxt xo xl yo yl fm fdv bdv = Some (p, f, b) \<and> part_ok xo xl yo yl fm p"
proof -
  let ?s = "\<lparr>fmin = xo - yo, fmax = xo - yo, bmin = xl - yl, bmax = xl - yl,
      fd = fdv(xo - yo := xo), bd = bdv(xl - yl := xl)\<rparr>"
  have "diag_inv xo xl yo yl 0 ?s" using assms by (intro diag_inv_start) auto
  from diag_loop_ok [OF assms _ this] show ?thesis
    by (force simp: diag_def Let_def)
qed

text \<open>
  C8: for a box whose first elements differ and whose last elements differ, the search
  of \<open>diag\<close> ends, whatever the vectors of diagonals held before and with the heuristic and
  the cost limit on or off, and the midpoint lies in the box and leaves two parts that are
  smaller than the box (or the same box with minimality now required), which is what the
  recursion of \<open>compareseq\<close> needs to end.
\<close>

theorem diag_midpoint:
  assumes "0 \<le> xoff" "0 \<le> yoff" "xoff < xlim" "yoff < ylim" "xlim + ylim < OFFSET_MAX"
    and "\<not> XREF_YREF_EQUAL ctxt xoff yoff" "\<not> XREF_YREF_EQUAL ctxt (xlim - 1) (ylim - 1)"
  shows "\<exists>p f b. diag ctxt xoff xlim yoff ylim find_minimal fdv bdv = Some (p, f, b) \<and>
     xoff \<le> xmid p \<and> xmid p \<le> xlim \<and> yoff \<le> ymid p \<and> ymid p \<le> ylim \<and>
     (xmid p + ymid p < xlim + ylim \<or> lo_minimal p \<and> \<not> find_minimal) \<and>
     (xoff + yoff < xmid p + ymid p \<or> hi_minimal p \<and> \<not> find_minimal)"
  using diag_returns [OF assms] unfolding part_ok_def by blast

theorem diag_midpoint_witness:
  "\<exists>p f b. diag \<lparr>xvec = [1, 2, 3], yvec = [2, 5], heuristic = True, too_expensive = 4\<rparr>
     0 3 0 2 False (\<lambda>_. 7) (\<lambda>_. 9) = Some (p, f, b) \<and>
     0 \<le> xmid p \<and> xmid p \<le> 3 \<and> 0 \<le> ymid p \<and> ymid p \<le> 2 \<and>
     (xmid p + ymid p < 3 + 2 \<or> lo_minimal p \<and> \<not> False) \<and>
     (0 + 0 < xmid p + ymid p \<or> hi_minimal p \<and> \<not> False)"
  by (rule diag_midpoint) (simp_all add: OFFSET_MAX_def XREF_YREF_EQUAL_def)

end
