(* ===== verification/Compareseq.thy ===== *)
theory Compareseq
  imports Diag
begin

text \<open>
  The recursion of \<open>compareseq\<close> returns, writes every flag inside its vector, touches only the
  flags of its box, and leaves two subsequences that are equal: the elements of the first
  vector that are not marked deleted are the elements of the second that are not marked
  inserted.
\<close>

section \<open>Flags seen through the table of real indexes\<close>

definition flag :: "lin list \<Rightarrow> bool list \<Rightarrow> lin \<Rightarrow> bool" where
  "flag ri ch i = ch ! nat (ri ! nat i)"

definition index_ok :: "lin list \<Rightarrow> nat \<Rightarrow> bool" where
  "index_ok ri n \<longleftrightarrow> distinct ri \<and> (\<forall>i \<in> set ri. 0 \<le> i \<and> i < int n)"

text \<open>The flags outside \<open>[lo, hi)\<close>, and those of elements that the table leaves out, are kept.\<close>

definition untouched :: "lin list \<Rightarrow> lin \<Rightarrow> lin \<Rightarrow> bool list \<Rightarrow> bool list \<Rightarrow> bool" where
  "untouched ri lo hi ch ch' \<longleftrightarrow> length ch' = length ch \<and>
     (\<forall>i. 0 \<le> i \<and> i < int (length ri) \<and> \<not> (lo \<le> i \<and> i < hi) \<longrightarrow> flag ri ch' i = flag ri ch i) \<and>
     (\<forall>j. int j \<notin> set ri \<longrightarrow> ch' ! j = ch ! j)"

lemma untouched_refl: "untouched ri lo hi ch ch"
  by (simp add: untouched_def)

lemma untouched_trans:
  "untouched ri a b ch ch' \<Longrightarrow> untouched ri c d ch' ch'' \<Longrightarrow> lo \<le> a \<Longrightarrow> b \<le> hi \<Longrightarrow> lo \<le> c \<Longrightarrow> d \<le> hi \<Longrightarrow>
     untouched ri lo hi ch ch''"
  by (auto simp: untouched_def)

lemma untouched_mono:
  "untouched ri a b ch ch' \<Longrightarrow> lo \<le> a \<Longrightarrow> b \<le> hi \<Longrightarrow> untouched ri lo hi ch ch'"
  by (rule untouched_trans [OF untouched_refl [of _ lo hi]]) auto

lemma index_ok_nth:
  assumes "index_ok ri n" "0 \<le> i" "i < int (length ri)"
  shows "0 \<le> ri ! nat i" "nat (ri ! nat i) < n" "ri ! nat i \<in> set ri"
proof -
  have "nat i < length ri" using assms by simp
  then show m: "ri ! nat i \<in> set ri" by (rule nth_mem)
  with assms(1) have "0 \<le> ri ! nat i \<and> ri ! nat i < int n" unfolding index_ok_def by blast
  then show "0 \<le> ri ! nat i" "nat (ri ! nat i) < n" by auto
qed

lemma flag_update:
  assumes "index_ok ri (length ch)" "0 \<le> i" "i < int (length ri)" "0 \<le> j" "j < int (length ri)"
  shows "flag ri (ch[nat (ri ! nat i) := True]) j \<longleftrightarrow> j = i \<or> flag ri ch j"
proof -
  note index_ok_nth [OF assms(1-3)] index_ok_nth [OF assms(1,4,5)]
  moreover have "ri ! nat i = ri ! nat j \<longleftrightarrow> i = j"
    using assms by (auto simp: index_ok_def nth_eq_iff_index_eq)
  ultimately show ?thesis by (auto simp: flag_def nth_list_update)
qed

lemma note_change_ok:
  assumes "index_ok ri (length ch)" "0 \<le> i" "i < int (length ri)"
  shows "note_change ri i ch = Some (ch[nat (ri ! nat i) := True])"
  using index_ok_nth [OF assms] assms by (simp add: note_change_def Let_def)

lemma note_range_ok:
  assumes "index_ok ri (length ch)" "0 \<le> off" "lim \<le> int (length ri)"
  shows "\<exists>ch'. note_range ri off lim ch = Some ch' \<and> untouched ri off lim ch ch' \<and>
    (\<forall>i. off \<le> i \<and> i < lim \<longrightarrow> flag ri ch' i)"
  using assms
proof (induction ri off lim ch rule: note_range.induct)
  case (1 ri off lim ch)
  show ?case
  proof (cases "off < lim")
    case True
    let ?ch = "ch[nat (ri ! nat off) := True]"
    have nc: "note_change ri off ch = Some ?ch"
      using "1.prems" True by (intro note_change_ok) auto
    have "index_ok ri (length ?ch)" "0 \<le> off + 1" using "1.prems" by simp_all
    from "1.IH" [OF True nc this "1.prems"(3)]
    obtain ch' where ch': "note_range ri (off + 1) lim ?ch = Some ch'"
      "untouched ri (off + 1) lim ?ch ch'" "\<forall>i. off + 1 \<le> i \<and> i < lim \<longrightarrow> flag ri ch' i"
      by blast
    have fl: "flag ri ?ch j \<longleftrightarrow> j = off \<or> flag ri ch j" if "0 \<le> j" "j < int (length ri)" for j
      using "1.prems" True that by (intro flag_update) auto
    have "untouched ri off lim ch ?ch"
    proof -
      have "0 \<le> ri ! nat off" "ri ! nat off \<in> set ri"
        using "1.prems" True index_ok_nth [OF "1.prems"(1), of off] by auto
      then have "?ch ! j = ch ! j" if "int j \<notin> set ri" for j
        using that by (cases "j = nat (ri ! nat off)") auto
      with fl True show ?thesis by (auto simp: untouched_def)
    qed
    then have "untouched ri off lim ch ch'" using ch'(2) by (rule untouched_trans) auto
    moreover have "flag ri ch' i" if "off \<le> i" "i < lim" for i
    proof (cases "i = off")
      case True
      with fl [of off] ch'(2) "1.prems" that show ?thesis by (auto simp: untouched_def)
    qed (use ch'(3) that in auto)
    ultimately show ?thesis
      using ch'(1) nc True by (subst note_range.simps) auto
  next
    case False
    then show ?thesis by (subst note_range.simps) (auto simp: untouched_refl)
  qed
qed

section \<open>The elements that are kept\<close>

definition kept :: "'a list \<Rightarrow> (lin \<Rightarrow> bool) \<Rightarrow> lin \<Rightarrow> lin \<Rightarrow> 'a list" where
  "kept vec marked lo hi = map (\<lambda>i. vec ! nat i) (filter (\<lambda>i. \<not> marked i) [lo..hi - 1])"

lemma kept_empty [simp]: "hi \<le> lo \<Longrightarrow> kept vec P lo hi = []"
  by (simp add: kept_def)

lemma kept_split:
  assumes "lo \<le> mid" "mid \<le> hi"
  shows "kept vec P lo hi = kept vec P lo mid @ kept vec P mid hi"
proof -
  have "[lo..hi - 1] = [lo..mid - 1] @ [mid..hi - 1]"
    using assms upto_split1 [of lo mid "hi - 1"] upto_split2 [of lo "mid - 1" "hi - 1"]
    by (cases "mid = hi") auto
  then show ?thesis by (simp add: kept_def)
qed

lemma kept_cong:
  "\<forall>i. lo \<le> i \<and> i < hi \<longrightarrow> Q i = P i \<Longrightarrow> kept vec Q lo hi = kept vec P lo hi"
  by (auto simp: kept_def intro!: arg_cong [where f = "map _"] filter_cong)

lemma kept_none: "\<forall>i. lo \<le> i \<and> i < hi \<longrightarrow> P i \<Longrightarrow> kept vec P lo hi = []"
  by (auto simp: kept_def filter_empty_conv)

lemma kept_all:
  "\<forall>i. lo \<le> i \<and> i < hi \<longrightarrow> \<not> P i \<Longrightarrow> kept vec P lo hi = map (\<lambda>i. vec ! nat i) [lo..hi - 1]"
  unfolding kept_def by (intro arg_cong [where f = "map _"]) (auto simp: filter_id_conv)

text \<open>A diagonal run of equal elements is kept on both sides.\<close>

lemma upto_shift: "map (\<lambda>i. f (i - d)) [a..b] = map f [a - d..b - (d::int)]"
proof (induction a b rule: upto.induct)
  case (1 a b)
  show ?case
  proof (cases "a \<le> b")
    case True
    with 1 show ?thesis by (simp add: upto_rec1 algebra_simps)
  qed simp
qed

lemma kept_run:
  assumes "\<forall>i. a \<le> i \<and> i < b \<longrightarrow> \<not> P i" "\<forall>i. a - d \<le> i \<and> i < b - d \<longrightarrow> \<not> Q i"
    and "\<forall>i. a \<le> i \<and> i < b \<longrightarrow> xs ! nat i = ys ! nat (i - d)"
  shows "kept xs P a b = kept ys Q (a - d) (b - d)"
proof -
  have "map (\<lambda>i. xs ! nat i) [a..b - 1] = map (\<lambda>i. ys ! nat (i - d)) [a..b - 1]"
    using assms(3) by (intro map_cong) auto
  also have "\<dots> = map (\<lambda>i. ys ! nat i) [a - d..b - 1 - d]"
    by (rule upto_shift [where f = "\<lambda>i. ys ! nat i"])
  also have "b - 1 - d = b - d - 1" by simp
  finally show ?thesis
    by (simp add: kept_all [OF assms(1)] kept_all [OF assms(2)])
qed

section \<open>The recursion\<close>

lemma slide_bwd_spec:
  assumes "slide_bwd eq xo yo x y = (x', y')"
  shows "x' \<le> x \<and> x' - y' = x - y \<and> (x' < x \<longrightarrow> xo \<le> x' \<and> yo \<le> y') \<and>
    (xo < x' \<and> yo < y' \<longrightarrow> \<not> eq (x' - 1) (y' - 1)) \<and> (\<forall>i. x' \<le> i \<and> i < x \<longrightarrow> eq i (i - (x - y)))"
proof -
  have s: "slide_fwd (mirror_eq eq) (- xo) (- yo) (- x) (- y) = (- x', - y')"
    using assms by (auto simp: slide_bwd_mirror split: prod.splits)
  note spec = slide_fwd_spec [OF s]
  have "eq i (i - (x - y))" if "x' \<le> i" "i < x" for i
  proof -
    have "mirror_eq eq (- i - 1) (- i - 1 - (- x - - y))" using spec that by auto
    then show ?thesis by (simp add: mirror_eq_def algebra_simps)
  qed
  then show ?thesis using spec by (auto simp: mirror_eq_def)
qed

definition clear_box :: "lin list \<Rightarrow> lin list \<Rightarrow> lin \<Rightarrow> lin \<Rightarrow> lin \<Rightarrow> lin \<Rightarrow> cmpstate \<Rightarrow> bool" where
  "clear_box ri0 ri1 xo xl yo yl st \<longleftrightarrow>
     (\<forall>i. xo \<le> i \<and> i < xl \<longrightarrow> \<not> flag ri0 (changed0 st) i) \<and>
     (\<forall>i. yo \<le> i \<and> i < yl \<longrightarrow> \<not> flag ri1 (changed1 st) i)"

definition cmp_post :: "diff_context \<Rightarrow> lin list \<Rightarrow> lin list \<Rightarrow> lin \<Rightarrow> lin \<Rightarrow> lin \<Rightarrow> lin \<Rightarrow> cmpstate \<Rightarrow>
    cmpstate \<Rightarrow> bool" where
  "cmp_post ctxt ri0 ri1 xo xl yo yl st st' \<longleftrightarrow>
     untouched ri0 xo xl (changed0 st) (changed0 st') \<and>
     untouched ri1 yo yl (changed1 st) (changed1 st') \<and>
     kept (xvec ctxt) (flag ri0 (changed0 st')) xo xl = kept (yvec ctxt) (flag ri1 (changed1 st')) yo yl"

definition box_ok :: "diff_context \<Rightarrow> lin list \<Rightarrow> lin list \<Rightarrow> lin \<Rightarrow> lin \<Rightarrow> lin \<Rightarrow> lin \<Rightarrow> bool" where
  "box_ok ctxt ri0 ri1 xo xl yo yl \<longleftrightarrow>
     0 \<le> xo \<and> xo \<le> xl \<and> xl \<le> int (length ri0) \<and> 0 \<le> yo \<and> yo \<le> yl \<and> yl \<le> int (length ri1) \<and>
     int (length ri0) + int (length ri1) < OFFSET_MAX"

lemma untouched_flag:
  "untouched ri a b ch ch' \<Longrightarrow> 0 \<le> i \<Longrightarrow> i < int (length ri) \<Longrightarrow> i < a \<or> b \<le> i \<Longrightarrow>
     flag ri ch' i = flag ri ch i"
  by (auto simp: untouched_def)

text \<open>The runs of matches at either end of a box are added to the result of the inner box.\<close>

lemma cmp_post_widen:
  assumes box: "box_ok ctxt ri0 ri1 x0 x3 y0 y3" and cl: "clear_box ri0 ri1 x0 x3 y0 y3 st"
    and in1: "x0 \<le> x1" "x1 \<le> x2" "x2 \<le> x3" "y0 \<le> y1" "y1 \<le> y2" "y2 \<le> y3"
    and diags: "x1 - y1 = x0 - y0" "x2 - y2 = x3 - y3"
    and run1: "\<forall>i. x0 \<le> i \<and> i < x1 \<longrightarrow> XREF_YREF_EQUAL ctxt i (i - (x0 - y0))"
    and run2: "\<forall>i. x2 \<le> i \<and> i < x3 \<longrightarrow> XREF_YREF_EQUAL ctxt i (i - (x3 - y3))"
    and post: "cmp_post ctxt ri0 ri1 x1 x2 y1 y2 st st'"
  shows "cmp_post ctxt ri0 ri1 x0 x3 y0 y3 st st'"
proof -
  let ?k0 = "kept (xvec ctxt) (flag ri0 (changed0 st'))" and ?k1 = "kept (yvec ctxt) (flag ri1 (changed1 st'))"
  from post have un: "untouched ri0 x1 x2 (changed0 st) (changed0 st')"
    "untouched ri1 y1 y2 (changed1 st) (changed1 st')" and mid: "?k0 x1 x2 = ?k1 y1 y2"
    by (simp_all add: cmp_post_def)
  have f0: "\<not> flag ri0 (changed0 st') i" if "x0 \<le> i" "i < x3" "i < x1 \<or> x2 \<le> i" for i
    using untouched_flag [OF un(1), of i] box cl that by (auto simp: box_ok_def clear_box_def)
  have f1: "\<not> flag ri1 (changed1 st') i" if "y0 \<le> i" "i < y3" "i < y1 \<or> y2 \<le> i" for i
    using untouched_flag [OF un(2), of i] box cl that by (auto simp: box_ok_def clear_box_def)
  have "?k0 x0 x1 = ?k1 (x0 - (x0 - y0)) (x1 - (x0 - y0))"
    by (rule kept_run) (use f0 f1 in1 run1 diags in \<open>auto simp: XREF_YREF_EQUAL_def\<close>)
  moreover have "x1 - (x0 - y0) = y1" using diags by simp
  moreover have "?k0 x2 x3 = ?k1 (x2 - (x3 - y3)) (x3 - (x3 - y3))"
    by (rule kept_run) (use f0 f1 in1 run2 diags in \<open>auto simp: XREF_YREF_EQUAL_def\<close>)
  moreover have "x2 - (x3 - y3) = y2" using diags by simp
  ultimately have "?k0 x0 x3 = ?k1 y0 y3"
    using in1 mid kept_split [of x0 x1 x3 "xvec ctxt"] kept_split [of x1 x2 x3 "xvec ctxt"]
      kept_split [of y0 y1 y3 "yvec ctxt"] kept_split [of y1 y2 y3 "yvec ctxt"] by simp
  then show ?thesis
    using un in1 by (auto simp: cmp_post_def intro: untouched_mono)
qed

text \<open>The results of the two halves are joined.\<close>

lemma cmp_post_join:
  assumes box: "box_ok ctxt ri0 ri1 x0 x2 y0 y2" and in1: "x0 \<le> x1" "x1 \<le> x2" "y0 \<le> y1" "y1 \<le> y2"
    and post1: "cmp_post ctxt ri0 ri1 x0 x1 y0 y1 st st1"
    and post2: "cmp_post ctxt ri0 ri1 x1 x2 y1 y2 st1 st2"
  shows "cmp_post ctxt ri0 ri1 x0 x2 y0 y2 st st2"
proof -
  from post2 have un: "untouched ri0 x1 x2 (changed0 st1) (changed0 st2)"
    "untouched ri1 y1 y2 (changed1 st1) (changed1 st2)" by (simp_all add: cmp_post_def)
  have "kept (xvec ctxt) (flag ri0 (changed0 st2)) x0 x1 = kept (xvec ctxt) (flag ri0 (changed0 st1)) x0 x1"
    "kept (yvec ctxt) (flag ri1 (changed1 st2)) y0 y1 = kept (yvec ctxt) (flag ri1 (changed1 st1)) y0 y1"
    using untouched_flag [OF un(1)] untouched_flag [OF un(2)] box in1
    by (auto intro!: kept_cong simp: box_ok_def)
  with post1 post2 in1
  have "kept (xvec ctxt) (flag ri0 (changed0 st2)) x0 x2 = kept (yvec ctxt) (flag ri1 (changed1 st2)) y0 y2"
    by (simp add: cmp_post_def kept_split [of x0 x1 x2] kept_split [of y0 y1 y2])
  then show ?thesis
    using post1 post2 in1 by (auto simp: cmp_post_def intro: untouched_trans)
qed

definition cmp_measure :: "lin \<Rightarrow> lin \<Rightarrow> lin \<Rightarrow> lin \<Rightarrow> bool \<Rightarrow> nat" where
  "cmp_measure xo xl yo yl fm = nat (2 * (xl - xo + (yl - yo)) + (if fm then 0 else 1))"

lemma part_ok_measure:
  assumes "part_ok xo xl yo yl fm p" "xo \<le> xl" "yo \<le> yl"
  shows "cmp_measure xo (xmid p) yo (ymid p) (lo_minimal p) < cmp_measure xo xl yo yl fm"
    and "cmp_measure (xmid p) xl (ymid p) yl (hi_minimal p) < cmp_measure xo xl yo yl fm"
  using assms by (auto simp: part_ok_def cmp_measure_def)

lemma clear_box_mono:
  "clear_box ri0 ri1 x0 x3 y0 y3 st \<Longrightarrow> x0 \<le> x1 \<Longrightarrow> x2 \<le> x3 \<Longrightarrow> y0 \<le> y1 \<Longrightarrow> y2 \<le> y3 \<Longrightarrow>
     clear_box ri0 ri1 x1 x2 y1 y2 st"
  by (auto simp: clear_box_def)

lemma clear_box_after:
  assumes "clear_box ri0 ri1 x0 x2 y0 y2 st" "cmp_post ctxt ri0 ri1 x0 x1 y0 y1 st st1"
    "box_ok ctxt ri0 ri1 x0 x2 y0 y2" "x0 \<le> x1" "y0 \<le> y1"
  shows "clear_box ri0 ri1 x1 x2 y1 y2 st1"
proof -
  from assms(2) have un: "untouched ri0 x0 x1 (changed0 st) (changed0 st1)"
    "untouched ri1 y0 y1 (changed1 st) (changed1 st1)" by (simp_all add: cmp_post_def)
  show ?thesis
    using assms untouched_flag [OF un(1)] untouched_flag [OF un(2)]
    by (auto simp: clear_box_def box_ok_def)
qed

text \<open>The cases where one of the vectors is exhausted, and the general case.\<close>

lemma note_insert_post:
  assumes "index_ok ri1 (length (changed1 st))" "box_ok ctxt ri0 ri1 xo xo yo yl"
  shows "\<exists>st'. map_option (\<lambda>ch. st\<lparr>changed1 := ch\<rparr>) (note_range ri1 yo yl (changed1 st)) = Some st' \<and>
    cmp_post ctxt ri0 ri1 xo xo yo yl st st'"
proof -
  from assms obtain ch where "note_range ri1 yo yl (changed1 st) = Some ch"
    "untouched ri1 yo yl (changed1 st) ch" "\<forall>i. yo \<le> i \<and> i < yl \<longrightarrow> flag ri1 ch i"
    using note_range_ok [of ri1 "changed1 st" yo yl] by (auto simp: box_ok_def)
  then show ?thesis by (simp add: cmp_post_def untouched_refl kept_none)
qed

lemma note_delete_post:
  assumes "index_ok ri0 (length (changed0 st))" "box_ok ctxt ri0 ri1 xo xl yo yo"
  shows "\<exists>st'. map_option (\<lambda>ch. st\<lparr>changed0 := ch\<rparr>) (note_range ri0 xo xl (changed0 st)) = Some st' \<and>
    cmp_post ctxt ri0 ri1 xo xl yo yo st st'"
proof -
  from assms obtain ch where "note_range ri0 xo xl (changed0 st) = Some ch"
    "untouched ri0 xo xl (changed0 st) ch" "\<forall>i. xo \<le> i \<and> i < xl \<longrightarrow> flag ri0 ch i"
    using note_range_ok [of ri0 "changed0 st" xo xl] by (auto simp: box_ok_def)
  then show ?thesis by (simp add: cmp_post_def untouched_refl kept_none)
qed

lemma cmp_post_length:
  "cmp_post ctxt ri0 ri1 xo xl yo yl st st' \<Longrightarrow>
     length (changed0 st') = length (changed0 st) \<and> length (changed1 st') = length (changed1 st)"
  by (simp add: cmp_post_def untouched_def)

lemma compareseq_ok:
  assumes "index_ok ri0 (length (changed0 st))" "index_ok ri1 (length (changed1 st))"
    "box_ok ctxt ri0 ri1 xo xl yo yl" "clear_box ri0 ri1 xo xl yo yl st"
  shows "\<exists>st'. compareseq ctxt ri0 ri1 xo xl yo yl fm st = Some st' \<and>
    cmp_post ctxt ri0 ri1 xo xl yo yl st st'"
  using assms
proof (induction "cmp_measure xo xl yo yl fm" arbitrary: xo xl yo yl fm st rule: less_induct)
  case less
  let ?eq = "XREF_YREF_EQUAL ctxt"
  obtain x1 y1 where s1: "slide_fwd ?eq xl yl xo yo = (x1, y1)" by fastforce
  obtain x2 y2 where s2: "slide_bwd ?eq x1 y1 xl yl = (x2, y2)" by fastforce
  note F = slide_fwd_spec [OF s1] and B = slide_bwd_spec [OF s2]
  note box = less.prems(3) and cl = less.prems(4)
  from F box have b1: "xo \<le> x1" "x1 \<le> xl" "yo \<le> y1" "y1 \<le> yl" by (auto simp: box_ok_def)
  with B have b2: "x1 \<le> x2" "x2 \<le> xl" "y1 \<le> y2" "y2 \<le> yl" by auto
  have box': "box_ok ctxt ri0 ri1 x1 x2 y1 y2" using box b1 b2 by (auto simp: box_ok_def)
  have cl': "clear_box ri0 ri1 x1 x2 y1 y2 st" using cl b1 b2 by (auto intro: clear_box_mono)
  let ?inner = "if x1 = x2 then map_option (\<lambda>ch. st\<lparr>changed1 := ch\<rparr>) (note_range ri1 y1 y2 (changed1 st))
      else if y1 = y2 then map_option (\<lambda>ch. st\<lparr>changed0 := ch\<rparr>) (note_range ri0 x1 x2 (changed0 st))
      else do { (part, fdv, bdv) \<leftarrow> diag ctxt x1 x2 y1 y2 fm (fdiag st) (bdiag st);
                st1 \<leftarrow> compareseq ctxt ri0 ri1 x1 (xmid part) y1 (ymid part)
                         (lo_minimal part) (st\<lparr>fdiag := fdv, bdiag := bdv\<rparr>);
                compareseq ctxt ri0 ri1 (xmid part) x2 (ymid part) y2 (hi_minimal part) st1 }"
  have unf: "compareseq ctxt ri0 ri1 xo xl yo yl fm st = ?inner"
    by (subst compareseq.simps) (simp only: Let_def s1 s2 prod.case)
  have "\<exists>st'. ?inner = Some st' \<and> cmp_post ctxt ri0 ri1 x1 x2 y1 y2 st st'"
  proof -
    consider (ins) "x1 = x2" | (del) "x1 \<noteq> x2" "y1 = y2" | (both) "x1 \<noteq> x2" "y1 \<noteq> y2" by blast
    then show ?thesis
    proof cases
      case ins
      then show ?thesis using note_insert_post [OF less.prems(2)] box' by simp
    next
      case del
      then show ?thesis using note_delete_post [OF less.prems(1)] box' by simp
    next
      case both
      with b2 have lt: "x1 < x2" "y1 < y2" by auto
      have "\<not> ?eq x1 y1" "\<not> ?eq (x2 - 1) (y2 - 1)" using F B lt b1 b2 by auto
      then obtain p f b where d: "diag ctxt x1 x2 y1 y2 fm (fdiag st) (bdiag st) = Some (p, f, b)"
        and p: "part_ok x1 x2 y1 y2 fm p"
        using diag_returns [of x1 y1 x2 y2 ctxt fm "fdiag st" "bdiag st"] box' lt
        by (auto simp: box_ok_def)
      from p have m: "x1 \<le> xmid p" "xmid p \<le> x2" "y1 \<le> ymid p" "ymid p \<le> y2"
        by (simp_all add: part_ok_def)
      have le: "cmp_measure x1 x2 y1 y2 fm \<le> cmp_measure xo xl yo yl fm"
        using b1 b2 by (auto simp: cmp_measure_def)
      let ?st = "st\<lparr>fdiag := f, bdiag := b\<rparr>"
      obtain st1 where c1: "compareseq ctxt ri0 ri1 x1 (xmid p) y1 (ymid p) (lo_minimal p) ?st = Some st1"
        and p1: "cmp_post ctxt ri0 ri1 x1 (xmid p) y1 (ymid p) st st1"
        using less.hyps [of x1 "xmid p" y1 "ymid p" "lo_minimal p" ?st] less.prems(1,2) box' cl' m
          part_ok_measure(1) [OF p] le by (auto simp: box_ok_def clear_box_def cmp_post_def)
      have box2: "box_ok ctxt ri0 ri1 (xmid p) x2 (ymid p) y2" using box' m by (auto simp: box_ok_def)
      have cl2: "clear_box ri0 ri1 (xmid p) x2 (ymid p) y2 st1"
        using clear_box_after [OF cl' p1 box'] m by simp
      obtain st2 where c2: "compareseq ctxt ri0 ri1 (xmid p) x2 (ymid p) y2 (hi_minimal p) st1 = Some st2"
        and p2: "cmp_post ctxt ri0 ri1 (xmid p) x2 (ymid p) y2 st1 st2"
        using less.hyps [OF _ _ _ box2 cl2, of "hi_minimal p"] less.prems(1,2)
          cmp_post_length [OF p1] part_ok_measure(2) [OF p] le b2 by auto
      have "cmp_post ctxt ri0 ri1 x1 x2 y1 y2 st st2"
        by (rule cmp_post_join [OF box' m p1 p2])
      with both d c1 c2 show ?thesis by simp
    qed
  qed
  then obtain st' where "?inner = Some st'" and post: "cmp_post ctxt ri0 ri1 x1 x2 y1 y2 st st'"
    by blast
  moreover have "cmp_post ctxt ri0 ri1 xo xl yo yl st st'"
    by (rule cmp_post_widen [OF box cl _ _ _ _ _ _ _ _ _ _ post]) (use F B b1 b2 in auto)
  ultimately show ?case using unf by simp
qed

text \<open>
  C7: on two vectors with clear flags, \<open>compareseq\<close> returns whatever the limits, the cost
  settings and the old contents of the diagonal vectors, every flag it writes is the flag of
  an element of its box, and the elements left unmarked form the same sequence on both sides.
\<close>

theorem compareseq_common_subsequence:
  assumes "length ri0 = length (xvec ctxt)" "length ri1 = length (yvec ctxt)"
    and "index_ok ri0 (length (changed0 st))" "index_ok ri1 (length (changed1 st))"
    and "box_ok ctxt ri0 ri1 xoff xlim yoff ylim" "clear_box ri0 ri1 xoff xlim yoff ylim st"
  shows "\<exists>st'. compareseq ctxt ri0 ri1 xoff xlim yoff ylim find_minimal st = Some st' \<and>
     untouched ri0 xoff xlim (changed0 st) (changed0 st') \<and>
     untouched ri1 yoff ylim (changed1 st) (changed1 st') \<and>
     kept (xvec ctxt) (flag ri0 (changed0 st')) xoff xlim = kept (yvec ctxt) (flag ri1 (changed1 st')) yoff ylim"
  using compareseq_ok [OF assms(3-6)] unfolding cmp_post_def by blast

theorem compareseq_common_subsequence_witness:
  "\<exists>st'. compareseq \<lparr>xvec = [4, 7, 2], yvec = [7, 9], heuristic = False, too_expensive = 256\<rparr>
       [0, 1, 3] [0, 1] 0 3 0 2 False
       \<lparr>fdiag = \<lambda>_. 0, bdiag = \<lambda>_. 0, changed0 = [False, False, True, False], changed1 = [False, False]\<rparr>
     = Some st' \<and>
     untouched [0, 1, 3] 0 3 [False, False, True, False] (changed0 st') \<and>
     untouched [0, 1] 0 2 [False, False] (changed1 st') \<and>
     kept [4, 7, 2 :: lin] (flag [0, 1, 3] (changed0 st')) 0 3 = kept [7, 9] (flag [0, 1] (changed1 st')) 0 2"
proof -
  let ?c = "\<lparr>xvec = [4, 7, 2], yvec = [7, 9], heuristic = False, too_expensive = 256\<rparr>"
  let ?s = "\<lparr>fdiag = \<lambda>_. 0, bdiag = \<lambda>_. 0, changed0 = [False, False, True, False],
             changed1 = [False, False]\<rparr>"
  have "clear_box [0, 1, 3] [0, 1] 0 3 0 2 ?s"
  proof -
    have "i = 0 \<or> i = 1 \<or> i = 2" if "0 \<le> i" "i < 3" for i :: int using that by auto
    then show ?thesis by (fastforce simp: clear_box_def flag_def nth_Cons')
  qed
  then show ?thesis
    using compareseq_common_subsequence [of "[0, 1, 3]" ?c "[0, 1]" ?s 0 3 0 2 False]
    by (simp add: index_ok_def box_ok_def OFFSET_MAX_def)
qed

end
