(* ===== verification/Discard.thy ===== *)
theory Discard
  imports Analyze Compareseq
begin

text \<open>
  \<open>discard_confusing_lines\<close> returns without an access outside its vectors, and its tables
  agree with each other: the lines that stay are exactly the lines whose flag is clear, in
  order, and \<open>realindexes\<close> gives their line numbers.
\<close>

section \<open>Checked access\<close>

lemma at_Some [simp]: "0 \<le> i \<Longrightarrow> i < int (length xs) \<Longrightarrow> at xs i = Some (xs ! nat i)"
  by (simp add: at_def)

lemma put_Some [simp]: "0 \<le> i \<Longrightarrow> i < int (length xs) \<Longrightarrow> put xs i v = Some (xs[nat i := v])"
  by (simp add: put_def)

lemma flag_at_low [simp]: "flag_at ch (- 1) = Some False"
  and flag_at_end [simp]: "flag_at ch (int (length ch)) = Some False"
  and flag_at_in [simp]: "0 \<le> i \<Longrightarrow> i < int (length ch) \<Longrightarrow> flag_at ch i = Some (ch ! nat i)"
  by (simp_all add: flag_at_def)

section \<open>Counting and marking\<close>

lemma count_equivs_ok:
  "\<forall>e \<in> set es. 0 \<le> e \<and> e < int (length counts) \<Longrightarrow>
     \<exists>counts'. count_equivs counts es = Some counts' \<and> length counts' = length counts"
proof (induction es arbitrary: counts)
  case (Cons e es)
  then show ?case using Cons.IH [of "counts[nat e := counts ! nat e + 1]"] by simp
qed simp

lemma mark_discards_ok:
  "\<forall>e \<in> set es. 0 \<le> e \<and> e < int (length counts) \<Longrightarrow>
     \<exists>d. mark_discards counts many es = Some d \<and> length d = length es"
  by (induction es) auto

section \<open>The loops over a run\<close>

lemma run_end_ok:
  "0 \<le> j \<Longrightarrow> j \<le> lim \<Longrightarrow> lim \<le> int (length d) \<Longrightarrow>
     \<exists>j' p'. run_end d lim j p = Some (j', p') \<and> j \<le> j' \<and> j' \<le> lim \<and>
       (j < lim \<and> d ! nat j \<noteq> 0 \<longrightarrow> j < j')"
proof (induction d lim j p rule: run_end.induct)
  case (1 d lim j p)
  show ?case
  proof (cases "j < lim \<and> d ! nat j \<noteq> 0")
    case True
    with "1.prems" obtain j' p' where
      "run_end d lim (j + 1) (if d ! nat j = 2 then p + 1 else p) = Some (j', p')"
      "j + 1 \<le> j'" "j' \<le> lim" using "1.IH" [of "d ! nat j"] by auto
    with True "1.prems" show ?thesis by (subst run_end.simps) auto
  next
    case False
    with "1.prems" show ?thesis by (subst run_end.simps) auto
  qed
qed

lemma trim_run_ok:
  "0 \<le> i \<Longrightarrow> i \<le> j \<Longrightarrow> j \<le> int (length d) \<Longrightarrow>
     \<exists>j' p' d'. trim_run i j p d = Some (j', p', d') \<and> i \<le> j' \<and> j' \<le> j \<and> length d' = length d \<and>
       (i < j \<and> d ! nat i \<noteq> 2 \<longrightarrow> i < j')"
proof (induction i j p d rule: trim_run.induct)
  case (1 i j p d)
  show ?case
  proof (cases "i < j \<and> d ! nat (j - 1) = 2")
    case True
    let ?d = "d[nat (j - 1) := 0]"
    from True "1.prems" obtain j' p' d' where
      r: "trim_run i (j - 1) (p - 1) ?d = Some (j', p', d')" "i \<le> j'" "j' \<le> j - 1"
         "length d' = length d" "i < j - 1 \<and> ?d ! nat i \<noteq> 2 \<longrightarrow> i < j'"
      using "1.IH" [of "d ! nat (j - 1)" ?d] by auto
    have "i < j'" if ne: "d ! nat i \<noteq> 2"
    proof -
      have "i \<noteq> j - 1" using True ne by auto
      with True "1.prems" have "i < j - 1" "nat i \<noteq> nat (j - 1)" by auto
      with r(5) ne show ?thesis by simp
    qed
    with r True "1.prems" show ?thesis by (subst trim_run.simps) auto
  next
    case False
    with "1.prems" show ?thesis by (subst trim_run.simps) auto
  qed
qed

lemma cancel_provisional_ok:
  "0 \<le> i \<Longrightarrow> i \<le> j \<Longrightarrow> j \<le> int (length d) \<Longrightarrow>
     \<exists>d'. cancel_provisional i j d = Some d' \<and> length d' = length d"
proof (induction i j d rule: cancel_provisional.induct)
  case (1 i j d)
  show ?case
  proof (cases "i < j")
    case True
    let ?d = "if d ! nat (j - 1) = 2 then d[nat (j - 1) := 0] else d"
    from True "1.prems" have "\<exists>d'. cancel_provisional i (j - 1) ?d = Some d' \<and> length d' = length ?d"
      by (intro "1.IH" [of "d ! nat (j - 1)" ?d]) auto
    with True "1.prems" show ?thesis by (subst cancel_provisional.simps) auto
  next
    case False
    then show ?thesis by (subst cancel_provisional.simps) auto
  qed
qed

lemma cancel_edge_ok:
  "\<forall>k. j \<le> k \<and> k < len \<longrightarrow> 0 \<le> i + step * k \<and> i + step * k < int (length d) \<Longrightarrow>
     \<exists>d'. cancel_edge step i len j consec d = Some d' \<and> length d' = length d"
proof (induction "nat (len - j)" arbitrary: j consec d rule: less_induct)
  case less
  show ?case
  proof (cases "j < len")
    case True
    let ?v = "d ! nat (i + step * j)"
    let ?d = "if ?v = 2 then d[nat (i + step * j) := 0] else d"
    let ?c = "if ?v = 2 \<or> ?v = 0 then 0 else consec + 1"
    have b: "0 \<le> i + step * j" "i + step * j < int (length d)" using less.prems True by auto
    have "\<exists>d'. cancel_edge step i len (j + 1) ?c ?d = Some d' \<and> length d' = length ?d"
      by (rule less.hyps) (use True less.prems in auto)
    with True b show ?thesis by (subst cancel_edge.simps) (auto simp: Let_def)
  next
    case False
    then show ?thesis by (subst cancel_edge.simps) auto
  qed
qed

text \<open>
  After backing up to the start of a subrun, the loop clears the subrun and goes on behind the
  line where it backed up, so it ends.
\<close>

lemma subrun_cleared:
  assumes "0 \<le> i" "i + len \<le> int (length d)" "minimum \<le> consec" "0 \<le> j" "j \<le> stop" "stop < len"
    and "\<forall>k. j \<le> k \<and> k \<le> stop \<longrightarrow> d ! nat (i + k) = 2"
  shows "\<exists>c d'. cancel_subruns i len minimum j consec d = cancel_subruns i len minimum (stop + 1) c d' \<and>
    minimum \<le> c \<and> length d' = length d"
  using assms
proof (induction "nat (stop - j)" arbitrary: j consec d rule: less_induct)
  case less
  let ?d = "d[nat (i + j) := 0]"
  have "d ! nat (i + j) = 2" using less.prems(5,7) by auto
  then have unf: "cancel_subruns i len minimum j consec d =
      cancel_subruns i len minimum (j + 1) (consec + 1) ?d"
    using less.prems by (subst cancel_subruns.simps) auto
  show ?case
  proof (cases "j = stop")
    case True
    with less.prems(3) show ?thesis unfolding unf
      by (intro exI [of _ "consec + 1"] exI [of _ ?d]) auto
  next
    case False
    have "?d ! nat (i + k) = 2" if "j + 1 \<le> k" "k \<le> stop" for k
    proof -
      have "nat (i + k) \<noteq> nat (i + j)" using that less.prems(1,4) by auto
      with less.prems(7) that show ?thesis by auto
    qed
    then have "\<exists>c d'. cancel_subruns i len minimum (j + 1) (consec + 1) ?d =
        cancel_subruns i len minimum (stop + 1) c d' \<and> minimum \<le> c \<and> length d' = length ?d"
      by (intro less.hyps) (use less.prems False in auto)
    then show ?thesis unfolding unf by simp
  qed
qed

lemma cancel_subruns_ok:
  assumes "0 \<le> i" "i + len \<le> int (length d)" "0 \<le> j"
    and "minimum \<le> consec \<or>
      0 \<le> consec \<and> consec \<le> j \<and> (\<forall>k. j - consec \<le> k \<and> k < j \<longrightarrow> d ! nat (i + k) = 2)"
  shows "\<exists>d'. cancel_subruns i len minimum j consec d = Some d' \<and> length d' = length d"
  using assms
proof (induction "nat (len - j)" arbitrary: j consec d rule: less_induct)
  case less
  show ?case
  proof (cases "j < len")
    case False
    then show ?thesis by (subst cancel_subruns.simps) auto
  next
    case True
    have v: "at d (i + j) = Some (d ! nat (i + j))" using less.prems True by simp
    note unf = cancel_subruns.simps [of i len minimum j consec d, unfolded v, simplified True]
    consider (other) "d ! nat (i + j) \<noteq> 2" | (backup) "d ! nat (i + j) = 2" "minimum = consec + 1"
      | (clear) "d ! nat (i + j) = 2" "minimum < consec + 1"
      | (count) "d ! nat (i + j) = 2" "consec + 1 < minimum" by linarith
    then show ?thesis
    proof cases
      case other
      then show ?thesis
        using less.hyps [of "j + 1" d 0] less.prems True by (simp add: unf)
    next
      case clear
      then show ?thesis
        using less.hyps [of "j + 1" "d[nat (i + j) := 0]" "consec + 1"] less.prems True
        by (simp add: unf)
    next
      case count
      have "d ! nat (i + k) = 2" if "j - consec \<le> k" "k < j + 1" for k
        using less.prems(4) count that by (cases "k = j") auto
      then show ?thesis
        using less.hyps [of "j + 1" d "consec + 1"] less.prems True count by (simp add: unf)
    next
      case backup
      with less.prems(4) have c: "0 \<le> consec" "consec \<le> j"
        "\<forall>k. j - consec \<le> k \<and> k < j \<longrightarrow> d ! nat (i + k) = 2" by auto
      have "d ! nat (i + k) = 2" if "j - consec \<le> k" "k \<le> j" for k
        using c(3) backup(1) that by (cases "k = j") auto
      then obtain c' d' where z: "cancel_subruns i len minimum (j - consec) (consec + 1) d =
          cancel_subruns i len minimum (j + 1) c' d'" "minimum \<le> c'" "length d' = length d"
        using subrun_cleared [of i len d minimum "consec + 1" "j - consec" j] less.prems True c backup
        by auto
      have "cancel_subruns i len minimum j consec d =
          cancel_subruns i len minimum (j - consec) (consec + 1) d"
        unfolding unf using backup by simp
      then show ?thesis
        using less.hyps [of "j + 1" d' c'] less.prems True z by simp
    qed
  qed
qed

lemma cancel_loop_ok:
  "0 \<le> i \<Longrightarrow> lim \<le> int (length d) \<Longrightarrow>
     \<exists>d'. cancel_loop lim i d = Some d' \<and> length d' = length d"
proof (induction "nat (lim - i)" arbitrary: i d rule: less_induct)
  case less
  show ?case
  proof (cases "i < lim")
    case False
    then show ?thesis by (subst cancel_loop.simps) auto
  next
    case True
    note IH = less.hyps [of "i + 1"]
    consider "d ! nat i = 2" | "d ! nat i = 0" | (run) "d ! nat i \<noteq> 2" "d ! nat i \<noteq> 0" by blast
    then show ?thesis
    proof cases
      case 1
      with True less.prems IH [of "d[nat i := 0]"] show ?thesis
        by (subst cancel_loop.simps) simp
    next
      case 2
      with True less.prems IH [of d] show ?thesis by (subst cancel_loop.simps) simp
    next
      case run
      obtain j0 p0 where r: "run_end d lim i 0 = Some (j0, p0)" "i < j0" "j0 \<le> lim"
        using run_end_ok [of i lim d 0] True less.prems run by auto
      obtain j p d1 where t: "trim_run i j0 p0 d = Some (j, p, d1)" "i < j" "j \<le> j0"
        "length d1 = length d"
        using trim_run_ok [of i j0 d p0] r less.prems run by auto
      let ?len = "j - i"
      obtain d2 where c2: "cancel_provisional i j d1 = Some d2" "length d2 = length d1"
        using cancel_provisional_ok [of i j d1] t r less.prems by auto
      obtain e2 where e2: "cancel_subruns i ?len (subrun_minimum ?len) 0 0 d1 = Some e2"
        "length e2 = length d1"
        using cancel_subruns_ok [of i ?len d1 0 "subrun_minimum ?len" 0] t r less.prems by auto
      obtain e3 where e3: "cancel_edge 1 i ?len 0 0 e2 = Some e3" "length e3 = length e2"
        using cancel_edge_ok [of 0 ?len i 1 e2 0] t r e2 less.prems by auto
      obtain e4 where e4: "cancel_edge (- 1) (i + (?len - 1)) ?len 0 0 e3 = Some e4"
        "length e4 = length e3"
        using cancel_edge_ok [of 0 ?len "i + (?len - 1)" "- 1" e3 0] t r e2 e3 less.prems by auto
      obtain a where "cancel_loop lim (i + 1) d2 = Some a" "length a = length d2"
        using IH [of d2] True less.prems c2 t by auto
      moreover obtain b where "cancel_loop lim (i + (?len - 1) + 1) e4 = Some b" "length b = length e4"
        using less.hyps [of "i + (?len - 1) + 1" e4] True less.prems e2 e3 e4 t by auto
      ultimately show ?thesis
        using True less.prems run r t c2 e2 e3 e4
        by (subst cancel_loop.simps) (auto simp: Let_def)
    qed
  qed
qed

section \<open>The tables\<close>

text \<open>The lines of a file whose flag is clear.\<close>

definition unchanged :: "'a list \<Rightarrow> bool list \<Rightarrow> 'a list" where
  "unchanged es ch = kept es (\<lambda>i. ch ! nat i) 0 (int (length es))"

definition clear_lines :: "bool list \<Rightarrow> lin list" where
  "clear_lines ch = filter (\<lambda>i. \<not> ch ! nat i) [0..int (length ch) - 1]"

lemma upto_shift1: "map (\<lambda>i. i + 1) [a..b] = [a + 1..b + (1::int)]"
  using upto_shift [of "\<lambda>i. i" "- 1" a b] by simp

lemma clear_lines_Cons:
  "clear_lines (c # ch) = (if c then [] else [0]) @ map (\<lambda>i. i + 1) (clear_lines ch)"
proof -
  have 1: "[0..int (length (c # ch)) - 1] = 0 # map (\<lambda>i. i + 1) [0..int (length ch) - 1]"
    by (simp add: upto_rec1 upto_shift1)
  have 2: "filter (\<lambda>i. \<not> (c # ch) ! nat i) (map (\<lambda>i. i + 1) [0..int (length ch) - 1]) =
      map (\<lambda>i. i + 1) (clear_lines ch)"
    unfolding clear_lines_def filter_map o_def
    by (intro arg_cong [where f = "map _"] filter_cong) (auto simp: nat_add_distrib)
  show ?thesis unfolding clear_lines_def [of "c # ch"] 1 filter.simps 2 by simp
qed

lemma squeeze_ok:
  assumes "squeeze minimal i es vs = (und, ri, ch)" "length vs = length es"
  shows "length ch = length es \<and> ri = map (\<lambda>k. k + i) (clear_lines ch) \<and>
    und = map (\<lambda>k. es ! nat k) (clear_lines ch)"
  using assms
proof (induction minimal i es vs arbitrary: und ri ch rule: squeeze.induct)
  case (1 minimal i e es v vs)
  obtain und' ri' ch' where s: "squeeze minimal (i + 1) es vs = (und', ri', ch')"
    by (metis prod_cases3)
  have nn: "map (\<lambda>k. (e # es) ! nat (k + 1)) (clear_lines ch') = map (\<lambda>k. es ! nat k) (clear_lines ch')"
    by (auto simp: clear_lines_def nat_add_distrib)
  have "length ch' = length es \<and> ri' = map (\<lambda>k. k + (i + 1)) (clear_lines ch') \<and>
      und' = map (\<lambda>k. es ! nat k) (clear_lines ch')"
    using "1.IH" [OF s] "1.prems"(2) by simp
  with s "1.prems" nn show ?case
    by (auto simp: Let_def clear_lines_Cons o_def algebra_simps split: if_splits)
qed (simp_all add: clear_lines_def)

text \<open>What \<open>discard_confusing_lines\<close> leaves in the description of a file.\<close>

definition file_ok :: "lin list \<Rightarrow> file_data \<Rightarrow> bool" where
  "file_ok eqs f \<longleftrightarrow> equivs f = eqs \<and> length (changed f) = length eqs \<and>
     realindexes f = clear_lines (changed f) \<and>
     undiscarded f = map (\<lambda>k. eqs ! nat k) (realindexes f)"

lemma discard_file_ok:
  assumes "\<forall>e \<in> set eqs. 0 \<le> e \<and> e < int (length counts)"
  shows "\<exists>f. discard_file minimal counts eqs = Some f \<and> file_ok eqs f"
proof -
  obtain d where d: "mark_discards counts (many_matches (length eqs div 64) 5) eqs = Some d"
    "length d = length eqs" using mark_discards_ok [OF assms] by blast
  obtain d' where d': "cancel_loop (int (length eqs)) 0 d = Some d'" "length d' = length d"
    using cancel_loop_ok [of 0 "int (length eqs)" d] d by auto
  obtain und ri ch where s: "squeeze minimal 0 eqs d' = (und, ri, ch)" by (metis prod_cases3)
  show ?thesis
    using squeeze_ok [OF s] d d' s by (simp add: discard_file_def file_ok_def)
qed

lemma discard_confusing_lines_ok:
  assumes "\<forall>e \<in> set eqs0 \<union> set eqs1. 0 \<le> e \<and> e < equiv_max"
  shows "\<exists>f0 f1. discard_confusing_lines minimal equiv_max eqs0 eqs1 = Some (f0, f1) \<and>
    file_ok eqs0 f0 \<and> file_ok eqs1 f1"
proof -
  let ?z = "replicate (nat equiv_max) (0 :: lin)"
  from assms have e0: "\<forall>e \<in> set eqs0. 0 \<le> e \<and> e < int (length ?z)"
    and e1: "\<forall>e \<in> set eqs1. 0 \<le> e \<and> e < int (length ?z)" by auto
  obtain c0 where c0: "count_equivs ?z eqs0 = Some c0" "length c0 = length ?z"
    using count_equivs_ok [OF e0] by blast
  obtain c1 where c1: "count_equivs ?z eqs1 = Some c1" "length c1 = length ?z"
    using count_equivs_ok [OF e1] by blast
  obtain f0 where "discard_file minimal c1 eqs0 = Some f0" "file_ok eqs0 f0"
    using discard_file_ok [of eqs0 c1] e0 c1 by auto
  moreover obtain f1 where "discard_file minimal c0 eqs1 = Some f1" "file_ok eqs1 f1"
    using discard_file_ok [of eqs1 c0] e1 c0 by auto
  ultimately show ?thesis using c0 c1 by (simp add: discard_confusing_lines_def)
qed

lemma squeeze_minimal: "squeeze True i es vs = (und, ri, ch) \<Longrightarrow> True \<notin> set ch"
  by (induction True i es vs arbitrary: und ri ch rule: squeeze.induct)
    (auto simp: Let_def split: prod.splits)

lemma minimal_keeps_all:
  assumes "discard_file True counts eqs = Some f"
  shows "True \<notin> set (changed f)"
proof -
  obtain d where "Some f = (case squeeze True 0 eqs d of (und, ri, ch) \<Rightarrow>
      Some \<lparr>equivs = eqs, undiscarded = und, realindexes = ri, changed = ch\<rparr>)"
    using assms unfolding discard_file_def Let_def by (metis (lifting) bind_eq_Some_conv)
  then show ?thesis by (auto dest: squeeze_minimal split: prod.splits)
qed

section \<open>From the flags of the lines that stay to the flags of all lines\<close>

lemma clear_lines_mem: "i \<in> set (clear_lines ch) \<longleftrightarrow> 0 \<le> i \<and> i < int (length ch) \<and> \<not> ch ! nat i"
  by (auto simp: clear_lines_def)

lemma clear_lines_index: "index_ok (clear_lines ch) (length ch)"
  by (auto simp: index_ok_def clear_lines_def)

lemma filter_positions:
  "map (\<lambda>i. f (xs ! nat i)) (filter (\<lambda>i. P (xs ! nat i)) [0..int (length xs) - 1]) = map f (filter P xs)"
proof (induction xs)
  case (Cons x xs)
  have 1: "[0..int (length (x # xs)) - 1] = 0 # map (\<lambda>i. i + 1) [0..int (length xs) - 1]"
    by (simp add: upto_rec1 upto_shift1)
  have 2: "map (\<lambda>i. f ((x # xs) ! nat i))
      (filter (\<lambda>i. P ((x # xs) ! nat i)) (map (\<lambda>i. i + 1) [0..int (length xs) - 1])) =
      map (\<lambda>i. f (xs ! nat i)) (filter (\<lambda>i. P (xs ! nat i)) [0..int (length xs) - 1])"
    unfolding filter_map o_def map_map
    by (intro map_cong filter_cong) (auto simp: nat_add_distrib)
  show ?case unfolding 1 using 2 Cons by (simp del: map_map)
qed simp

lemma unchanged_kept:
  assumes "file_ok eqs f" "untouched (realindexes f) lo hi (changed f) ch"
  shows "kept (undiscarded f) (flag (realindexes f) ch) 0 (int (length (undiscarded f))) = unchanged eqs ch"
proof -
  let ?ri = "realindexes f"
  from assms have ri: "?ri = clear_lines (changed f)" and und: "undiscarded f = map (\<lambda>k. eqs ! nat k) ?ri"
    and len: "length (changed f) = length eqs" "length ch = length eqs"
    by (auto simp: file_ok_def untouched_def)
  have out: "ch ! nat i" if "0 \<le> i" "i < int (length eqs)" "changed f ! nat i" for i
  proof -
    have "int (nat i) \<notin> set ?ri" using that by (auto simp: ri clear_lines_mem)
    with assms(2) that show ?thesis by (auto simp: untouched_def)
  qed
  have "kept (undiscarded f) (flag ?ri ch) 0 (int (length (undiscarded f))) =
      map (\<lambda>i. eqs ! nat (?ri ! nat i)) (filter (\<lambda>i. \<not> ch ! nat (?ri ! nat i)) [0..int (length ?ri) - 1])"
    by (auto simp: kept_def und flag_def)
  also have "\<dots> = map (\<lambda>k. eqs ! nat k) (filter (\<lambda>k. \<not> ch ! nat k) ?ri)"
    by (rule filter_positions)
  also have "filter (\<lambda>k. \<not> ch ! nat k) ?ri = filter (\<lambda>k. \<not> ch ! nat k) [0..int (length eqs) - 1]"
    unfolding ri clear_lines_def filter_filter len by (intro filter_cong) (use out in auto)
  finally show ?thesis by (simp add: unchanged_def kept_def)
qed

end
