(* ===== verification/Shift.thy ===== *)
theory Shift
  imports Discard
begin

text \<open>
  \<open>shift_boundaries\<close> moves runs of changed lines without changing what the files have in
  common: the sequence of unchanged lines of each file stays the same. The position in
  the other file is tied to the run by the number of unchanged lines before it, which gives
  that every access is inside the vectors or at their extra elements; the loops end because
  runs only grow by merging and the number of changed lines passed increases.
\<close>

section \<open>Counting the unchanged lines before a position\<close>

definition clear_count :: "bool list \<Rightarrow> lin \<Rightarrow> int" where
  "clear_count ch k = int (length (filter (\<lambda>i. \<not> ch ! nat i) [0..k - 1]))"

lemma clear_count_0 [simp]: "clear_count ch 0 = 0"
  by (simp add: clear_count_def)

lemma clear_count_nonneg: "0 \<le> clear_count ch k"
  by (simp add: clear_count_def)

lemma clear_count_Suc:
  "0 \<le> k \<Longrightarrow> clear_count ch (k + 1) = clear_count ch k + (if ch ! nat k then 0 else 1)"
  using upto_rec2 [of 0 k] by (simp add: clear_count_def)

lemma clear_count_pred:
  "0 < k \<Longrightarrow> clear_count ch k = clear_count ch (k - 1) + (if ch ! nat (k - 1) then 0 else 1)"
  using clear_count_Suc [of "k - 1" ch] by simp

lemma clear_count_run:
  assumes "0 \<le> a" "a \<le> b" "\<forall>k. a \<le> k \<and> k < b \<longrightarrow> ch ! nat k"
  shows "clear_count ch b = clear_count ch a"
  using assms(2,3)
proof (induction b rule: int_ge_induct)
  case (step b)
  with assms(1) show ?case by (simp add: clear_count_Suc)
qed simp

lemma clear_count_mono:
  assumes "0 \<le> a" "a \<le> b"
  shows "clear_count ch a \<le> clear_count ch b"
  using assms(2)
proof (induction b rule: int_ge_induct)
  case (step b)
  with assms(1) show ?case by (simp add: clear_count_Suc)
qed simp

lemma clear_count_cong:
  "\<forall>i. 0 \<le> i \<and> i < k \<longrightarrow> ch' ! nat i = ch ! nat i \<Longrightarrow> clear_count ch' k = clear_count ch k"
  unfolding clear_count_def by (intro arg_cong [where f = "\<lambda>xs. int (length xs)"] filter_cong) auto

lemma clear_count_less:
  assumes "0 \<le> k" "k < n" "\<not> ch ! nat k"
  shows "clear_count ch k < clear_count ch n"
  using clear_count_Suc [OF assms(1), of ch] clear_count_mono [of "k + 1" n ch] assms by simp

lemma unchanged_length:
  "length ch = length es \<Longrightarrow> int (length (unchanged es ch)) = clear_count ch (int (length ch))"
  by (simp add: unchanged_def kept_def clear_count_def)

section \<open>Scanning the flags\<close>

lemma scan_up_ok:
  assumes "0 \<le> i" "i \<le> int (length ch)"
  shows "\<exists>i'. scan_up ch i = Some i' \<and> i \<le> i' \<and> i' \<le> int (length ch) \<and>
    (\<forall>k. i \<le> k \<and> k < i' \<longrightarrow> ch ! nat k) \<and> (i' < int (length ch) \<longrightarrow> \<not> ch ! nat i') \<and>
    clear_count ch i' = clear_count ch i"
proof -
  have *: "\<exists>i'. scan_up ch i = Some i' \<and> i \<le> i' \<and> i' \<le> int (length ch) \<and>
    (\<forall>k. i \<le> k \<and> k < i' \<longrightarrow> ch ! nat k) \<and> (i' < int (length ch) \<longrightarrow> \<not> ch ! nat i')"
    using assms
  proof (induction ch i rule: scan_up.induct)
    case (1 ch i)
    show ?case
    proof (cases "i < int (length ch) \<and> ch ! nat i")
      case True
      with "1.prems" obtain i' where i': "scan_up ch (i + 1) = Some i'" "i + 1 \<le> i'"
        "i' \<le> int (length ch)" "\<forall>k. i + 1 \<le> k \<and> k < i' \<longrightarrow> ch ! nat k"
        "i' < int (length ch) \<longrightarrow> \<not> ch ! nat i'"
        using "1.IH" [of True] by auto
      have "ch ! nat k" if "i \<le> k" "k < i'" for k
        using i'(4) True that by (cases "k = i") auto
      with i' True "1.prems" show ?thesis by (subst scan_up.simps) auto
    next
      case False
      then consider "i = int (length ch)" | "i < int (length ch)" "\<not> ch ! nat i"
        using "1.prems" by linarith
      then show ?thesis using "1.prems" by cases (subst scan_up.simps, auto)+
    qed
  qed
  then show ?thesis using assms(1) clear_count_run [of i _ ch] by blast
qed

lemma scan_down_ok:
  "- 1 \<le> i \<Longrightarrow> i < int (length ch) \<Longrightarrow>
     \<exists>i'. scan_down ch i = Some i' \<and> - 1 \<le> i' \<and> i' \<le> i \<and>
       (\<forall>k. i' < k \<and> k \<le> i \<longrightarrow> ch ! nat k) \<and> (0 \<le> i' \<longrightarrow> \<not> ch ! nat i')"
proof (induction ch i rule: scan_down.induct)
  case (1 ch i)
  show ?case
  proof (cases "0 \<le> i \<and> ch ! nat i")
    case True
    with "1.prems" obtain i' where i': "scan_down ch (i - 1) = Some i'" "- 1 \<le> i'" "i' \<le> i - 1"
      "\<forall>k. i' < k \<and> k \<le> i - 1 \<longrightarrow> ch ! nat k" "0 \<le> i' \<longrightarrow> \<not> ch ! nat i'"
      using "1.IH" [of True] by auto
    have "ch ! nat k" if "i' < k" "k \<le> i" for k
      using i'(4) True that by (cases "k = i") auto
    with i' True "1.prems" show ?thesis by (subst scan_down.simps) auto
  next
    case False
    then consider "i = - 1" | "0 \<le> i" "\<not> ch ! nat i" using "1.prems" by linarith
    then show ?thesis using "1.prems" by cases (subst scan_down.simps, auto)+
  qed
qed

text \<open>Going back over one unchanged line of the other file.\<close>

lemma scan_back_line:
  assumes "0 \<le> j" "j \<le> int (length other)" "0 < clear_count other j"
  shows "\<exists>j'. scan_down other (j - 1) = Some j' \<and> 0 \<le> j' \<and> j' < j \<and> \<not> other ! nat j' \<and>
    clear_count other j' = clear_count other j - 1"
proof -
  obtain j' where j': "scan_down other (j - 1) = Some j'" "- 1 \<le> j'" "j' \<le> j - 1"
    "\<forall>k. j' < k \<and> k \<le> j - 1 \<longrightarrow> other ! nat k" "0 \<le> j' \<longrightarrow> \<not> other ! nat j'"
    using scan_down_ok [of "j - 1" other] assms(1,2) by auto
  then have run: "clear_count other j = clear_count other (j' + 1)"
    by (intro clear_count_run) auto
  then have "0 \<le> j'" using j'(2) assms(3) by (cases "j' = - 1") auto
  with run j' show ?thesis by (auto simp: clear_count_Suc)
qed

text \<open>Going forward over one unchanged line, noting whether changed lines follow it.\<close>

lemma pass_other_ok:
  assumes "0 \<le> j" "j < int (length other)" "\<not> other ! nat j"
  shows "\<exists>j' c'. pass_other other i j c = Some (j', c') \<and> j < j' \<and> j' \<le> int (length other) \<and>
    (j' < int (length other) \<longrightarrow> \<not> other ! nat j') \<and> (c' = c \<or> c' = i) \<and>
    clear_count other j' = clear_count other j + 1"
proof -
  have *: "\<exists>j' c'. pass_other other i j c = Some (j', c') \<and> j < j' \<and> j' \<le> int (length other) \<and>
    (\<forall>k. j < k \<and> k < j' \<longrightarrow> other ! nat k) \<and>
    (j' < int (length other) \<longrightarrow> \<not> other ! nat j') \<and> (c' = c \<or> c' = i)"
    using assms(1,2)
  proof (induction other i j c rule: pass_other.induct)
    case (1 other i j c)
    show ?case
    proof (cases "j + 1 < int (length other) \<and> other ! nat (j + 1)")
      case True
      with "1.prems" obtain j' c' where j': "pass_other other i (j + 1) i = Some (j', c')" "j + 1 < j'"
        "j' \<le> int (length other)" "\<forall>k. j + 1 < k \<and> k < j' \<longrightarrow> other ! nat k"
        "j' < int (length other) \<longrightarrow> \<not> other ! nat j'" "c' = i"
        using "1.IH" [of True] by auto
      have "other ! nat k" if "j < k" "k < j'" for k
        using j'(4) True that by (cases "k = j + 1") auto
      with j' True "1.prems" show ?thesis by (subst pass_other.simps) auto
    next
      case False
      then consider "j + 1 = int (length other)" | "j + 1 < int (length other)" "\<not> other ! nat (j + 1)"
        using "1.prems" by linarith
      then show ?thesis using "1.prems" by cases (subst pass_other.simps, auto)+
    qed
  qed
  then obtain j' c' where j': "pass_other other i j c = Some (j', c')" "j < j'"
    "j' \<le> int (length other)" "\<forall>k. j < k \<and> k < j' \<longrightarrow> other ! nat k"
    "j' < int (length other) \<longrightarrow> \<not> other ! nat j'" "c' = c \<or> c' = i" by blast
  then have "clear_count other j' = clear_count other (j + 1)"
    using assms by (intro clear_count_run) auto
  with j' assms show ?thesis by (auto simp: clear_count_Suc)
qed

section \<open>Moving a run by one line\<close>

lemma kept_single: "kept vec P k (k + 1) = (if P k then [] else [vec ! nat k])"
  by (simp add: kept_def)

lemma kept_around:
  assumes "0 \<le> a" "a < b" "b < n"
  shows "kept vec P 0 n =
    kept vec P 0 a @ kept vec P a (a + 1) @ kept vec P (a + 1) b @ kept vec P b (b + 1) @ kept vec P (b + 1) n"
  using assms kept_split [of 0 a n vec P] kept_split [of a "a + 1" n vec P]
    kept_split [of "a + 1" b n vec P] kept_split [of b "b + 1" n vec P] by simp

lemma nth_two_updates:
  assumes "0 \<le> a" "a < b" "b < int (length ch)" "0 \<le> k"
  shows "ch[nat a := u, nat b := v] ! nat k = (if k = b then v else if k = a then u else ch ! nat k)"
proof -
  have "nat k = nat b \<longleftrightarrow> k = b" "nat k = nat a \<longleftrightarrow> k = a" using assms by auto
  with assms show ?thesis by (auto simp: nth_list_update)
qed

lemma move_back_unchanged:
  assumes ab: "0 \<le> a" "a < b" "b < int (length es)" and len: "length ch = length es"
    and a: "\<not> ch ! nat a" and run: "\<forall>k. a < k \<and> k \<le> b \<longrightarrow> ch ! nat k" and eq: "es ! nat a = es ! nat b"
  shows "unchanged es (ch[nat a := True, nat b := False]) = unchanged es ch"
proof -
  let ?ch = "ch[nat a := True, nat b := False]"
  let ?k = "kept es (\<lambda>i. ch ! nat i)" and ?k' = "kept es (\<lambda>i. ?ch ! nat i)"
  have nth: "?ch ! nat k = (if k = b then False else if k = a then True else ch ! nat k)" if "0 \<le> k" for k
    using ab len that by (intro nth_two_updates) auto
  have "?k' 0 a = ?k 0 a" "?k' (b + 1) (int (length es)) = ?k (b + 1) (int (length es))"
    by (rule kept_cong, use ab nth in auto)+
  moreover have "?k' (a + 1) b = []" "?k (a + 1) b = []"
    by (rule kept_none, use ab nth run in auto)+
  moreover have "?k' a (a + 1) @ ?k' b (b + 1) = ?k a (a + 1) @ ?k b (b + 1)"
    using nth [of a] nth [of b] ab a run eq by (simp add: kept_single)
  ultimately show ?thesis
    unfolding unchanged_def by (simp add: kept_around [OF ab])
qed

lemma move_forward_unchanged:
  assumes ab: "0 \<le> a" "a < b" "b < int (length es)" and len: "length ch = length es"
    and b: "\<not> ch ! nat b" and run: "\<forall>k. a \<le> k \<and> k < b \<longrightarrow> ch ! nat k" and eq: "es ! nat a = es ! nat b"
  shows "unchanged es (ch[nat a := False, nat b := True]) = unchanged es ch"
proof -
  let ?ch = "ch[nat a := False, nat b := True]"
  have nth: "?ch ! nat k = (if k = b then True else if k = a then False else ch ! nat k)" if "0 \<le> k" for k
    using ab len that by (intro nth_two_updates) auto
  have "unchanged es (?ch[nat a := True, nat b := False]) = unchanged es ?ch"
    by (rule move_back_unchanged) (use ab len nth run eq in auto)
  moreover have "?ch[nat a := True, nat b := False] = ch"
  proof (rule nth_equalityI)
    fix i assume "i < length (?ch[nat a := True, nat b := False])"
    moreover have "ch ! nat a" using run ab by auto
    ultimately show "?ch[nat a := True, nat b := False] ! i = ch ! i"
      using ab b len by (auto simp: nth_list_update)
  qed simp
  ultimately show ?thesis by simp
qed

text \<open>
  The state of a run: \<open>[start, i)\<close> is changed, the lines next to it are not, and the position
  \<open>j\<close> of the other file has as many unchanged lines before it as the run.
\<close>

definition synced :: "lin list \<Rightarrow> bool list \<Rightarrow> bool list \<Rightarrow> bool" where
  "synced es other ch \<longleftrightarrow> length ch = length es \<and>
     int (length (unchanged es ch)) = clear_count other (int (length other))"

definition run_inv :: "lin list \<Rightarrow> bool list \<Rightarrow> bool list \<Rightarrow> lin \<Rightarrow> lin \<Rightarrow> lin \<Rightarrow> bool" where
  "run_inv es other ch start i j \<longleftrightarrow> synced es other ch \<and>
     0 \<le> start \<and> start < i \<and> i \<le> int (length es) \<and> (\<forall>k. start \<le> k \<and> k < i \<longrightarrow> ch ! nat k) \<and>
     (i < int (length es) \<longrightarrow> \<not> ch ! nat i) \<and>
     0 \<le> j \<and> j \<le> int (length other) \<and> (j < int (length other) \<longrightarrow> \<not> other ! nat j) \<and>
     clear_count ch start = clear_count other j"

definition left_clear :: "bool list \<Rightarrow> lin \<Rightarrow> bool" where
  "left_clear ch start \<longleftrightarrow> (0 < start \<longrightarrow> \<not> ch ! nat (start - 1))"

lemma run_inv_count:
  "run_inv es other ch start i j \<Longrightarrow> clear_count ch i = clear_count other j"
  using clear_count_run [of start i ch] by (auto simp: run_inv_def)

text \<open>One step back, before any merging with an earlier run.\<close>

lemma run_step_back:
  assumes inv: "run_inv es other ch start i j" and left: "left_clear ch start" "0 < start"
    and eq: "es ! nat (start - 1) = es ! nat (i - 1)"
  defines "ch2 \<equiv> ch[nat (start - 1) := True, nat (i - 1) := False]"
  shows "\<exists>j'. scan_down other (j - 1) = Some j' \<and> run_inv es other ch2 (start - 1) (i - 1) j' \<and>
    clear_count other j' = clear_count other j - 1 \<and> unchanged es ch2 = unchanged es ch \<and>
    (\<forall>k. 0 \<le> k \<and> k < start - 1 \<longrightarrow> ch2 ! nat k = ch ! nat k)"
proof -
  from inv have b: "start < i" "i \<le> int (length es)" "length ch = length es"
    "\<forall>k. start \<le> k \<and> k < i \<longrightarrow> ch ! nat k" "0 \<le> j" "j \<le> int (length other)"
    "clear_count ch start = clear_count other j"
    by (auto simp: run_inv_def synced_def)
  have nth: "ch2 ! nat k = (if k = i - 1 then False else if k = start - 1 then True else ch ! nat k)"
    if "0 \<le> k" for k
    unfolding ch2_def using b left that by (intro nth_two_updates) auto
  have un: "unchanged es ch2 = unchanged es ch"
    unfolding ch2_def by (rule move_back_unchanged) (use b left eq in \<open>auto simp: left_clear_def\<close>)
  have cnt: "clear_count ch (start - 1) = clear_count other j - 1"
    using clear_count_pred [of start ch] left b(7) by (simp add: left_clear_def)
  with clear_count_nonneg [of ch "start - 1"] have "0 < clear_count other j" by simp
  then obtain j' where j': "scan_down other (j - 1) = Some j'" "0 \<le> j'" "j' < j" "\<not> other ! nat j'"
    "clear_count other j' = clear_count other j - 1"
    using scan_back_line [OF b(5,6)] by blast
  have "clear_count ch2 (start - 1) = clear_count ch (start - 1)"
    by (rule clear_count_cong) (use nth b in auto)
  with cnt j' have "clear_count ch2 (start - 1) = clear_count other j'" by simp
  moreover have "synced es other ch2" using inv un by (simp add: run_inv_def synced_def ch2_def)
  moreover have "\<forall>k. start - 1 \<le> k \<and> k < i - 1 \<longrightarrow> ch2 ! nat k"
    using nth left(2) b(4) by auto
  moreover have "\<not> ch2 ! nat (i - 1)" using nth [of "i - 1"] b left by simp
  ultimately have "run_inv es other ch2 (start - 1) (i - 1) j'"
    using b j' left(2) by (auto simp: run_inv_def)
  then show ?thesis using j' un nth b by auto
qed

text \<open>A movement keeps the unchanged lines, and neither the run nor the changed lines passed shrink.\<close>

definition moves_to :: "lin list \<Rightarrow> bool list \<Rightarrow> bool list \<Rightarrow> lin \<Rightarrow> lin \<Rightarrow> lin \<Rightarrow> bool list \<Rightarrow> lin \<Rightarrow>
    lin \<Rightarrow> lin \<Rightarrow> bool" where
  "moves_to es other ch start i j ch' start' i' j' \<longleftrightarrow>
     run_inv es other ch' start' i' j' \<and> unchanged es ch' = unchanged es ch \<and>
     i - start \<le> i' - start' \<and> i - clear_count other j \<le> i' - clear_count other j'"

lemma moves_to_refl: "run_inv es other ch start i j \<Longrightarrow> moves_to es other ch start i j ch start i j"
  by (simp add: moves_to_def)

lemma moves_to_trans:
  "moves_to es other ch s i j ch1 s1 i1 j1 \<Longrightarrow> moves_to es other ch1 s1 i1 j1 ch2 s2 i2 j2 \<Longrightarrow>
     moves_to es other ch s i j ch2 s2 i2 j2"
  by (simp add: moves_to_def)

lemma shift_back_ok:
  assumes "run_inv es other ch start i j" "left_clear ch start"
  shows "\<exists>ch' start' i' j'. shift_back es other ch start i j = Some (ch', start', i', j') \<and>
    moves_to es other ch start i j ch' start' i' j' \<and> left_clear ch' start'"
  using assms
proof (induction "nat start" arbitrary: ch start i j rule: less_induct)
  case less
  from less.prems(1) have b: "0 \<le> start" "start < i" "i \<le> int (length es)" "length ch = length es"
    by (auto simp: run_inv_def synced_def)
  show ?case
  proof (cases "start \<noteq> 0 \<and> es ! nat (start - 1) = es ! nat (i - 1)")
    case False
    with b less.prems show ?thesis
      by (subst shift_back.simps) (auto intro: moves_to_refl)
  next
    case True
    with b have pos: "0 < start" by simp
    define ch2 where "ch2 = ch[nat (start - 1) := True, nat (i - 1) := False]"
    obtain j' where j': "scan_down other (j - 1) = Some j'"
      and inv: "run_inv es other ch2 (start - 1) (i - 1) j'"
      and cnt: "clear_count other j' = clear_count other j - 1" and un: "unchanged es ch2 = unchanged es ch"
      using run_step_back [OF less.prems pos] True unfolding ch2_def by blast
    have "- 1 \<le> start - 1 - 1" "start - 1 - 1 < int (length ch2)" using pos b by (simp_all add: ch2_def)
    from scan_down_ok [OF this]
    obtain p where p: "scan_down ch2 (start - 1 - 1) = Some p" "- 1 \<le> p" "p \<le> start - 1 - 1"
      "\<forall>k. p < k \<and> k \<le> start - 1 - 1 \<longrightarrow> ch2 ! nat k" "0 \<le> p \<longrightarrow> \<not> ch2 ! nat p"
      by blast
    have "ch2 ! nat k" if "p + 1 \<le> k" "k < i - 1" for k
      using p(4) inv that by (cases "k \<le> start - 1 - 1") (auto simp: run_inv_def)
    then have run: "\<forall>k. p + 1 \<le> k \<and> k < i - 1 \<longrightarrow> ch2 ! nat k" by blast
    have "clear_count ch2 (start - 1) = clear_count ch2 (p + 1)"
      by (rule clear_count_run) (use p in auto)
    with inv run p have inv': "run_inv es other ch2 (p + 1) (i - 1) j'"
      by (auto simp: run_inv_def)
    have left: "left_clear ch2 (p + 1)" using p(5) by (simp add: left_clear_def)
    have m: "moves_to es other ch start i j ch2 (p + 1) (i - 1) j'"
      using inv' un cnt p(3) by (simp add: moves_to_def)
    have "nat (p + 1) < nat start" using p pos by simp
    from less.hyps [OF this inv' left] obtain ch' s' i' k' where
      r: "shift_back es other ch2 (p + 1) (i - 1) j' = Some (ch', s', i', k')"
      "moves_to es other ch2 (p + 1) (i - 1) j' ch' s' i' k'" "left_clear ch' s'" by blast
    have "shift_back es other ch start i j = shift_back es other ch2 (p + 1) (i - 1) j'"
      using True b pos p(1) j' by (subst shift_back.simps) (simp add: ch2_def)
    with r moves_to_trans [OF m r(2)] show ?thesis by auto
  qed
qed

text \<open>
  Going forward. If the run keeps its length \<open>len\<close>, each step can be undone: between
  \<open>corresponding\<close> and the end of the run the lines repeat with period \<open>len\<close>.
\<close>

definition can_return :: "lin list \<Rightarrow> bool list \<Rightarrow> lin \<Rightarrow> lin \<Rightarrow> lin \<Rightarrow> lin \<Rightarrow> bool" where
  "can_return es ch len start i c \<longleftrightarrow> c = int (length es) \<or>
     (len \<le> c \<and> c \<le> i \<and> (\<forall>k. c \<le> k \<and> k < i \<longrightarrow> es ! nat k = es ! nat (k - len)) \<and>
      (\<forall>k. c - len \<le> k \<and> k < start \<longrightarrow> \<not> ch ! nat k))"

lemma run_step_forward:
  assumes inv: "run_inv es other ch start i j" and i: "i < int (length es)"
    and eq: "es ! nat start = es ! nat i"
  defines "ch2 \<equiv> ch[nat start := False, nat i := True]"
  shows "\<exists>i' j' c'. scan_up ch2 (i + 1) = Some i' \<and> pass_other other i' j c = Some (j', c') \<and>
    i < i' \<and> (c' = c \<or> c' = i') \<and> left_clear ch2 (start + 1) \<and>
    moves_to es other ch start i j ch2 (start + 1) i' j' \<and>
    (\<forall>k. 0 \<le> k \<and> k < start \<longrightarrow> ch2 ! nat k = ch ! nat k) \<and> \<not> ch2 ! nat start"
proof -
  from inv have b: "0 \<le> start" "start < i" "length ch = length es"
    "\<forall>k. start \<le> k \<and> k < i \<longrightarrow> ch ! nat k" "\<not> ch ! nat i" "0 \<le> j" "j \<le> int (length other)"
    "j < int (length other) \<longrightarrow> \<not> other ! nat j"
    "clear_count ch start = clear_count other j"
    using i by (auto simp: run_inv_def synced_def)
  have nth: "ch2 ! nat k = (if k = i then True else if k = start then False else ch ! nat k)"
    if "0 \<le> k" for k
    unfolding ch2_def using b i that by (intro nth_two_updates) auto
  have un: "unchanged es ch2 = unchanged es ch"
    unfolding ch2_def by (rule move_forward_unchanged) (use b i eq in auto)
  have "clear_count other j < clear_count ch (int (length ch))"
    using clear_count_less [of i "int (length ch)" ch] run_inv_count [OF inv] b i by simp
  also have "\<dots> = clear_count other (int (length other))"
    using inv b(3) unchanged_length [of ch es] by (auto simp: run_inv_def synced_def)
  finally have jm: "j < int (length other)" using b(7) by (cases "j = int (length other)") auto
  have len2: "length ch2 = length es" using b by (simp add: ch2_def)
  have "0 \<le> i + 1" "i + 1 \<le> int (length ch2)" using b i len2 by simp_all
  from scan_up_ok [OF this]
  obtain i' where i': "scan_up ch2 (i + 1) = Some i'" "i + 1 \<le> i'" "i' \<le> int (length ch2)"
    "\<forall>k. i + 1 \<le> k \<and> k < i' \<longrightarrow> ch2 ! nat k" "i' < int (length ch2) \<longrightarrow> \<not> ch2 ! nat i'"
    by blast
  obtain j' c' where j': "pass_other other i' j c = Some (j', c')" "j < j'" "j' \<le> int (length other)"
    "j' < int (length other) \<longrightarrow> \<not> other ! nat j'" "c' = c \<or> c' = i'"
    "clear_count other j' = clear_count other j + 1"
    using pass_other_ok [of j other i' c] b jm by blast
  have "clear_count ch2 start = clear_count ch start"
    by (rule clear_count_cong) (use nth b in auto)
  then have cnt: "clear_count ch2 (start + 1) = clear_count other j'"
    using nth [of start] b j' by (simp add: clear_count_Suc)
  have "ch2 ! nat k" if "start + 1 \<le> k" "k < i'" for k
    using nth [of k] b i'(4) that by (cases "k \<le> i") auto
  then have run: "\<forall>k. start + 1 \<le> k \<and> k < i' \<longrightarrow> ch2 ! nat k" by blast
  have "run_inv es other ch2 (start + 1) i' j'"
    using inv un cnt run i' j' b len2 by (auto simp: run_inv_def synced_def)
  then have "moves_to es other ch start i j ch2 (start + 1) i' j'"
    using un i'(2) j'(6) by (simp add: moves_to_def)
  moreover have "\<not> ch2 ! nat start" using nth [of start] b by simp
  ultimately show ?thesis
    using i' j' nth b by (auto simp: left_clear_def)
qed

lemma can_return_step:
  assumes "can_return es ch len start i c" "i - start = len" "0 \<le> start" "start < i"
    and "es ! nat start = es ! nat i" "\<forall>k. 0 \<le> k \<and> k < start \<longrightarrow> ch2 ! nat k = ch ! nat k"
    and "\<not> ch2 ! nat start" "c' = c \<or> c' = i + 1"
  shows "can_return es ch2 len (start + 1) (i + 1) c'"
proof (cases "c' = i + 1 \<or> c' = int (length es)")
  case True
  then show ?thesis using assms(2-4) by (auto simp: can_return_def)
next
  case False
  with assms(1,8) have c: "c' = c" "len \<le> c" "c \<le> i"
    "\<forall>k. c \<le> k \<and> k < i \<longrightarrow> es ! nat k = es ! nat (k - len)" "\<forall>k. c - len \<le> k \<and> k < start \<longrightarrow> \<not> ch ! nat k"
    by (auto simp: can_return_def)
  have "start = i - len" using assms(2) by simp
  then have "es ! nat k = es ! nat (k - len)" if "c \<le> k" "k < i + 1" for k
    using c(4) assms(5) that by (cases "k = i") auto
  moreover have "\<not> ch2 ! nat k" if "c - len \<le> k" "k < start + 1" for k
    using c(2,5) assms(6,7) that by (cases "k = start") auto
  ultimately show ?thesis using c by (auto simp: can_return_def)
qed

lemma shift_forward_ok:
  assumes "run_inv es other ch start i j" "left_clear ch start" "len \<le> i - start"
    and "i - start = len \<longrightarrow> can_return es ch len start i c"
  shows "\<exists>ch' start' i' j' c'.
    shift_forward es other (int (length es)) ch start i j c = Some (ch', start', i', j', c') \<and>
    moves_to es other ch start i j ch' start' i' j' \<and> left_clear ch' start' \<and>
    (i' - start' = len \<longrightarrow> can_return es ch' len start' i' c')"
  using assms
proof (induction "nat (int (length es) - i)" arbitrary: ch start i j c rule: less_induct)
  case less
  from less.prems(1) have b: "0 \<le> start" "start < i" "i \<le> int (length es)" "length ch = length es"
    by (auto simp: run_inv_def synced_def)
  show ?case
  proof (cases "i \<noteq> int (length es) \<and> es ! nat start = es ! nat i")
    case False
    with b less.prems show ?thesis
      by (subst shift_forward.simps) (auto intro: moves_to_refl)
  next
    case True
    with b have i: "i < int (length es)" by simp
    define ch2 where "ch2 = ch[nat start := False, nat i := True]"
    obtain i' j' c' where s: "scan_up ch2 (i + 1) = Some i'" "pass_other other i' j c = Some (j', c')"
      and i': "i < i'" and c': "c' = c \<or> c' = i'" and left: "left_clear ch2 (start + 1)"
      and m: "moves_to es other ch start i j ch2 (start + 1) i' j'"
      and ch2: "\<forall>k. 0 \<le> k \<and> k < start \<longrightarrow> ch2 ! nat k = ch ! nat k" "\<not> ch2 ! nat start"
      using run_step_forward [OF less.prems(1) i, of c] True unfolding ch2_def by blast
    have unf: "shift_forward es other (int (length es)) ch start i j c =
        shift_forward es other (int (length es)) ch2 (start + 1) i' j' c'"
      using True b i s by (subst shift_forward.simps) (simp add: ch2_def)
    have ret: "can_return es ch2 len (start + 1) i' c'" if "i' - (start + 1) = len"
    proof -
      have "i' = i + 1" "i - start = len" using that i' less.prems(3) by auto
      then show ?thesis
        using can_return_step [of es ch len start i c ch2 c'] less.prems(4) b True ch2 c' by auto
    qed
    have inv': "run_inv es other ch2 (start + 1) i' j'" "len \<le> i' - (start + 1)"
      using m less.prems(3) by (auto simp: moves_to_def)
    have "nat (int (length es) - i') < nat (int (length es) - i)" using i i' by simp
    from less.hyps [OF this inv'(1) left inv'(2)] ret obtain ch3 s3 i3 j3 c3 where
      r: "shift_forward es other (int (length es)) ch2 (start + 1) i' j' c' = Some (ch3, s3, i3, j3, c3)"
      "moves_to es other ch2 (start + 1) i' j' ch3 s3 i3 j3" "left_clear ch3 s3"
      "i3 - s3 = len \<longrightarrow> can_return es ch3 len s3 i3 c3" by blast
    with unf moves_to_trans [OF m r(2)] show ?thesis by auto
  qed
qed

lemma merge_run_ok:
  assumes "run_inv es other ch start i j" "left_clear ch start"
  shows "\<exists>ch' start' i' j' c. merge_run es other (int (length es)) ch start i j = Some (ch', start', i', j', c) \<and>
    moves_to es other ch start i j ch' start' i' j' \<and> can_return es ch' (i' - start') start' i' c"
  using assms
proof (induction "nat (int (length es) - (i - start))" arbitrary: ch start i j rule: less_induct)
  case less
  let ?n = "int (length es)"
  obtain ch1 s1 i1 j1 where b1: "shift_back es other ch start i j = Some (ch1, s1, i1, j1)"
    "moves_to es other ch start i j ch1 s1 i1 j1" "left_clear ch1 s1"
    using shift_back_ok [OF less.prems] by blast
  from b1(2) have inv1: "run_inv es other ch1 s1 i1 j1" "i - start \<le> i1 - s1" by (simp_all add: moves_to_def)
  from inv1(1) have "0 \<le> j1" "j1 \<le> int (length other)" by (auto simp: run_inv_def)
  then obtain o1 where o1: "flag_at other (j1 - 1) = Some o1" by (cases "j1 = 0") auto
  let ?c = "if o1 then i1 else ?n"
  have "can_return es ch1 (i1 - s1) s1 i1 ?c"
    using inv1(1) by (auto simp: can_return_def run_inv_def)
  then have "i1 - s1 = i - start \<longrightarrow> can_return es ch1 (i - start) s1 i1 ?c" by auto
  from shift_forward_ok [OF inv1(1) b1(3) inv1(2) this]
  obtain ch2 s2 i2 j2 c2 where
    f: "shift_forward es other ?n ch1 s1 i1 j1 ?c = Some (ch2, s2, i2, j2, c2)"
      "moves_to es other ch1 s1 i1 j1 ch2 s2 i2 j2" "left_clear ch2 s2"
      "i2 - s2 = i - start \<longrightarrow> can_return es ch2 (i - start) s2 i2 c2" by blast
  note m = moves_to_trans [OF b1(2) f(2)]
  have unf: "merge_run es other ?n ch start i j =
      (if i - start \<noteq> i2 - s2 then merge_run es other ?n ch2 s2 i2 j2 else Some (ch2, s2, i2, j2, c2))"
    by (subst merge_run.simps) (simp add: b1(1) o1 f(1) Let_def)
  show ?case
  proof (cases "i - start = i2 - s2")
    case True
    with unf m f(4) show ?thesis by auto
  next
    case False
    from m have inv2: "run_inv es other ch2 s2 i2 j2" "i - start \<le> i2 - s2" by (simp_all add: moves_to_def)
    with False have "nat (?n - (i2 - s2)) < nat (?n - (i - start))" by (auto simp: run_inv_def)
    from less.hyps [OF this inv2(1) f(3)] obtain ch3 s3 i3 j3 c3 where
      "merge_run es other ?n ch2 s2 i2 j2 = Some (ch3, s3, i3, j3, c3)"
      "moves_to es other ch2 s2 i2 j2 ch3 s3 i3 j3" "can_return es ch3 (i3 - s3) s3 i3 c3" by blast
    with unf False moves_to_trans [OF m] show ?thesis by auto
  qed
qed

lemma move_to_corresponding_ok:
  assumes "run_inv es other ch start i j" "can_return es ch (i - start) start i c"
  shows "\<exists>ch' start' i' j'. move_to_corresponding other c ch start i j = Some (ch', start', i', j') \<and>
    moves_to es other ch start i j ch' start' i' j'"
  using assms
proof (induction "nat (i - c)" arbitrary: ch start i j rule: less_induct)
  case less
  from less.prems(1) have b: "0 \<le> start" "start < i" "i \<le> int (length es)" "length ch = length es"
    by (auto simp: run_inv_def synced_def)
  show ?case
  proof (cases "c < i")
    case False
    with less.prems(1) show ?thesis
      by (subst move_to_corresponding.simps) (auto intro: moves_to_refl)
  next
    case True
    let ?len = "i - start"
    from True less.prems(2) b have c: "?len \<le> c"
      "\<forall>k. c \<le> k \<and> k < i \<longrightarrow> es ! nat k = es ! nat (k - ?len)" "\<forall>k. c - ?len \<le> k \<and> k < start \<longrightarrow> \<not> ch ! nat k"
      by (auto simp: can_return_def)
    have pos: "0 < start" and left: "left_clear ch start"
      using c(1,3) True by (auto simp: left_clear_def)
    have "es ! nat (i - 1) = es ! nat (i - 1 - ?len)" using c(2) True by auto
    moreover have "i - 1 - ?len = start - 1" by simp
    ultimately have eq: "es ! nat (start - 1) = es ! nat (i - 1)" by simp
    define ch2 where "ch2 = ch[nat (start - 1) := True, nat (i - 1) := False]"
    obtain j' where j': "scan_down other (j - 1) = Some j'"
      and inv: "run_inv es other ch2 (start - 1) (i - 1) j'"
      and cnt: "clear_count other j' = clear_count other j - 1" and un: "unchanged es ch2 = unchanged es ch"
      and same: "\<forall>k. 0 \<le> k \<and> k < start - 1 \<longrightarrow> ch2 ! nat k = ch ! nat k"
      using run_step_back [OF less.prems(1) left pos eq] unfolding ch2_def by blast
    have m: "moves_to es other ch start i j ch2 (start - 1) (i - 1) j'"
      using inv un cnt by (simp add: moves_to_def)
    have "can_return es ch2 (i - 1 - (start - 1)) (start - 1) (i - 1) c"
      using c True same by (auto simp: can_return_def)
    from less.hyps [OF _ inv this] True obtain ch3 s3 i3 j3 where
      r: "move_to_corresponding other c ch2 (start - 1) (i - 1) j' = Some (ch3, s3, i3, j3)"
      "moves_to es other ch2 (start - 1) (i - 1) j' ch3 s3 i3 j3" by auto
    have "move_to_corresponding other c ch start i j =
        move_to_corresponding other c ch2 (start - 1) (i - 1) j'"
      using True b pos j' by (subst move_to_corresponding.simps) (simp add: ch2_def)
    with r moves_to_trans [OF m r(2)] show ?thesis by auto
  qed
qed

section \<open>All runs\<close>

lemma find_run_ok:
  assumes "synced es other ch" "0 \<le> i" "i \<le> int (length es)" "0 \<le> j" "j \<le> int (length other)"
    "clear_count ch i = clear_count other j"
  shows "\<exists>s k. find_run ch other (int (length es)) i j = Some (s, k) \<and> i \<le> s \<and> s \<le> int (length es) \<and>
    0 \<le> k \<and> k \<le> int (length other) \<and> clear_count ch s = clear_count other k \<and>
    (s < int (length es) \<longrightarrow> ch ! nat s) \<and> (i < s \<longrightarrow> \<not> ch ! nat (s - 1)) \<and>
    s - clear_count other k = i - clear_count other j"
  using assms(2-6)
proof (induction "nat (int (length es) - i)" arbitrary: i j rule: less_induct)
  case less
  from assms(1) have len: "length ch = length es"
    and tot: "clear_count ch (int (length es)) = clear_count other (int (length other))"
    using unchanged_length [of ch es] by (auto simp: synced_def)
  show ?case
  proof (cases "i < int (length es) \<and> \<not> ch ! nat i")
    case False
    with less.prems len show ?thesis by (subst find_run.simps) auto
  next
    case True
    obtain j' where j': "scan_up other j = Some j'" "j \<le> j'" "j' \<le> int (length other)"
      "j' < int (length other) \<longrightarrow> \<not> other ! nat j'" "clear_count other j' = clear_count other j"
      using scan_up_ok [OF less.prems(3,4)] by blast
    have "clear_count other j' < clear_count other (int (length other))"
      using clear_count_less [of i "int (length es)" ch] True less.prems j'(5) tot by simp
    with j' have jm: "j' < int (length other)" by (cases "j' = int (length other)") auto
    have c1: "clear_count ch (i + 1) = clear_count other (j' + 1)"
      "clear_count other (j' + 1) = clear_count other j + 1"
      using True less.prems j' jm by (simp_all add: clear_count_Suc)
    have "nat (int (length es) - (i + 1)) < nat (int (length es) - i)" using True by simp
    from less.hyps [OF this _ _ _ _ c1(1)] True less.prems j' jm obtain s k where
      r: "find_run ch other (int (length es)) (i + 1) (j' + 1) = Some (s, k)" "i + 1 \<le> s"
      "s \<le> int (length es)" "0 \<le> k" "k \<le> int (length other)" "clear_count ch s = clear_count other k"
      "s < int (length es) \<longrightarrow> ch ! nat s" "i + 1 < s \<longrightarrow> \<not> ch ! nat (s - 1)"
      "s - clear_count other k = i + 1 - clear_count other (j' + 1)" by auto
    have "\<not> ch ! nat (s - 1)" using r(2,8) True by (cases "s = i + 1") auto
    with r c1 True less.prems j' len show ?thesis by (subst find_run.simps) auto
  qed
qed

lemma shift_runs_ok:
  assumes "synced es other ch" "0 \<le> i" "i \<le> int (length es)" "0 \<le> j" "j \<le> int (length other)"
    "clear_count ch i = clear_count other j" "i = 0 \<or> i = int (length es) \<or> \<not> ch ! nat i"
  shows "\<exists>ch'. shift_runs es other (int (length es)) ch i j = Some ch' \<and> length ch' = length es \<and>
    unchanged es ch' = unchanged es ch"
  using assms
proof (induction "nat (int (length es) - (i - clear_count other j))" arbitrary: ch i j rule: less_induct)
  case less
  let ?n = "int (length es)"
  from less.prems(1) have len: "length ch = length es" by (simp add: synced_def)
  from find_run_ok [OF less.prems(1-6)] obtain s k where
    f: "find_run ch other ?n i j = Some (s, k)" "i \<le> s" "s \<le> ?n" "0 \<le> k" "k \<le> int (length other)"
      "clear_count ch s = clear_count other k" "s < ?n \<longrightarrow> ch ! nat s" "i < s \<longrightarrow> \<not> ch ! nat (s - 1)"
      "s - clear_count other k = i - clear_count other j" by blast
  show ?case
  proof (cases "s = ?n")
    case True
    with f len show ?thesis by (subst shift_runs.simps) simp
  next
    case False
    with f have s: "s < ?n" "ch ! nat s" by auto
    have left: "left_clear ch s"
      using f(2,8) less.prems(7) s by (cases "i = s") (auto simp: left_clear_def)
    have s1: "0 \<le> s + 1" "s + 1 \<le> int (length ch)" using s f less.prems len by simp_all
    from scan_up_ok [OF s1] obtain e where
      e: "scan_up ch (s + 1) = Some e" "s + 1 \<le> e" "e \<le> int (length ch)"
        "\<forall>k. s + 1 \<le> k \<and> k < e \<longrightarrow> ch ! nat k" "e < int (length ch) \<longrightarrow> \<not> ch ! nat e" by blast
    from scan_up_ok [OF f(4,5)] obtain q where
      q: "scan_up other k = Some q" "k \<le> q" "q \<le> int (length other)"
        "q < int (length other) \<longrightarrow> \<not> other ! nat q" "clear_count other q = clear_count other k" by blast
    have "ch ! nat x" if "s \<le> x" "x < e" for x using e(4) s(2) that by (cases "x = s") auto
    then have inv: "run_inv es other ch s e q"
      using less.prems(1,2) f e q len by (auto simp: run_inv_def)
    from merge_run_ok [OF inv left] obtain ch1 s1 i1 j1 c where
      m: "merge_run es other ?n ch s e q = Some (ch1, s1, i1, j1, c)"
        "moves_to es other ch s e q ch1 s1 i1 j1" "can_return es ch1 (i1 - s1) s1 i1 c" by blast
    from m(2) have inv1: "run_inv es other ch1 s1 i1 j1" by (simp add: moves_to_def)
    from move_to_corresponding_ok [OF inv1 m(3)] obtain ch2 s2 i2 j2 where
      c: "move_to_corresponding other c ch1 s1 i1 j1 = Some (ch2, s2, i2, j2)"
        "moves_to es other ch1 s1 i1 j1 ch2 s2 i2 j2" by blast
    note mv = moves_to_trans [OF m(2) c(2)]
    from mv have inv2: "run_inv es other ch2 s2 i2 j2" and un: "unchanged es ch2 = unchanged es ch"
      and pr: "e - clear_count other q \<le> i2 - clear_count other j2" by (simp_all add: moves_to_def)
    from inv2 have b2: "synced es other ch2" "0 \<le> i2" "i2 \<le> ?n" "0 \<le> j2" "j2 \<le> int (length other)"
      "i2 = 0 \<or> i2 = ?n \<or> \<not> ch2 ! nat i2"
      by (auto simp: run_inv_def)
    have "nat (?n - (i2 - clear_count other j2)) < nat (?n - (i - clear_count other j))"
      using pr f(9) e(2) q(5) b2(3) clear_count_nonneg [of other j2] by linarith
    from less.hyps [OF this b2(1-5) run_inv_count [OF inv2] b2(6)] un obtain ch' where
      "shift_runs es other ?n ch2 i2 j2 = Some ch'" "length ch' = length es" "unchanged es ch' = unchanged es ch"
      by auto
    then show ?thesis
      using False f(1) e(1) q(1) m(1) c(1) by (subst shift_runs.simps) simp
  qed
qed

lemma shift_boundaries_ok:
  assumes "length (changed f0) = length (equivs f0)" "length (changed f1) = length (equivs f1)"
    and "unchanged (equivs f0) (changed f0) = unchanged (equivs f1) (changed f1)"
  shows "\<exists>ch0 ch1. shift_boundaries f0 f1 = Some (f0\<lparr>changed := ch0\<rparr>, f1\<lparr>changed := ch1\<rparr>) \<and>
    length ch0 = length (equivs f0) \<and> length ch1 = length (equivs f1) \<and>
    unchanged (equivs f0) ch0 = unchanged (equivs f0) (changed f0) \<and>
    unchanged (equivs f1) ch1 = unchanged (equivs f1) (changed f1)"
proof -
  have "synced (equivs f0) (changed f1) (changed f0)"
    using assms unchanged_length [OF assms(2)] by (simp add: synced_def)
  then obtain ch0 where c0: "shift_runs (equivs f0) (changed f1) (buffered_lines f0) (changed f0) 0 0 = Some ch0"
    "length ch0 = length (equivs f0)" "unchanged (equivs f0) ch0 = unchanged (equivs f0) (changed f0)"
    using shift_runs_ok [of "equivs f0" "changed f1" "changed f0" 0 0] by auto
  have "synced (equivs f1) ch0 (changed f1)"
    using assms unchanged_length [OF c0(2)] c0(3) by (simp add: synced_def)
  then obtain ch1 where "shift_runs (equivs f1) ch0 (buffered_lines f1) (changed f1) 0 0 = Some ch1"
    "length ch1 = length (equivs f1)" "unchanged (equivs f1) ch1 = unchanged (equivs f1) (changed f1)"
    using shift_runs_ok [of "equivs f1" ch0 "changed f1" 0 0] by auto
  with c0 show ?thesis
    by (intro exI [of _ ch0] exI [of _ ch1]) (simp add: shift_boundaries_def)
qed

end
