(* ===== verification/Script.thy ===== *)
theory Script
  imports Shift
begin

text \<open>
  The edit script and the correctness of \<open>diff_2_files\<close>: the comparison of two sequences
  of equivalence codes always returns, and its script turns the first sequence into the
  second.
\<close>

section \<open>What an edit script promises\<close>

text \<open>
  From positions \<open>i0\<close> and \<open>i1\<close> on, the lines between the changes are the same in both files,
  each change lies inside the files and is not empty, and the changes come in order.
\<close>

fun script_ok :: "lin \<Rightarrow> lin \<Rightarrow> change list \<Rightarrow> 'a list \<Rightarrow> 'a list \<Rightarrow> bool" where
  "script_ok i0 i1 [] xs ys \<longleftrightarrow>
     slice (nat i0) (length xs) xs = slice (nat i1) (length ys) ys"
| "script_ok i0 i1 (c # cs) xs ys \<longleftrightarrow>
     i0 \<le> line0 c \<and> i1 \<le> line1 c \<and>
     slice (nat i0) (nat (line0 c)) xs = slice (nat i1) (nat (line1 c)) ys \<and>
     0 \<le> deleted c \<and> 0 \<le> inserted c \<and> 0 < deleted c + inserted c \<and>
     line0 c + deleted c \<le> int (length xs) \<and> line1 c + inserted c \<le> int (length ys) \<and>
     script_ok (line0 c + deleted c) (line1 c + inserted c) cs xs ys"

text \<open>Carrying out a script: common lines of the old file, inserted lines of the new one.\<close>

fun apply_script :: "lin \<Rightarrow> change list \<Rightarrow> 'a list \<Rightarrow> 'a list \<Rightarrow> 'a list" where
  "apply_script i0 [] xs ys = slice (nat i0) (length xs) xs"
| "apply_script i0 (c # cs) xs ys =
     slice (nat i0) (nat (line0 c)) xs @ slice (nat (line1 c)) (nat (line1 c + inserted c)) ys @
     apply_script (line0 c + deleted c) cs xs ys"

lemma apply_script_ok:
  "script_ok i0 i1 cs xs ys \<Longrightarrow> 0 \<le> i0 \<Longrightarrow> 0 \<le> i1 \<Longrightarrow> i1 \<le> int (length ys) \<Longrightarrow>
     apply_script i0 cs xs ys = slice (nat i1) (length ys) ys"
proof (induction cs arbitrary: i0 i1)
  case (Cons c cs)
  then have *: "i1 \<le> line1 c" "0 \<le> inserted c" "line1 c + inserted c \<le> int (length ys)"
    "0 \<le> line0 c + deleted c" "script_ok (line0 c + deleted c) (line1 c + inserted c) cs xs ys"
    "slice (nat i0) (nat (line0 c)) xs = slice (nat i1) (nat (line1 c)) ys" by auto
  then have "apply_script (line0 c + deleted c) cs xs ys =
      slice (nat (line1 c + inserted c)) (length ys) ys"
    using Cons by auto
  moreover have "slice (nat i1) (nat (line1 c)) ys @
      slice (nat (line1 c)) (nat (line1 c + inserted c)) ys = slice (nat i1) (nat (line1 c + inserted c)) ys"
    using * by (intro slice_append) auto
  moreover have "slice (nat i1) (nat (line1 c + inserted c)) ys @
      slice (nat (line1 c + inserted c)) (length ys) ys = slice (nat i1) (length ys) ys"
    using * by (intro slice_append) auto
  ultimately show ?case using * by (simp flip: append_assoc)
qed simp

section \<open>Building the script\<close>

lemma slice_back:
  "0 < i \<Longrightarrow> i \<le> b \<Longrightarrow> b \<le> length xs \<Longrightarrow> slice (i - 1) b xs = xs ! (i - 1) # slice i b xs"
  using slice_Cons [of "i - 1" b xs] by simp

lemma script_ok_extend:
  assumes "script_ok i0 i1 cs xs ys" "0 < i0" "0 < i1" "i0 \<le> int (length xs)" "i1 \<le> int (length ys)"
    "xs ! nat (i0 - 1) = ys ! nat (i1 - 1)"
  shows "script_ok (i0 - 1) (i1 - 1) cs xs ys"
proof -
  have n: "nat (i0 - 1) = nat i0 - 1" "nat (i1 - 1) = nat i1 - 1" using assms by auto
  have "slice (nat i0 - 1) b xs = slice (nat i1 - 1) d ys"
    if "slice (nat i0) b xs = slice (nat i1) d ys" "nat i0 \<le> b" "nat i1 \<le> d"
      "b \<le> length xs" "d \<le> length ys" for b d
    using that assms slice_back [of "nat i0" b xs] slice_back [of "nat i1" d ys] n by simp
  with assms n show ?thesis by (cases cs) auto
qed

lemma kept_last:
  "0 < i \<Longrightarrow> \<not> P (i - 1) \<Longrightarrow> kept vec P 0 i = kept vec P 0 (i - 1) @ [vec ! nat (i - 1)]"
  using kept_split [of 0 "i - 1" i vec P] kept_single [of vec P "i - 1"] by simp

text \<open>
  Where both flags before the positions are clear, the positions are the starts of the files
  or the lines before them match.
\<close>

lemma matched_pair:
  assumes "kept xs P 0 i0 = kept ys Q 0 i1" "0 \<le> i0" "0 \<le> i1"
    "0 < i0 \<longrightarrow> \<not> P (i0 - 1)" "0 < i1 \<longrightarrow> \<not> Q (i1 - 1)"
  shows "i0 = 0 \<and> i1 = 0 \<or> 0 < i0 \<and> 0 < i1 \<and> xs ! nat (i0 - 1) = ys ! nat (i1 - 1) \<and>
    kept xs P 0 (i0 - 1) = kept ys Q 0 (i1 - 1)"
  using assms kept_last [of i0 P xs] kept_last [of i1 Q ys]
  by (cases "0 < i0"; cases "0 < i1") auto

lemma build_script_ok:
  assumes "length ch0 = length xs" "length ch1 = length ys"
    and "0 \<le> i0" "0 \<le> i1" "i0 \<le> int (length xs)" "i1 \<le> int (length ys)"
    and "kept xs (\<lambda>i. ch0 ! nat i) 0 i0 = kept ys (\<lambda>i. ch1 ! nat i) 0 i1"
    and "script_ok i0 i1 cs xs ys"
  shows "\<exists>cs'. build_script ch0 ch1 i0 i1 cs = Some cs' \<and> script_ok 0 0 cs' xs ys"
  using assms(3-8)
proof (induction "nat i0" arbitrary: i0 i1 cs rule: less_induct)
  case less
  let ?P = "\<lambda>i. ch0 ! nat i" and ?Q = "\<lambda>i. ch1 ! nat i"
  have "- 1 \<le> i0 - 1" "i0 - 1 < int (length ch0)" using less.prems assms by auto
  from scan_down_ok [OF this] obtain p0 where
    p0: "scan_down ch0 (i0 - 1) = Some p0" "- 1 \<le> p0" "p0 \<le> i0 - 1"
      "\<forall>k. p0 < k \<and> k \<le> i0 - 1 \<longrightarrow> ?P k" "0 \<le> p0 \<longrightarrow> \<not> ?P p0" by blast
  have "- 1 \<le> i1 - 1" "i1 - 1 < int (length ch1)" using less.prems assms by auto
  from scan_down_ok [OF this] obtain p1 where
    p1: "scan_down ch1 (i1 - 1) = Some p1" "- 1 \<le> p1" "p1 \<le> i1 - 1"
      "\<forall>k. p1 < k \<and> k \<le> i1 - 1 \<longrightarrow> ?Q k" "0 \<le> p1 \<longrightarrow> \<not> ?Q p1" by blast
  let ?c = "0 < i0 \<and> ?P (i0 - 1) \<or> 0 < i1 \<and> ?Q (i1 - 1)"
  define s0 s1 cs1 where "s0 = (if ?c then p0 + 1 else i0)" and "s1 = (if ?c then p1 + 1 else i1)"
    and "cs1 = (if ?c then add_change (p0 + 1) (p1 + 1) (i0 - (p0 + 1)) (i1 - (p1 + 1)) cs else cs)"
  have f0: "flag_at ch0 (i0 - 1) = Some (0 < i0 \<and> ?P (i0 - 1))"
    using less.prems assms(1) by (cases "i0 = 0") auto
  have f1: "flag_at ch1 (i1 - 1) = Some (0 < i1 \<and> ?Q (i1 - 1))"
    using less.prems assms(2) by (cases "i1 = 0") auto
  have unf: "build_script ch0 ch1 i0 i1 cs = build_script ch0 ch1 (s0 - 1) (s1 - 1) cs1"
    using less.prems p0 p1 f0 f1
    by (subst build_script.simps) (simp add: s0_def s1_def cs1_def)
  have b: "0 \<le> s0" "s0 \<le> i0" "0 \<le> s1" "s1 \<le> i1" "0 < s0 \<longrightarrow> \<not> ?P (s0 - 1)" "0 < s1 \<longrightarrow> \<not> ?Q (s1 - 1)"
    using p0 p1 less.prems by (auto simp: s0_def s1_def)
  have "kept xs ?P s0 i0 = []" "kept ys ?Q s1 i1 = []"
    by (rule kept_none, use p0 p1 in \<open>auto simp: s0_def s1_def\<close>)+
  then have k: "kept xs ?P 0 s0 = kept ys ?Q 0 s1"
    using kept_split [of 0 s0 i0 xs ?P] kept_split [of 0 s1 i1 ys ?Q] less.prems(5) b by simp
  have "0 < i0 - (p0 + 1) + (i1 - (p1 + 1))" if ?c
    using that p0(3,5) p1(3,5) by (cases "p0 = i0 - 1"; cases "p1 = i1 - 1") auto
  then have so: "script_ok s0 s1 cs1 xs ys"
    using less.prems p0 p1 by (auto simp: s0_def s1_def cs1_def add_change_def)
  from matched_pair [OF k b(1,3,5,6)] show ?case
  proof
    assume "s0 = 0 \<and> s1 = 0"
    then show ?thesis using unf so by (subst (asm) build_script.simps) auto
  next
    assume m: "0 < s0 \<and> 0 < s1 \<and> xs ! nat (s0 - 1) = ys ! nat (s1 - 1) \<and>
      kept xs ?P 0 (s0 - 1) = kept ys ?Q 0 (s1 - 1)"
    then have so': "script_ok (s0 - 1) (s1 - 1) cs1 xs ys"
      using so b less.prems by (intro script_ok_extend) auto
    show ?thesis
      unfolding unf by (rule less.hyps) (use so' m b less.prems in auto)
  qed
qed

section \<open>The whole comparison\<close>

lemma file_ok_index:
  assumes "file_ok eqs f"
  shows "index_ok (realindexes f) (length (changed f))"
    and "length (realindexes f) = length (undiscarded f)" "length (undiscarded f) \<le> length eqs"
    and "\<forall>i. 0 \<le> i \<and> i < nondiscarded_lines f \<longrightarrow> \<not> flag (realindexes f) (changed f) i"
proof -
  from assms have ri: "realindexes f = clear_lines (changed f)" and len: "length (changed f) = length eqs"
    and und: "length (undiscarded f) = length (realindexes f)" by (simp_all add: file_ok_def)
  show "index_ok (realindexes f) (length (changed f))" using ri by (simp add: clear_lines_index)
  show "length (realindexes f) = length (undiscarded f)" using und by simp
  have "length (clear_lines ch) \<le> length ch" for ch
    using length_filter_le [of "\<lambda>i. \<not> ch ! nat i" "[0..int (length ch) - 1]"]
    by (simp add: clear_lines_def)
  then show "length (undiscarded f) \<le> length eqs" using ri und len by metis
  show "\<forall>i. 0 \<le> i \<and> i < nondiscarded_lines f \<longrightarrow> \<not> flag (realindexes f) (changed f) i"
  proof (intro allI impI)
    fix i assume "0 \<le> i \<and> i < nondiscarded_lines f"
    then have "realindexes f ! nat i \<in> set (realindexes f)" using und by (intro nth_mem) auto
    then show "\<not> flag (realindexes f) (changed f) i" by (simp add: ri flag_def clear_lines_mem)
  qed
qed

definition equivs_ok :: "lin \<Rightarrow> lin list \<Rightarrow> lin list \<Rightarrow> bool" where
  "equivs_ok equiv_max eqs0 eqs1 \<longleftrightarrow> (\<forall>e \<in> set (eqs0 @ eqs1). 0 \<le> e \<and> e < equiv_max) \<and>
     int (length eqs0) + int (length eqs1) < OFFSET_MAX"

lemma diff_2_files_ok:
  assumes "equivs_ok equiv_max eqs0 eqs1"
  shows "\<exists>script. diff_2_files minimal speed fdv bdv equiv_max eqs0 eqs1 = Some script \<and>
    script_ok 0 0 script eqs0 eqs1"
proof -
  from assms have "\<forall>e \<in> set eqs0 \<union> set eqs1. 0 \<le> e \<and> e < equiv_max" by (auto simp: equivs_ok_def)
  from discard_confusing_lines_ok [OF this] obtain f0 f1 where
    d: "discard_confusing_lines minimal equiv_max eqs0 eqs1 = Some (f0, f1)"
    and f0: "file_ok eqs0 f0" and f1: "file_ok eqs1 f1" by blast
  note i0 = file_ok_index [OF f0] and i1 = file_ok_index [OF f1]
  let ?diags = "nat (nondiscarded_lines f0 + nondiscarded_lines f1 + 3)"
  let ?ctxt = "\<lparr>xvec = undiscarded f0, yvec = undiscarded f1, heuristic = speed,
      too_expensive = max 256 (int (expense ?diags 1))\<rparr>"
  let ?st = "\<lparr>fdiag = fdv, bdiag = bdv, changed0 = changed f0, changed1 = changed f1\<rparr>"
  let ?n0 = "nondiscarded_lines f0" and ?n1 = "nondiscarded_lines f1"
  have bx: "box_ok ?ctxt (realindexes f0) (realindexes f1) 0 ?n0 0 ?n1"
    using i0 i1 assms by (simp add: box_ok_def equivs_ok_def)
  have cl: "clear_box (realindexes f0) (realindexes f1) 0 ?n0 0 ?n1 ?st"
    using i0(4) i1(4) by (simp add: clear_box_def)
  have io: "index_ok (realindexes f0) (length (changed0 ?st))"
    "index_ok (realindexes f1) (length (changed1 ?st))" using i0(1) i1(1) by simp_all
  from compareseq_ok [OF io bx cl, of minimal] obtain st where
    c: "compareseq ?ctxt (realindexes f0) (realindexes f1) 0 ?n0 0 ?n1 minimal ?st = Some st"
    and p: "cmp_post ?ctxt (realindexes f0) (realindexes f1) 0 ?n0 0 ?n1 ?st st"
    by blast
  from p have un: "untouched (realindexes f0) 0 ?n0 (changed f0) (changed0 st)"
    "untouched (realindexes f1) 0 ?n1 (changed f1) (changed1 st)" by (simp_all add: cmp_post_def)
  have common: "unchanged eqs0 (changed0 st) = unchanged eqs1 (changed1 st)"
    using p unchanged_kept [OF f0 un(1)] unchanged_kept [OF f1 un(2)] by (simp add: cmp_post_def)
  have len: "length (changed0 st) = length eqs0" "length (changed1 st) = length eqs1"
    using un f0 f1 by (simp_all add: untouched_def file_ok_def)
  let ?g0 = "f0\<lparr>changed := changed0 st\<rparr>" and ?g1 = "f1\<lparr>changed := changed1 st\<rparr>"
  have eqv: "equivs f0 = eqs0" "equivs f1 = eqs1" using f0 f1 by (simp_all add: file_ok_def)
  obtain ch0 ch1 where s: "shift_boundaries ?g0 ?g1 = Some (?g0\<lparr>changed := ch0\<rparr>, ?g1\<lparr>changed := ch1\<rparr>)"
    and l: "length ch0 = length eqs0" "length ch1 = length eqs1"
    and u: "unchanged eqs0 ch0 = unchanged eqs1 ch1"
    using shift_boundaries_ok [of ?g0 ?g1] eqv len common by auto
  have "\<exists>script. build_script ch0 ch1 (int (length eqs0)) (int (length eqs1)) [] = Some script \<and>
      script_ok 0 0 script eqs0 eqs1"
    using l u by (intro build_script_ok) (simp_all add: unchanged_def)
  then show ?thesis
    using d c s eqv by (simp add: diff_2_files_def Let_def)
qed

section \<open>Identical files\<close>

lemma count_equivs_pos:
  assumes "count_equivs counts es = Some c" "\<forall>k < length counts. 0 \<le> counts ! k"
    "\<forall>e \<in> set es. 0 \<le> e \<and> e < int (length counts)"
  shows "length c = length counts \<and> (\<forall>k < length counts. counts ! k \<le> c ! k) \<and> (\<forall>e \<in> set es. 0 < c ! nat e)"
  using assms
proof (induction es arbitrary: counts)
  case (Cons e es)
  let ?c = "counts[nat e := counts ! nat e + 1]"
  have "count_equivs ?c es = Some c" using Cons.prems by simp
  moreover have "\<forall>k < length ?c. 0 \<le> ?c ! k" using Cons.prems by (auto simp: nth_list_update)
  ultimately have IH: "length c = length ?c" "\<forall>k < length ?c. ?c ! k \<le> c ! k" "\<forall>e \<in> set es. 0 < c ! nat e"
    using Cons.IH [of ?c] Cons.prems by auto
  have "counts ! k \<le> c ! k" if "k < length counts" for k
    using IH(2) that by (cases "k = nat e") (force simp: nth_list_update)+
  moreover have "0 < c ! nat e"
  proof -
    have "nat e < length counts" using Cons.prems(3) by auto
    with IH(2) Cons.prems(2) have "?c ! nat e \<le> c ! nat e" "0 \<le> counts ! nat e" by auto
    with \<open>nat e < length counts\<close> show ?thesis by simp
  qed
  ultimately show ?case using IH by simp
qed simp

lemma mark_discards_matched:
  "mark_discards counts many es = Some d \<Longrightarrow> \<forall>e \<in> set es. 0 < counts ! nat e \<Longrightarrow>
     \<forall>e \<in> set es. 0 \<le> e \<and> e < int (length counts) \<Longrightarrow> set d \<subseteq> {0, 2} \<and> length d = length es"
  by (induction es arbitrary: d) (auto simp: bind_eq_Some_conv split: if_splits)

lemma cancel_loop_provisional:
  assumes "lim = int (length d)" "0 \<le> i" "\<forall>k < length d. d ! k = 0 \<or> i \<le> int k \<and> d ! k = 2"
  shows "cancel_loop lim i d = Some (replicate (length d) 0)"
  using assms
proof (induction "nat (lim - i)" arbitrary: i d rule: less_induct)
  case less
  show ?case
  proof (cases "i < lim")
    case False
    with less.prems have "d = replicate (length d) 0" by (auto intro!: nth_equalityI)
    with False show ?thesis by (subst cancel_loop.simps) simp
  next
    case True
    have "cancel_loop lim (i + 1) (d[nat i := 0]) = Some (replicate (length (d[nat i := 0])) 0)"
    proof (rule less.hyps)
      show "\<forall>k < length (d[nat i := 0]). d[nat i := 0] ! k = 0 \<or> i + 1 \<le> int k \<and> d[nat i := 0] ! k = 2"
      proof (intro allI impI)
        fix k assume k: "k < length (d[nat i := 0])"
        then have "d ! k = 0 \<or> i \<le> int k \<and> d ! k = 2" using less.prems by simp
        with k less.prems(2) show "d[nat i := 0] ! k = 0 \<or> i + 1 \<le> int k \<and> d[nat i := 0] ! k = 2"
          by (cases "k = nat i") auto
      qed
    qed (use True less.prems in auto)
    moreover have "d ! nat i = 0 \<Longrightarrow> d[nat i := 0] = d" by (metis list_update_id)
    moreover have "d ! nat i = 0 \<or> d ! nat i = 2"
    proof -
      have "nat i < length d" using less.prems(1,2) True by simp
      with less.prems(3) show ?thesis by blast
    qed
    ultimately show ?thesis using True less.prems by (subst cancel_loop.simps) auto
  qed
qed

lemma squeeze_nothing:
  "squeeze minimal i es (replicate (length es) 0) =
     (es, [i..i + int (length es) - 1], replicate (length es) False)"
proof (induction es arbitrary: i)
  case (Cons e es)
  have "[i..i + int (length (e # es)) - 1] = i # [i + 1..i + 1 + int (length es) - 1]"
    by (subst upto_rec1) (simp_all add: algebra_simps)
  with Cons.IH [of "i + 1"] show ?case by (simp add: Let_def)
qed simp

lemma slide_same:
  "XREF_YREF_EQUAL ctxt = (\<lambda>x y. xs ! nat x = xs ! nat y) \<Longrightarrow> i \<le> n \<Longrightarrow>
     slide_fwd (XREF_YREF_EQUAL ctxt) n n i i = (n, n)"
proof (induction "nat (n - i)" arbitrary: i rule: less_induct)
  case less
  show ?case
  proof (cases "i < n")
    case True
    then show ?thesis using less.hyps [of "i + 1"] less.prems
      by (subst slide_fwd.simps) simp
  next
    case False
    then show ?thesis using less.prems by (subst slide_fwd.simps) simp
  qed
qed

lemma build_script_clear:
  "- 1 \<le> i \<Longrightarrow> i \<le> int n \<Longrightarrow> build_script (replicate n False) (replicate n False) i i [] = Some []"
proof (induction "nat (i + 1)" arbitrary: i rule: less_induct)
  case less
  show ?case
  proof (cases "0 \<le> i")
    case True
    then have "flag_at (replicate n False) (i - 1) = Some False"
      using less.prems by (cases "i = 0") auto
    then show ?thesis using True less.hyps [of "i - 1"] less.prems
      by (subst build_script.simps) simp
  next
    case False
    then show ?thesis by (subst build_script.simps) simp
  qed
qed

lemma shift_runs_clear:
  assumes "length es = n"
  shows "shift_runs es (replicate n False) (int n) (replicate n False) 0 0 = Some (replicate n False)"
proof -
  let ?ch = "replicate n False"
  have sy: "synced es ?ch ?ch" using assms unchanged_length [of ?ch es] by (simp add: synced_def)
  obtain s k where f: "find_run ?ch ?ch (int n) 0 0 = Some (s, k)" "0 \<le> s" "s \<le> int n"
    "s < int n \<longrightarrow> ?ch ! nat s"
    using find_run_ok [OF sy, of 0 0] unfolding assms by force
  then have "s = int n" by (cases "s < int n") auto
  with f show ?thesis by (subst shift_runs.simps) simp
qed

lemma diff_2_files_same:
  assumes "equivs_ok equiv_max eqs eqs"
  shows "diff_2_files minimal speed fdv bdv equiv_max eqs eqs = Some []"
proof -
  let ?n = "length eqs" and ?z = "replicate (nat equiv_max) (0 :: lin)"
  from assms have e: "\<forall>e \<in> set eqs. 0 \<le> e \<and> e < int (length ?z)" by (auto simp: equivs_ok_def)
  obtain c where c: "count_equivs ?z eqs = Some c" "length c = length ?z" "\<forall>e \<in> set eqs. 0 < c ! nat e"
    using count_equivs_ok [OF e] count_equivs_pos [OF _ _ e] by auto
  then obtain d where d: "mark_discards c (many_matches (?n div 64) 5) eqs = Some d"
    "set d \<subseteq> {0, 2}" "length d = ?n"
    using mark_discards_ok [of eqs c] mark_discards_matched [of c _ eqs] e by metis
  have "\<forall>k < length d. d ! k = 0 \<or> 0 \<le> int k \<and> d ! k = 2" using d(2) nth_mem by fastforce
  then have "cancel_loop (int ?n) 0 d = Some (replicate ?n 0)"
    using cancel_loop_provisional [of "int ?n" d 0] d(3) by simp
  then have "discard_file minimal c eqs = Some \<lparr>equivs = eqs, undiscarded = eqs,
      realindexes = [0..int ?n - 1], changed = replicate ?n False\<rparr>"
    using d squeeze_nothing [of minimal 0 eqs] by (simp add: discard_file_def)
  then have disc: "discard_confusing_lines minimal equiv_max eqs eqs =
      (let f = \<lparr>equivs = eqs, undiscarded = eqs, realindexes = [0..int ?n - 1],
         changed = replicate ?n False\<rparr> in Some (f, f))"
    using c by (simp add: discard_confusing_lines_def Let_def)
  have cmp: "compareseq ctxt ri ri 0 (int ?n) 0 (int ?n) fm st = Some (st\<lparr>changed1 := changed1 st\<rparr>)"
    if "xvec ctxt = eqs" "yvec ctxt = eqs" for ctxt ri fm st
  proof -
    have "XREF_YREF_EQUAL ctxt = (\<lambda>x y. eqs ! nat x = eqs ! nat y)"
      using that by (auto simp: XREF_YREF_EQUAL_def fun_eq_iff)
    then have "slide_fwd (XREF_YREF_EQUAL ctxt) (int ?n) (int ?n) 0 0 = (int ?n, int ?n)"
      by (rule slide_same) simp
    then show ?thesis
      by (subst compareseq.simps)
        (simp add: slide_bwd.simps [of _ "int ?n" "int ?n"] note_range.simps [of _ "int ?n" "int ?n"])
  qed
  show ?thesis
    by (simp add: diff_2_files_def disc Let_def cmp shift_boundaries_def shift_runs_clear build_script_clear)
qed

text \<open>
  C5: the comparison of two sequences of equivalence codes always returns, with every access
  inside its vectors, whether or not minimality and the heuristic are requested and whatever
  the uninitialised vectors of diagonals hold. The script is well formed, and carrying it out
  on the first sequence gives the second.
\<close>

theorem diff_2_files_correct:
  assumes "equivs_ok equiv_max eqs0 eqs1"
  shows "\<exists>script. diff_2_files minimal speed_large_files fdv bdv equiv_max eqs0 eqs1 = Some script \<and>
    script_ok 0 0 script eqs0 eqs1 \<and> apply_script 0 script eqs0 eqs1 = eqs1"
  using diff_2_files_ok [OF assms, of minimal speed_large_files fdv bdv]
    apply_script_ok [of 0 0 _ eqs0 eqs1] by fastforce

theorem diff_2_files_correct_witness:
  "\<exists>script. diff_2_files False True (\<lambda>_. 3) (\<lambda>_. 5) 4 [1, 2, 3, 1] [2, 1, 1] = Some script \<and>
    script_ok 0 0 script [1, 2, 3, 1] [2, 1, 1 :: lin] \<and>
    apply_script 0 script [1, 2, 3, 1] [2, 1, 1] = [2, 1, 1 :: lin]"
  by (rule diff_2_files_correct) (simp add: equivs_ok_def OFFSET_MAX_def)

text \<open>
  C6: the script is empty exactly when the two sequences are the same, so the exit status
  derived from it tells whether the files differ.
\<close>

theorem diff_2_files_empty_iff:
  assumes "equivs_ok equiv_max eqs0 eqs1"
  shows "diff_2_files minimal speed_large_files fdv bdv equiv_max eqs0 eqs1 = Some [] \<longleftrightarrow> eqs0 = eqs1"
proof
  assume "diff_2_files minimal speed_large_files fdv bdv equiv_max eqs0 eqs1 = Some []"
  with diff_2_files_ok [OF assms, of minimal speed_large_files fdv bdv]
  show "eqs0 = eqs1" by (simp add: slice_to_end)
qed (use assms diff_2_files_same in blast)

theorem diff_2_files_empty_iff_witness:
  "diff_2_files True False (\<lambda>_. 0) (\<lambda>_. 0) 3 [1, 2, 1] [1, 2, 1] = Some [] \<longleftrightarrow> [1, 2, 1] = [1, 2, 1 :: lin]"
  by (rule diff_2_files_empty_iff) (simp add: equivs_ok_def OFFSET_MAX_def)

end
