(* ===== verification/Driver.thy ===== *)
theory Driver
  imports Output Script
begin

text \<open>
  The rest of doDiff.c: the comparison with words of context, the refinement of the changes it
  finds, and the printing of a script. The parameter \<open>mem\<close> stands for the contents of the
  uninitialised vectors that \<open>diff_2_files\<close> allocates.
\<close>

type_synonym uninit = "lin list \<Rightarrow> lin list \<Rightarrow> diagvec \<times> diagvec"

section \<open>Words with context\<close>

text \<open>A value in memory: eight bytes, the least significant first.\<close>

definition value_bytes :: "lin \<Rightarrow> byte list" where
  "value_bytes v = map (\<lambda>k. word_of_int (drop_bit (8 * k) v)) [0..<8]"

text \<open>The keys handed to \<open>getValue\<close> by the three loops.\<close>

definition context_windows :: "lin list \<Rightarrow> nat \<Rightarrow> lin list list" where
  "context_windows d c =
     (let front = - 1 # take c d;
          back = drop (length d - c) d @ [- 1]
      in map (\<lambda>i. take (i + 1) front) [1..<c + 1] @
         map (\<lambda>i. take (c + 1) (drop i d)) [0..<length d - c] @
         map (\<lambda>i. drop i back) [0..<c])"

definition initializeContextDiffTokens :: "lin list \<Rightarrow> nat \<Rightarrow> hashstate \<Rightarrow> (lin list \<times> hashstate) res" where
  "initializeContextDiffTokens d c h =
     intern_all getValue (map (\<lambda>w. concat (map value_bytes w)) (context_windows d c)) h"

section \<open>Printing one change\<close>

datatype command = C_ADD | C_DEL | C_CHANGE

definition marker_line :: "byte list" where
  "marker_line = replicate 70 61 @ [10]"

definition update_statistics :: "command \<Rightarrow> change \<Rightarrow> Statistics \<Rightarrow> Statistics" where
  "update_statistics cmd ch st =
     (case cmd of
        C_ADD \<Rightarrow> st\<lparr>stat_added := stat_added st + inserted ch\<rparr>
      | C_DEL \<Rightarrow> st\<lparr>stat_deleted := stat_deleted st + deleted ch\<rparr>
      | C_CHANGE \<Rightarrow> st\<lparr>newChanged := newChanged st + inserted ch, oldChanged := oldChanged st + deleted ch\<rparr>)"

definition printDeletedWords :: "env \<Rightarrow> option_t \<Rightarrow> change \<Rightarrow> 'a diffstate_scheme \<Rightarrow> 'a diffstate_scheme run" where
  "printDeletedWords e opt ch s = printWords e opt (line0 ch) (deleted ch) Old (printDeleted opt) DEL s"

definition printAddedWords :: "env \<Rightarrow> option_t \<Rightarrow> change \<Rightarrow> 'a diffstate_scheme \<Rightarrow> 'a diffstate_scheme run" where
  "printAddedWords e opt ch s = printWords e opt (line1 ch) (inserted ch) New (printAdded opt) ADD s"

text \<open>
  The white space before a change: whether the added words are printed first, and the state with
  the white space loaded.
\<close>

definition load_change_whitespace :: "env \<Rightarrow> option_t \<Rightarrow> command \<Rightarrow> 'a diffstate_scheme \<Rightarrow>
    (bool \<times> 'a diffstate_scheme) run" where
  "load_change_whitespace e opt cmd s =
     (if cmd = C_CHANGE \<and> \<not> wdiffOutput opt then
        bind_run (loadNextWhitespace e Old s) (\<lambda>(old_nl, s1).
          if old_nl then
            bind_run (loadNextWhitespace e New s1) (\<lambda>(new_nl, s2).
              if new_nl then
                bind_run (handleSynchronizedNextWhitespace e opt (\<not> lastWasDelete s2) s2) (\<lambda>s3.
                  Some (Inr (False, s3\<lparr>
                    newFile := (newFile s3)\<lparr>iwhitespaceBuffer := (iwhitespaceBuffer (newFile s3))\<lparr>vdata := [32]\<rparr>\<rparr>,
                    oldFile := (oldFile s3)\<lparr>iwhitespaceBuffer := vector_clear (iwhitespaceBuffer (oldFile s3))\<rparr>\<rparr>)))
              else Some (Inr (True, s2)))
          else Some (Inr (False, s1)))
      else Some (Inr (False, s)))"

definition emit_change :: "env \<Rightarrow> option_t \<Rightarrow> command \<Rightarrow> change \<Rightarrow> 'a diffstate_scheme \<Rightarrow> 'a diffstate_scheme run" where
  "emit_change e opt cmd ch s =
     bind_run (printToCommonWord e opt (line1 ch) s) (\<lambda>s1.
       bind_run (load_change_whitespace e opt cmd s1) (\<lambda>(reverseDeleteAdd, s2).
         bind_run
           (if reverseDeleteAdd then
              bind_run (printAddedWords e opt ch s2) (\<lambda>s'. printDeletedWords e opt ch s')
            else
              bind_run (if cmd \<noteq> C_ADD then printDeletedWords e opt ch s2 else Some (Inr s2)) (\<lambda>s'.
                if cmd \<noteq> C_DEL then printAddedWords e opt ch s' else Some (Inr s')))
           (\<lambda>s3.
              let s4 = (if needMarkers opt
                        then (write_stdout (10 # marker_line) s3)\<lparr>lastWasLinefeed := True\<rparr> else s3);
                  s5 = (if cmd = C_DEL \<and> printDeleted opt \<and> \<not> wdiffOutput opt
                        then s4\<lparr>lastWasDelete := True\<rparr> else s4)
              in Some (Inr (s5\<lparr>statistics := update_statistics cmd ch (statistics s5)\<rparr>)))))"

section \<open>The script\<close>

definition change_command :: "change \<Rightarrow> command" where
  "change_command ch =
     (if inserted ch = 0 then C_DEL else if deleted ch = 0 then C_ADD else C_CHANGE)"

text \<open>
  What becomes of a change found with words of context: a change to print, a range to compare
  again, or the failed assertion.
\<close>

datatype refined = Print command change | Again "lin \<times> lin \<times> lin \<times> lin" | Impossible

definition refine_change :: "option_t \<Rightarrow> nat \<Rightarrow> change \<Rightarrow> refined" where
  "refine_change opt context_size ch =
     (if matchContext opt \<noteq> 0 \<and> context_size \<noteq> 0 \<and> change_command ch = C_CHANGE then
        let c = int context_size
        in if deleted ch \<le> c \<or> inserted ch \<le> c then
             if deleted ch = inserted ch then Impossible
             else if deleted ch < inserted ch then Print C_ADD (ch\<lparr>inserted := inserted ch - deleted ch\<rparr>)
             else Print C_DEL (ch\<lparr>deleted := deleted ch - inserted ch\<rparr>)
           else if \<not> aggregateChanges opt then
             Again (line0 ch, deleted ch - c, line1 ch, inserted ch - c)
           else Print C_CHANGE (ch\<lparr>deleted := deleted ch - c, inserted := inserted ch - c\<rparr>)
      else Print (change_command ch) ch)"

definition shift_change :: "(lin \<times> lin \<times> lin \<times> lin) option \<Rightarrow> change \<Rightarrow> change" where
  "shift_change baseRange ch =
     (case baseRange of
        None \<Rightarrow> ch
      | Some (r0, _, r2, _) \<Rightarrow> ch\<lparr>line0 := line0 ch + r0, line1 := line1 ch + r2\<rparr>)"

text \<open>The loop over the script; \<open>again\<close> is the recursive call.\<close>

fun script_loop :: "(lin \<times> lin \<times> lin \<times> lin \<Rightarrow> 'a diffstate_scheme \<Rightarrow> 'a diffstate_scheme run) \<Rightarrow> env \<Rightarrow> option_t \<Rightarrow>
    (lin \<times> lin \<times> lin \<times> lin) option \<Rightarrow> nat \<Rightarrow> change list \<Rightarrow> 'a diffstate_scheme \<Rightarrow> 'a diffstate_scheme run" where
  "script_loop again e opt baseRange c [] s = Some (Inr s)"
| "script_loop again e opt baseRange c (ch # chs) s =
     (let s1 = s\<lparr>differences := 1\<rparr>
      in bind_run
           (case refine_change opt c (shift_change baseRange ch) of
              Impossible \<Rightarrow> Some (Inl Panic)
            | Again rng \<Rightarrow> again rng s1
            | Print cmd ch' \<Rightarrow> emit_change e opt cmd ch' s1)
           (\<lambda>s2. script_loop again e opt baseRange c chs s2))"

definition range_tokens :: "(lin \<times> lin) option \<Rightarrow> ValueTypeVector \<Rightarrow> lin list" where
  "range_tokens r v =
     (case r of None \<Rightarrow> vdata v | Some (start, len) \<Rightarrow> take (nat len) (drop (nat start) (vdata v)))"

definition old_range :: "(lin \<times> lin \<times> lin \<times> lin) option \<Rightarrow> (lin \<times> lin) option" where
  "old_range r = map_option (\<lambda>(a, b, c, d). (a, b)) r"

definition new_range :: "(lin \<times> lin \<times> lin \<times> lin) option \<Rightarrow> (lin \<times> lin) option" where
  "new_range r = map_option (\<lambda>(a, b, c, d). (c, d)) r"

text \<open>The context is cut to the shorter sequence and made even.\<close>

definition trim_context :: "nat \<Rightarrow> lin list \<Rightarrow> lin list \<Rightarrow> nat" where
  "trim_context c old new =
     (let c1 = (if c > length old then length old else c);
          c2 = (if c1 > length new then length new else c1)
      in c2 - c2 mod 2)"

definition print_script :: "(lin \<times> lin \<times> lin \<times> lin \<Rightarrow> 'a diffstate_scheme \<Rightarrow> 'a diffstate_scheme run) \<Rightarrow> env \<Rightarrow> option_t \<Rightarrow>
    (lin \<times> lin \<times> lin \<times> lin) option \<Rightarrow> nat \<Rightarrow> change list option \<Rightarrow> 'a diffstate_scheme \<Rightarrow> 'a diffstate_scheme run" where
  "print_script again e opt baseRange c script s =
     (case script of
        None \<Rightarrow> None
      | Some chs \<Rightarrow>
          script_loop again e opt baseRange c chs
            (if needMarkers opt \<and> baseRange = None then write_stdout marker_line s else s))"

definition compare_tokens :: "uninit \<Rightarrow> option_t \<Rightarrow> lin \<Rightarrow> lin list \<Rightarrow> lin list \<Rightarrow> change list option" where
  "compare_tokens mem opt equiv_max old new =
     diff_2_files (minimal opt) (speed_large_files opt) (fst (mem old new)) (snd (mem old new)) equiv_max old new"

function doDiffInternal :: "uninit \<Rightarrow> env \<Rightarrow> option_t \<Rightarrow> (lin \<times> lin \<times> lin \<times> lin) option \<Rightarrow> nat \<Rightarrow> 'a diffstate_scheme \<Rightarrow>
    'a diffstate_scheme run" where
  "doDiffInternal mem e opt baseRange context0 s =
     (let old = range_tokens (old_range baseRange) (diffTokens (oldFile s));
          new = range_tokens (new_range baseRange) (diffTokens (newFile s));
          c = trim_context context0 old new
      in if context0 = 0 then
           print_script (\<lambda>_ _. Some (Inl Panic)) e opt baseRange 0 (compare_tokens mem opt (baseHashMax s) old new) s
         else if c = 0 then doDiffInternal mem e opt baseRange 0 s
         else
           bind_run (Some (initializeContextDiffTokens old c (hash_table s))) (\<lambda>(olds, h1).
             bind_run (Some (initializeContextDiffTokens new c h1)) (\<lambda>(news, h2).
               let (equiv_max, h3) = getHashMax h2
               in print_script (\<lambda>rng s'. doDiffInternal mem e opt (Some rng) (c div 4 * 2) s') e opt baseRange c
                    (compare_tokens mem opt equiv_max olds news) (s\<lparr>hash_table := h3\<rparr>))))"
  by pat_completeness auto
termination
proof (relation "measure (\<lambda>(mem, e, opt, r, c, s). c)", goal_cases)
  case (3 mem e opt baseRange context0 s x xa xb)
  then have "xb \<le> context0" "xb \<noteq> 0" by (auto simp: trim_context_def Let_def)
  then show ?case by simp
qed auto

declare doDiffInternal.simps [simp del]

definition doDiff :: "uninit \<Rightarrow> env \<Rightarrow> option_t \<Rightarrow> 'a diffstate_scheme \<Rightarrow> 'a diffstate_scheme run" where
  "doDiff mem e opt s =
     bind_run
       (doDiffInternal mem e opt None (matchContext opt)
         (s\<lparr>oldFile := (oldFile s)\<lparr>iwhitespaceBuffer := VECTOR_INIT_ALLOCATED, lastPrinted := 0\<rparr>,
            newFile := (newFile s)\<lparr>iwhitespaceBuffer := VECTOR_INIT_ALLOCATED, lastPrinted := 0\<rparr>\<rparr>))
       (\<lambda>s1. printEnd e opt s1)"

end
