(* ===== verification/Printing.thy ===== *)
theory Printing
  imports Driver
begin

text \<open>
  What the printing functions do with the temporary files, for single-byte characters. A piece of
  a temporary file is a word or a stretch of white space, escaped and followed by a zero byte.
  Every function consumes its pieces, counts their newlines, and, with plain options, appends
  their text to the output.
\<close>

section \<open>Pieces of a temporary file\<close>

fun esc :: "byte list \<Rightarrow> byte list" where
  "esc [] = []"
| "esc (b # bs) = (if b = 0 \<or> b = 1 then 1 # b # esc bs else b # esc bs)"

definition pieces :: "byte list list \<Rightarrow> byte list" where
  "pieces ps = concat (map (\<lambda>p. esc p @ [0]) ps)"

lemma pieces_simps [simp]:
  "pieces [] = []"
  "pieces (p # ps) = esc p @ 0 # pieces ps"
  by (simp_all add: pieces_def)

abbreviation nl :: "byte list \<Rightarrow> nat" where
  "nl w \<equiv> count_list w 10"

section \<open>What printing leaves alone\<close>

lemma more_write [simp]:
  "bufstate.more (write_stdout bs s) = bufstate.more s"
  "bufstate.more (write_output opt bs s) = bufstate.more s"
  by (simp_all add: write_stdout_def write_output_def split: output_stream.split)

lemma more_on_current [simp]: "bufstate.more (on_current f s) = bufstate.more s"
  by (simp add: on_current_def)

lemma more_flush [simp]: "bufstate.more (flush_context opt s) = bufstate.more s"
  by (simp add: flush_context_def Let_def split: PrintState.split)

lemma more_end_of_line [simp]: "bufstate.more (end_of_line opt s) = bufstate.more s"
  by (simp add: end_of_line_def Let_def split: PrintState.split)

lemma more_addchar [simp]: "bufstate.more (addchar opt c common s) = bufstate.more s"
  by (simp add: addchar_def Let_def)

lemma more_writeString [simp]: "bufstate.more (writeString opt t n s) = bufstate.more s"
  by (simp add: writeString_def Let_def)

lemma more_printLineNumbers [simp]: "bufstate.more (printLineNumbers opt a b s) = bufstate.more s"
  by (simp add: printLineNumbers_def Let_def)

lemma more_markers [simp]:
  "bufstate.more (write_color opt mode s) = bufstate.more s"
  "bufstate.more (write_start opt mode s) = bufstate.more s"
  "bufstate.more (write_stop opt mode s) = bufstate.more s"
  "bufstate.more (line_end_markers opt mode s) = bufstate.more s"
  by (simp_all add: write_color_def write_start_def write_stop_def line_end_markers_def Let_def)

text \<open>The fields after the buffer.\<close>

definition same_text :: "'a outstate_scheme \<Rightarrow> 'a outstate_scheme \<Rightarrow> bool" where
  "same_text s s' \<longleftrightarrow> oldLineNumber s' = oldLineNumber s \<and> newLineNumber s' = newLineNumber s \<and>
     lastWasDelete s' = lastWasDelete s \<and> lastWasCarriageReturn s' = lastWasCarriageReturn s \<and>
     charData s' = charData s \<and> outstate.more s' = outstate.more s"

lemma same_text_refl [simp]: "same_text s s"
  by (simp add: same_text_def)

lemma same_text_trans: "same_text s t \<Longrightarrow> same_text t u \<Longrightarrow> same_text s u"
  by (simp add: same_text_def)

lemma more_same_text: "bufstate.more s' = bufstate.more s \<Longrightarrow> same_text s s'"
  for s :: "'a outstate_scheme"
  by (cases s; cases s') (simp add: same_text_def)

text \<open>
  Plain options: no context buffer, line numbers, colours, repeated markers, overstriking or
  paragraph markers, and the standard output.
\<close>

definition plain :: "option_t \<Rightarrow> bool" where
  "plain opt \<longleftrightarrow> \<not> context_wanted opt \<and> lineNumbers opt = 0 \<and> \<not> colorMode opt \<and> \<not> repeatMarkers opt \<and>
     \<not> less_mode opt \<and> \<not> printer opt \<and> \<not> paraDelim opt \<and> output_to opt = Stdout"

lemma plain_addchar: "plain opt \<Longrightarrow> stdout_bytes (addchar opt c common s) = stdout_bytes s @ [c]"
  by (simp add: plain_def addchar_def write_output_def write_stdout_def)

lemma plain_writeString: "plain opt \<Longrightarrow> stdout_bytes (writeString opt t n s) = stdout_bytes s @ take n t"
  by (simp add: plain_def writeString_def write_output_def write_stdout_def Let_def)

lemma same_text_more: "same_text s t \<Longrightarrow> bufstate.more u = bufstate.more t \<Longrightarrow> same_text s u"
  using more_same_text same_text_trans by blast

lemma more_upd_text:
  "same_text s (s\<lparr>lastWasLinefeed := x\<rparr>)"
  "bufstate.more s' = bufstate.more (s\<lparr>lastWasLinefeed := x\<rparr>) \<Longrightarrow> same_text s s'"
  using more_same_text [of s' "s\<lparr>lastWasLinefeed := x\<rparr>"] by (simp_all add: same_text_def)

lemma doPostLinefeed_text: "same_text s (doPostLinefeed opt mode s)"
proof (cases "lastWasLinefeed s")
  case True
  have "bufstate.more (doPostLinefeed opt mode s) = bufstate.more (s\<lparr>lastWasLinefeed := False\<rparr>)"
    using True by (simp add: doPostLinefeed_def Let_def)
  then show ?thesis by (rule more_upd_text)
qed (simp add: doPostLinefeed_def)

lemma doPostLinefeed_plain: "plain opt \<Longrightarrow> stdout_bytes (doPostLinefeed opt mode s) = stdout_bytes s"
  by (simp add: doPostLinefeed_def plain_def Let_def)

lemma line_end_plain: "plain opt \<Longrightarrow> stdout_bytes (line_end_markers opt mode s) = stdout_bytes s"
  by (simp add: line_end_markers_def plain_def Let_def)

section \<open>The effect of a step\<close>

definition effect :: "option_t \<Rightarrow> byte list \<Rightarrow> nat \<Rightarrow> nat \<Rightarrow> 'a outstate_scheme \<Rightarrow> 'a outstate_scheme \<Rightarrow> bool" where
  "effect opt t i j s s' \<longleftrightarrow>
     (plain opt \<longrightarrow> stdout_bytes s' = stdout_bytes s @ t) \<and>
     oldLineNumber s' = oldLineNumber s + of_nat i \<and> newLineNumber s' = newLineNumber s + of_nat j \<and>
     lastWasDelete s' = lastWasDelete s \<and> outstate.more s' = outstate.more s"

lemma effect_refl [simp]: "effect opt [] 0 0 s s"
  by (simp add: effect_def)

lemma effect_trans:
  "effect opt t i j s s1 \<Longrightarrow> effect opt t' i' j' s1 s2 \<Longrightarrow> effect opt (t @ t') (i + i') (j + j') s s2"
  by (simp add: effect_def add.assoc)

lemma effect_cong: "effect opt t i j s s' \<Longrightarrow> t = t' \<Longrightarrow> i = i' \<Longrightarrow> j = j' \<Longrightarrow> effect opt t' i' j' s s'"
  by simp

lemma effect_char [simp]: "effect opt t i j (s\<lparr>charData := c\<rparr>) s' = effect opt t i j s s'"
  by (simp add: effect_def)

lemma effect_char' [simp]: "effect opt t i j s (s'\<lparr>charData := c\<rparr>) = effect opt t i j s s'"
  by (simp add: effect_def)

lemma after_char_effect:
  assumes "same_text s s1"
  shows "oldLineNumber (after_char e s1) = oldLineNumber s" "newLineNumber (after_char e s1) = newLineNumber s"
    "lastWasDelete (after_char e s1) = lastWasDelete s" "charData (after_char e s1) = charData s"
    "outstate.more (after_char e s1) = outstate.more s" "stdout_bytes (after_char e s1) = stdout_bytes s1"
  using assms by (simp_all add: after_char_def same_text_def Let_def)

lemma charDataEquals_sc: "\<not> UTF8Mode e \<Longrightarrow> charDataEquals e c s \<longleftrightarrow> singleChar (charData s) = c"
  by (simp add: charDataEquals_def)

lemma uint_eq_byte: "uint (b :: byte) = n \<longleftrightarrow> b = word_of_int n" if "0 \<le> n" "n < 256"
proof
  assume "uint b = n"
  then show "b = word_of_int n" by (metis word_of_int_uint)
qed (use that in \<open>simp add: uint_byte\<close>)

lemma uint_eq_small [simp]:
  "uint (b :: byte) = 10 \<longleftrightarrow> b = 10" "uint (b :: byte) = 13 \<longleftrightarrow> b = 13"
  "uint (b :: byte) = 1 \<longleftrightarrow> b = 1"
  using uint_eq_byte [of 10 b] uint_eq_byte [of 13 b] uint_eq_byte [of 1 b] by simp_all

definition old_mode :: "Mode \<Rightarrow> bool" where
  "old_mode m \<longleftrightarrow> m = OLD_COMMON \<or> m = DEL"

lemma ws_char_effect:
  assumes sc: "\<not> UTF8Mode e" and b: "singleChar (charData s) = uint b"
  shows "\<exists>s'. handleWhitespaceChar e opt print mode s = Inr s' \<and> charData s' = charData s \<and>
    effect opt (if print then [b] else []) (if old_mode mode then nl [b] else 0)
      (if old_mode mode then 0 else nl [b]) s s'"
proof -
  have count: "charData s2 = charData s \<Longrightarrow> charData (if charDataEquals e 10 s2 then count_ws_line mode s2 else s2) = charData s \<and>
      effect opt [] (if old_mode mode then nl [b] else 0) (if old_mode mode then 0 else nl [b]) s2
        (if charDataEquals e 10 s2 then count_ws_line mode s2 else s2)" for s2
    using sc b by (cases mode) (auto simp: charDataEquals_sc count_ws_line_def effect_def old_mode_def)
  show ?thesis
  proof (cases print)
    case False
    with count [of s] show ?thesis by (auto simp: handleWhitespaceChar_def)
  next
    case True
    define s0 where "s0 = doPostLinefeed opt mode s"
    define s1 where "s1 = (if less_mode opt \<and> \<not> charDataEquals e 10 s0 \<and> \<not> charDataEquals e 13 s0 \<and> mode = DEL
        then addchar opt 8 (is_common mode) (addchar opt 95 (is_common mode) s0)
        else if needStartStop opt \<and> \<not> is_common mode \<and> at_line_end e s0 then line_end_markers opt mode s0 else s0)"
    let ?s2 = "after_char e (addchar opt b (is_common mode) s1)"
    have t0: "same_text s s0" unfolding s0_def by (rule doPostLinefeed_text)
    have t1: "same_text s s1" by (rule same_text_more [OF t0]) (simp add: s1_def)
    have t2: "same_text s (addchar opt b (is_common mode) s1)" by (rule same_text_more [OF t1]) simp
    have out: "plain opt \<Longrightarrow> stdout_bytes s1 = stdout_bytes s"
      by (simp add: s1_def s0_def doPostLinefeed_plain line_end_plain) (simp add: plain_def)
    have e2: "effect opt [b] 0 0 s ?s2"
      using after_char_effect [OF t2] out by (simp add: effect_def plain_addchar)
    have c2: "charData ?s2 = charData s" using after_char_effect [OF t2] by simp
    have "singleChar (charData s1) = uint b" using t1 b by (simp add: same_text_def)
    then have "addCharData e opt (is_common mode) s1 = Inr (addchar opt b (is_common mode) s1)"
      using sc by (simp add: addCharData_def)
    then have "handleWhitespaceChar e opt print mode s =
        Inr (if charDataEquals e 10 ?s2 then count_ws_line mode ?s2 else ?s2)"
      using True by (simp add: handleWhitespaceChar_def Let_def flip: s0_def s1_def)
    with count [OF c2] effect_trans [OF e2] True show ?thesis by fastforce
  qed
qed

lemma token_char_effect:
  assumes sc: "\<not> UTF8Mode e" and b: "singleChar (charData s) = uint b"
  shows "\<exists>s'. print_token_char e opt mode s = Inr s' \<and> charData s' = charData s \<and> effect opt [b] 0 0 s s'"
proof -
  define s0 where "s0 = doPostLinefeed opt mode s"
  define s1 where "s1 = (if needStartStop opt \<and> \<not> is_common mode \<and> at_line_end e s0
      then line_end_markers opt mode s0 else s0)"
  define s2 where "s2 = (if (printer opt \<or> less_mode opt) \<and> b \<noteq> 10 \<and> b \<noteq> 13 then
      if mode = DEL then addchar opt 8 (is_common mode) (addchar opt 95 (is_common mode) s1)
      else if mode = ADD then addchar opt 8 (is_common mode) (addchar opt b (is_common mode) s1)
      else s1 else s1)"
  have t0: "same_text s s0" unfolding s0_def by (rule doPostLinefeed_text)
  have t1: "same_text s s1" by (rule same_text_more [OF t0]) (simp add: s1_def)
  have t2: "same_text s s2" by (rule same_text_more [OF t1]) (simp add: s2_def)
  have t3: "same_text s (addchar opt b (is_common mode) s2)" by (rule same_text_more [OF t2]) simp
  have out: "plain opt \<Longrightarrow> stdout_bytes s2 = stdout_bytes s"
    by (simp add: s2_def s1_def s0_def doPostLinefeed_plain line_end_plain) (simp add: plain_def)
  have "singleChar (charData s1) = uint b" "singleChar (charData s2) = uint b"
    using t1 t2 b by (simp_all add: same_text_def)
  then have add: "addCharData e opt c s1 = Inr (addchar opt b c s1)" "addCharData e opt c s2 = Inr (addchar opt b c s2)"
    "charDataEquals e 10 s1 \<longleftrightarrow> b = 10" "charDataEquals e 13 s1 \<longleftrightarrow> b = 13" for c
    using sc by (simp_all add: addCharData_def charDataEquals_sc)
  have "addTokenChar e opt mode s1 = bind_res (Inr s2) (\<lambda>s'. addCharData e opt (is_common mode) s')"
    unfolding addTokenChar_def s2_def using add(1,3,4) by auto
  then have "addTokenChar e opt mode s1 = Inr (addchar opt b (is_common mode) s2)"
    using add(2) by simp
  then have "print_token_char e opt mode s = Inr (after_char e (addchar opt b (is_common mode) s2))"
    by (simp add: print_token_char_def Let_def flip: s0_def s1_def)
  with after_char_effect [OF t3] out show ?thesis by (simp add: effect_def plain_addchar)
qed

section \<open>Reading the pieces\<close>

definition with_char :: "int \<Rightarrow> 'a outstate_scheme \<Rightarrow> 'a outstate_scheme" where
  "with_char c s = s\<lparr>charData := (charData s)\<lparr>singleChar := c\<rparr>\<rparr>"

lemma with_char_simps [simp]:
  "singleChar (charData (with_char c s)) = c"
  "effect opt t i j (with_char c s) s' = effect opt t i j s s'"
  "effect opt t i j s (with_char c s') = effect opt t i j s s'"
  by (simp_all add: with_char_def)

text \<open>A stream that can be read and that has not reported its end.\<close>

definition open_stream :: "Stream \<Rightarrow> byte list \<Rightarrow> bool" where
  "open_stream strm bs \<longleftrightarrow> stream_ok strm \<and> stream_rest strm = bs \<and> (isFileStream strm \<longrightarrow> \<not> at_eof strm)"

lemma byte_not_EOF [simp]: "uint (b :: byte) \<noteq> EOF"
  using uint_ge_0 [of b] by linarith

lemma fileGetc_not_eof:
  assumes "reading f" "to_read f = b # bs" "\<not> fileEof f" "fileGetc f = Inr (c, f')"
  shows "\<not> fileEof f'"
proof -
  obtain ps err st rs where fb: "fill_buffer [] (reads f) = (ps, err, st, rs)" by (metis prod_cases4)
  have st: "st \<noteq> EOF_HIT"
  proof -
    have "fst (snd (snd (fill_buffer acc es))) \<noteq> EOF_HIT" for acc es
      by (induction acc es rule: fill_buffer.induct) (simp_all add: Let_def)
    from this [of "[]" "reads f"] fb show ?thesis by simp
  qed
  show ?thesis
  proof (cases "bufferIndex f < bufferFill f")
    case True
    with assms show ?thesis by (auto simp: fileGetc_def reading_def fileEof_def split: if_splits)
  next
    case False
    with assms(1,2) have "eof f = EOF_NO" by (auto simp: to_read_def reading_def split: if_splits)
    moreover have "c \<noteq> EOF"
      using fileGetc_byte [OF assms(1,2)] assms(4) by auto
    ultimately show ?thesis using False assms st fb
      by (auto simp: fileGetc_def reading_def fileEof_def Let_def split: if_splits)
  qed
qed

lemma getChar_open:
  assumes "open_stream strm (b # bs)"
  shows "\<exists>strm'. getChar strm = Inr (uint b, strm') \<and> open_stream strm' bs \<and> isFileStream strm' = isFileStream strm"
proof -
  from assms have ok: "stream_ok strm" "stream_rest strm = b # bs" by (simp_all add: open_stream_def)
  from getChar_byte [OF this] obtain strm' where
    s': "getChar strm = Inr (uint b, strm')" "stream_ok strm'" "stream_rest strm' = bs" "same_reader strm strm'" by blast
  have "\<not> at_eof strm'" if is_file: "isFileStream strm'"
  proof -
    from is_file s'(4) have "isFileStream strm" by (simp add: same_reader_def)
    then obtain f where f: "sdata strm = FileData f" by (cases "sdata strm") (auto simp: isFileStream_def)
    from f s'(1) obtain f' where f': "fileGetc f = Inr (uint b, f')" "sdata strm' = FileData f'"
      by (cases "fileGetc f") (auto simp: getChar_def getCharFile_def)
    have "reading f" "to_read f = b # bs" "\<not> fileEof f"
      using ok assms f \<open>isFileStream strm\<close> by (simp_all add: stream_ok_def stream_rest_def open_stream_def at_eof_def)
    from fileGetc_not_eof [OF this f'(1)] f'(2) show ?thesis by (simp add: at_eof_def)
  qed
  with s' show ?thesis by (auto simp: open_stream_def same_reader_def)
qed

lemma read_byte:
  assumes "\<not> UTF8Mode e" "open_stream strm (b # bs)"
  shows "\<exists>strm'. readNextChar e strm s = Some (Inr (True, strm', with_char (uint b) s)) \<and> open_stream strm' bs \<and>
    isFileStream strm' = isFileStream strm"
  using getChar_open [OF assms(2)] assms(1) by (auto simp: readNextChar_def with_char_def)

lemma read_end:
  assumes "\<not> UTF8Mode e" "open_stream strm []"
  shows "\<exists>strm'. readNextChar e strm s = Some (Inr (False, strm', with_char EOF s)) \<and> stream_ok strm' \<and>
    stream_rest strm' = [] \<and> isFileStream strm' = isFileStream strm \<and> at_eof strm'"
proof (cases "sdata strm")
  case (FileData f)
  with assms(2) have "reading f" "to_read f = []" by (simp_all add: open_stream_def stream_ok_def stream_rest_def)
  from fileGetc_eof [OF this] FileData assms(1) show ?thesis
    by (fastforce simp: readNextChar_def with_char_def getChar_def getCharFile_def stream_ok_def stream_rest_def
        isFileStream_def at_eof_def)
next
  case (StringData t i)
  with assms show ?thesis
    by (auto simp: readNextChar_def with_char_def getChar_def getCharString_def stream_ok_def stream_rest_def
        isFileStream_def at_eof_def open_stream_def)
qed

text \<open>The end of a piece, and a character of a piece with its escape mark.\<close>

lemma read_zero:
  assumes "\<not> UTF8Mode e" "open_stream strm (0 # bs)"
  shows "\<exists>strm'. readNextChar e strm s = Some (Inr (True, strm', with_char 0 s)) \<and> open_stream strm' bs \<and>
    isFileStream strm' = isFileStream strm"
  using read_byte [OF assms] by simp

lemma read_escaped:
  assumes sc: "\<not> UTF8Mode e" and o: "open_stream strm (esc (b # w) @ r)"
  shows "\<exists>c strm1 strm2. readNextChar e strm s = Some (Inr (True, strm1, with_char c s)) \<and> c \<noteq> 0 \<and>
    unescape e strm1 (with_char c s) = Some (Inr (strm2, with_char (uint b) s)) \<and> open_stream strm2 (esc w @ r) \<and>
    isFileStream strm2 = isFileStream strm"
proof (cases "b = 0 \<or> b = 1")
  case True
  with o have "open_stream strm (1 # b # esc w @ r)" by auto
  from read_byte [OF sc this, of s] obtain strm1 where
    1: "readNextChar e strm s = Some (Inr (True, strm1, with_char 1 s))" "open_stream strm1 (b # esc w @ r)"
      "isFileStream strm1 = isFileStream strm" by auto
  from read_byte [OF sc 1(2), of "with_char 1 s"] 1 sc show ?thesis
    by (fastforce simp: unescape_def charDataEquals_sc with_char_def)
next
  case False
  with o have "open_stream strm (b # esc w @ r)" by auto
  moreover have "uint b \<noteq> 0" using False uint_eq_byte [of 0 b] by simp
  ultimately show ?thesis
    using read_byte [OF sc, of strm b "esc w @ r" s] False sc by (fastforce simp: unescape_def charDataEquals_sc)
qed

text \<open>
  A piece in a file ends with a zero byte and is followed by further bytes; a piece in a string
  ends with the string.
\<close>

definition piece :: "Stream \<Rightarrow> bool \<Rightarrow> byte list \<Rightarrow> byte list \<Rightarrow> bool" where
  "piece strm stop w r \<longleftrightarrow> open_stream strm (esc w @ (if stop then 0 # r else []))"

definition past :: "Stream \<Rightarrow> Stream \<Rightarrow> bool \<Rightarrow> byte list \<Rightarrow> bool" where
  "past strm strm' stop r \<longleftrightarrow> isFileStream strm' = isFileStream strm \<and> (stop \<longrightarrow> open_stream strm' r)"

lemma past_trans: "past strm1 strm2 stop r \<Longrightarrow> isFileStream strm1 = isFileStream strm \<Longrightarrow> past strm strm2 stop r"
  by (simp add: past_def)

lemma read_stop:
  assumes sc: "\<not> UTF8Mode e" and "piece strm stop [] r"
  shows "\<exists>ok strm' c. readNextChar e strm s = Some (Inr (ok, strm', with_char c s)) \<and> (ok \<longrightarrow> c = 0) \<and> (\<not> ok \<longrightarrow> \<not> stop) \<and>
    past strm strm' stop r"
proof (cases stop)
  case True
  with assms read_zero [OF sc, of strm r s] show ?thesis by (auto simp: piece_def past_def)
next
  case False
  with assms read_end [OF sc, of strm s] show ?thesis by (auto simp: piece_def past_def)
qed

lemma read_piece:
  assumes "\<not> UTF8Mode e" "piece strm stop (b # w) r"
  shows "\<exists>c strm1 strm2. readNextChar e strm s = Some (Inr (True, strm1, with_char c s)) \<and> c \<noteq> 0 \<and>
    unescape e strm1 (with_char c s) = Some (Inr (strm2, with_char (uint b) s)) \<and> piece strm2 stop w r \<and>
    isFileStream strm2 = isFileStream strm"
  using read_escaped [OF assms(1), of strm b w "if stop then 0 # r else []" s] assms(2) by (simp add: piece_def)

lemma ws_file_loop_piece:
  assumes sc: "\<not> UTF8Mode e"
  shows "piece strm stop w r \<Longrightarrow> \<exists>strm' s'. ws_file_loop e opt print mode strm s = Some (Inr (strm', s')) \<and>
    past strm strm' stop r \<and>
    effect opt (if print then w else []) (if old_mode mode then nl w else 0) (if old_mode mode then 0 else nl w) s s'"
proof (induction w arbitrary: strm s)
  case Nil
  from read_stop [OF sc Nil, of s] show ?case
    by (subst ws_file_loop.simps) (use sc in \<open>force simp: charDataEquals_sc\<close>)
next
  case (Cons b w)
  from read_piece [OF sc Cons.prems, of s] obtain c strm1 strm2 where
    rd: "readNextChar e strm s = Some (Inr (True, strm1, with_char c s))" "c \<noteq> 0"
      "unescape e strm1 (with_char c s) = Some (Inr (strm2, with_char (uint b) s))" "piece strm2 stop w r"
      "isFileStream strm2 = isFileStream strm" by blast
  from ws_char_effect [OF sc, of "with_char (uint b) s" b opt print mode] obtain s1 where
    s1: "handleWhitespaceChar e opt print mode (with_char (uint b) s) = Inr s1"
      "effect opt (if print then [b] else []) (if old_mode mode then nl [b] else 0)
        (if old_mode mode then 0 else nl [b]) s s1" by auto
  from Cons.IH [OF rd(4), of s1] obtain strm' s' where
    s': "ws_file_loop e opt print mode strm2 s1 = Some (Inr (strm', s'))" "past strm2 strm' stop r"
      "effect opt (if print then w else []) (if old_mode mode then nl w else 0) (if old_mode mode then 0 else nl w) s1 s'"
    by blast
  have "ws_file_loop e opt print mode strm s = Some (Inr (strm', s'))"
    by (subst ws_file_loop.simps) (use sc rd s1(1) s'(1) in \<open>simp add: charDataEquals_sc\<close>)
  moreover have "effect opt (if print then b # w else []) (if old_mode mode then nl (b # w) else 0)
      (if old_mode mode then 0 else nl (b # w)) s s'"
    by (rule effect_cong [OF effect_trans [OF s1(2) s'(3)]]) simp_all
  ultimately show ?case using past_trans [OF s'(2) rd(5)] by blast
qed

lemma ws_string_loop_all:
  assumes sc: "\<not> UTF8Mode e"
  shows "open_stream strm w \<Longrightarrow> \<exists>s'. ws_string_loop e opt print mode strm s = Some (Inr s') \<and>
    effect opt (if print then w else []) (if old_mode mode then nl w else 0) (if old_mode mode then 0 else nl w) s s'"
proof (induction w arbitrary: strm s)
  case Nil
  from read_end [OF sc Nil, of s] show ?case
    by (subst ws_string_loop.simps) auto
next
  case (Cons b w)
  from read_byte [OF sc Cons.prems, of s] obtain strm1 where
    rd: "readNextChar e strm s = Some (Inr (True, strm1, with_char (uint b) s))" "open_stream strm1 w" by blast
  from ws_char_effect [OF sc, of "with_char (uint b) s" b opt print mode] obtain s1 where
    s1: "handleWhitespaceChar e opt print mode (with_char (uint b) s) = Inr s1"
      "effect opt (if print then [b] else []) (if old_mode mode then nl [b] else 0)
        (if old_mode mode then 0 else nl [b]) s s1" by auto
  from Cons.IH [OF rd(2), of s1] obtain s' where
    s': "ws_string_loop e opt print mode strm1 s1 = Some (Inr s')"
      "effect opt (if print then w else []) (if old_mode mode then nl w else 0) (if old_mode mode then 0 else nl w) s1 s'"
    by blast
  have "ws_string_loop e opt print mode strm s = Some (Inr s')"
    by (subst ws_string_loop.simps) (use rd s1(1) s'(1) in simp)
  moreover have "effect opt (if print then b # w else []) (if old_mode mode then nl (b # w) else 0)
      (if old_mode mode then 0 else nl (b # w)) s s'"
    by (rule effect_cong [OF effect_trans [OF s1(2) s'(2)]]) simp_all
  ultimately show ?case by blast
qed

text \<open>Newlines in a word: a common word counts for both files when the new one is read.\<close>

definition tok_old :: "Mode \<Rightarrow> nat \<Rightarrow> nat" where
  "tok_old m n = (if m = COMMON \<or> m = DEL then n else 0)"

definition tok_new :: "Mode \<Rightarrow> nat \<Rightarrow> nat" where
  "tok_new m n = (if m = COMMON \<or> m = ADD then n else 0)"

lemma count_token_effect:
  "effect opt [] (tok_old mode 1) (tok_new mode 1) s (count_token_line mode s)"
  by (cases mode) (simp_all add: count_token_line_def effect_def tok_old_def tok_new_def)

text \<open>A paragraph marker is printed only for an empty word.\<close>

definition no_marker :: "option_t \<Rightarrow> bool \<Rightarrow> Mode \<Rightarrow> bool \<Rightarrow> byte list \<Rightarrow> bool" where
  "no_marker opt print mode isEmpty w \<longleftrightarrow> \<not> (paraDelim opt \<and> print \<and> isEmpty \<and> w = [] \<and> mode \<noteq> COMMON)"

lemma token_loop_piece:
  assumes sc: "\<not> UTF8Mode e"
  shows "piece strm True w r \<Longrightarrow> no_marker opt print mode isEmpty w \<Longrightarrow>
    \<exists>strm' s'. token_loop e opt print mode isEmpty strm s = Some (Inr (strm', s')) \<and> past strm strm' True r \<and>
    effect opt (if print then w else []) (tok_old mode (nl w)) (tok_new mode (nl w)) s s'"
proof (induction w arbitrary: strm s isEmpty)
  case Nil
  from read_stop [OF sc Nil(1), of s] obtain strm' where
    "readNextChar e strm s = Some (Inr (True, strm', with_char 0 s))" "past strm strm' True r" by auto
  with Nil(2) sc show ?case
    by (subst token_loop.simps) (auto simp: charDataEquals_sc no_marker_def tok_old_def tok_new_def)
next
  case (Cons b w)
  from read_piece [OF sc Cons.prems(1), of s] obtain c strm1 strm2 where
    rd: "readNextChar e strm s = Some (Inr (True, strm1, with_char c s))" "c \<noteq> 0"
      "unescape e strm1 (with_char c s) = Some (Inr (strm2, with_char (uint b) s))" "piece strm2 True w r"
      "isFileStream strm2 = isFileStream strm" by blast
  let ?s = "with_char (uint b) s"
  obtain s1 where s1: "(if print then print_token_char e opt mode ?s else Inr ?s) = Inr s1"
    "singleChar (charData s1) = uint b" "effect opt (if print then [b] else []) 0 0 s s1"
    using token_char_effect [OF sc, of ?s b opt mode] by (cases print) auto
  let ?s2 = "if charDataEquals e 10 s1 then count_token_line mode s1 else s1"
  have s2: "effect opt [] (tok_old mode (nl [b])) (tok_new mode (nl [b])) s1 ?s2"
    using s1(2) sc count_token_effect [of opt mode s1] by (auto simp: charDataEquals_sc tok_old_def tok_new_def)
  from Cons.IH [OF rd(4), of False ?s2] obtain strm' s' where
    s': "token_loop e opt print mode False strm2 ?s2 = Some (Inr (strm', s'))" "past strm2 strm' True r"
      "effect opt (if print then w else []) (tok_old mode (nl w)) (tok_new mode (nl w)) ?s2 s'"
    by (auto simp: no_marker_def)
  have "token_loop e opt print mode isEmpty strm s = Some (Inr (strm', s'))"
    by (subst token_loop.simps) (use sc rd s1(1) s'(1) in \<open>simp add: charDataEquals_sc [of e 0]\<close>)
  moreover have "effect opt (if print then b # w else []) (tok_old mode (nl (b # w))) (tok_new mode (nl (b # w))) s s'"
    by (rule effect_cong [OF effect_trans [OF effect_trans [OF s1(3) s2] s'(3)]]) (simp_all add: tok_old_def tok_new_def)
  ultimately show ?case using past_trans [OF s'(2) rd(5)] by blast
qed

text \<open>At the end of the words the loop only notices the end.\<close>

lemma token_loop_end:
  assumes "\<not> UTF8Mode e" "open_stream strm []"
  shows "\<exists>strm' s'. token_loop e opt print mode isEmpty strm s = Some (Inr (strm', s')) \<and> stream_ok strm' \<and>
    stream_rest strm' = [] \<and> isFileStream strm' = isFileStream strm \<and> at_eof strm' \<and> effect opt [] 0 0 s s'"
  using read_end [OF assms, of s] by (subst token_loop.simps) auto

lemma load_loop_piece:
  assumes sc: "\<not> UTF8Mode e"
  shows "piece strm True w r \<Longrightarrow>
    \<exists>strm' b' s'. load_loop e newlineFound strm b s = Some (Inr (newlineFound \<or> 10 \<in> set w, strm', b', s')) \<and>
      past strm strm' True r \<and> vdata b' = vdata b @ w \<and> effect opt [] 0 0 s s'"
proof (induction w arbitrary: strm s b newlineFound)
  case Nil
  from read_stop [OF sc Nil, of s] show ?case
    by (subst load_loop.simps) (use sc in \<open>force simp: charDataEquals_sc\<close>)
next
  case (Cons x w)
  from read_piece [OF sc Cons.prems(1), of s] obtain c strm1 strm2 where
    rd: "readNextChar e strm s = Some (Inr (True, strm1, with_char c s))" "c \<noteq> 0"
      "unescape e strm1 (with_char c s) = Some (Inr (strm2, with_char (uint x) s))" "piece strm2 True w r"
      "isFileStream strm2 = isFileStream strm" by blast
  from Cons.IH [OF rd(4), of "newlineFound \<or> x = 10" "VECTOR_APPEND b x" "with_char (uint x) s"] obtain strm' b' s' where
    s': "load_loop e (newlineFound \<or> x = 10) strm2 (VECTOR_APPEND b x) (with_char (uint x) s) =
        Some (Inr ((newlineFound \<or> x = 10) \<or> 10 \<in> set w, strm', b', s'))" "past strm2 strm' True r"
      "vdata b' = vdata b @ [x] @ w" "effect opt [] 0 0 s s'" by auto
  have "load_loop e newlineFound strm b s = Some (Inr ((newlineFound \<or> x = 10) \<or> 10 \<in> set w, strm', b', s'))"
    by (subst load_loop.simps) (use sc rd s'(1) in \<open>simp add: charDataEquals_sc\<close>)
  then show ?case using past_trans [OF s'(2) rd(5)] s'(3,4) by auto
qed

section \<open>White space of both files\<close>

text \<open>The newlines of the file that is printed and of the other one, as old and new lines.\<close>

definition sync_old :: "bool \<Rightarrow> nat \<Rightarrow> nat \<Rightarrow> nat" where
  "sync_old printNew a b = (if printNew then b else a)"

definition sync_new :: "bool \<Rightarrow> nat \<Rightarrow> nat \<Rightarrow> nat" where
  "sync_new printNew a b = (if printNew then a else b)"

lemma count_line_effect:
  "effect opt [] (sync_old printNew 1 0) (sync_new printNew 1 0) s (count_line printNew s)"
  "effect opt [] (sync_old printNew 0 1) (sync_new printNew 0 1) s (count_line (\<not> printNew) s)"
  by (simp_all add: count_line_def effect_def sync_old_def sync_new_def)

lemma count_line_char [simp]: "charData (count_line b s) = charData s"
  by (simp add: count_line_def)

text \<open>
  The search for a newline of the other file: either it is found, or the piece ends without one.
\<close>

lemma sync_b_piece:
  assumes sc: "\<not> UTF8Mode e"
  shows "piece strm stop w r \<Longrightarrow> \<exists>result strm' s'. sync_b e printNew strm s = Some (Inr (result, strm', s')) \<and>
    isFileStream strm' = isFileStream strm \<and>
    (if charDataEquals e 0 s' \<or> \<not> result
     then nl w = 0 \<and> past strm strm' stop r \<and> effect opt [] 0 0 s s'
     else \<exists>w'. piece strm' stop w' r \<and> nl w = nl w' + 1 \<and>
       effect opt [] (sync_old printNew 0 1) (sync_new printNew 0 1) s s')"
proof (induction w arbitrary: strm s)
  case Nil
  from read_stop [OF sc Nil, of s] show ?case
    by (subst sync_b.simps) (use sc in \<open>force simp: charDataEquals_sc past_def\<close>)
next
  case (Cons b w)
  from read_piece [OF sc Cons.prems, of s] obtain c strm1 strm2 where
    rd: "readNextChar e strm s = Some (Inr (True, strm1, with_char c s))" "c \<noteq> 0"
      "unescape e strm1 (with_char c s) = Some (Inr (strm2, with_char (uint b) s))" "piece strm2 stop w r"
      "isFileStream strm2 = isFileStream strm" by blast
  show ?case
  proof (cases "b = 10")
    case True
    let ?s' = "count_line (\<not> printNew) (with_char 10 s)"
    have "sync_b e printNew strm s = Some (Inr (True, strm2, ?s'))"
      by (subst sync_b.simps) (use sc rd True in \<open>simp add: charDataEquals_sc\<close>)
    moreover have "effect opt [] (sync_old printNew 0 1) (sync_new printNew 0 1) s ?s'"
      using count_line_effect(2) [of opt printNew "with_char 10 s"] by simp
    ultimately show ?thesis
      using rd(4,5) sc True by (intro exI [of _ True] exI [of _ strm2] exI [of _ ?s']) (auto simp: charDataEquals_sc)
  next
    case False
    have step: "sync_b e printNew strm s = sync_b e printNew strm2 (with_char (uint b) s)"
      by (subst sync_b.simps) (use sc rd False in \<open>simp add: charDataEquals_sc\<close>)
    have same: "past strm2 t y z = past strm t y z" "nl (b # w) = nl w" for t y z
      using rd(5) False by (simp_all add: past_def)
    from Cons.IH [OF rd(4), of "with_char (uint b) s"] show ?thesis
      by (simp only: step rd(5) same with_char_simps)
  qed
qed

text \<open>The state of the other file while the first one is read.\<close>

definition other :: "bool \<Rightarrow> Stream \<Rightarrow> bool \<Rightarrow> byte list \<Rightarrow> byte list \<Rightarrow> bool" where
  "other BValid strm stop w r \<longleftrightarrow>
     (if BValid then piece strm stop w r else nl w = 0 \<and> (stop \<longrightarrow> open_stream strm r))"

lemma print_common_char:
  assumes sc: "\<not> UTF8Mode e" and b: "singleChar (charData s) = uint b"
  shows "\<exists>s'. (if printCommon opt
       then Some (bind_res (addCharData e opt True (doPostLinefeed opt COMMON s)) (\<lambda>s'. Inr (after_char e s')))
       else Some (Inr s)) = Some (Inr s') \<and> charData s' = charData s \<and>
    effect opt (if printCommon opt then [b] else []) 0 0 s s'"
proof (cases "printCommon opt")
  case True
  let ?s0 = "doPostLinefeed opt COMMON s"
  have t0: "same_text s ?s0" by (rule doPostLinefeed_text)
  have t1: "same_text s (addchar opt b True ?s0)" by (rule same_text_more [OF t0]) simp
  have "singleChar (charData ?s0) = uint b" using t0 b by (simp add: same_text_def)
  with sc have "addCharData e opt True ?s0 = Inr (addchar opt b True ?s0)" by (simp add: addCharData_def)
  with True after_char_effect [OF t1] show ?thesis
    by (simp add: effect_def plain_addchar doPostLinefeed_plain)
qed simp

lemma sync_a_piece:
  assumes sc: "\<not> UTF8Mode e"
  shows "piece strmA stopA a rA \<Longrightarrow> other BValid strmB stopB b rB \<Longrightarrow>
    \<exists>BValid' strmA' strmB' s' b'. sync_a e opt printNew BValid strmA strmB s = Some (Inr (BValid', strmA', strmB', s')) \<and>
      past strmA strmA' stopA rA \<and> isFileStream strmB' = isFileStream strmB \<and> other BValid' strmB' stopB b' rB \<and>
      nl b' \<le> nl b \<and>
      effect opt (if printCommon opt then a else []) (sync_old printNew (nl a) (nl b - nl b'))
        (sync_new printNew (nl a) (nl b - nl b')) s s'"
proof (induction a arbitrary: strmA strmB BValid b s)
  case Nil
  from read_stop [OF sc Nil(1), of s] obtain ok strm' c where
    rd: "readNextChar e strmA s = Some (Inr (ok, strm', with_char c s))" "ok \<longrightarrow> c = 0" "past strmA strm' stopA rA" by blast
  have "sync_a e opt printNew BValid strmA strmB s = Some (Inr (BValid, strm', strmB, with_char c s))"
    by (subst sync_a.simps) (use sc rd in \<open>auto simp: charDataEquals_sc\<close>)
  with Nil(2) rd(3) show ?case
    by (intro exI [of _ BValid] exI [of _ strm'] exI [of _ strmB] exI [of _ "with_char c s"] exI [of _ b])
      (simp add: sync_old_def sync_new_def)
next
  case (Cons x a)
  from read_piece [OF sc Cons.prems(1), of s] obtain c strm1 strm2 where
    rd: "readNextChar e strmA s = Some (Inr (True, strm1, with_char c s))" "c \<noteq> 0"
      "unescape e strm1 (with_char c s) = Some (Inr (strm2, with_char (uint x) s))" "piece strm2 stopA a rA"
      "isFileStream strm2 = isFileStream strmA" by blast
  from print_common_char [OF sc, of "with_char (uint x) s" x opt] obtain s1 where
    s1: "(if printCommon opt
       then Some (bind_res (addCharData e opt True (doPostLinefeed opt COMMON (with_char (uint x) s)))
         (\<lambda>s'. Inr (after_char e s'))) else Some (Inr (with_char (uint x) s))) = Some (Inr s1)"
      "charData s1 = charData (with_char (uint x) s)" "effect opt (if printCommon opt then [x] else []) 0 0 s s1"
    by auto
  have char: "charDataEquals e 10 s1 \<longleftrightarrow> x = 10" using sc s1(2) by (simp add: charDataEquals_sc)
  define step where "step = (if x = 10 then
      let s2 = count_line printNew s1
      in if BValid then
           bind_run (sync_b e printNew strmB s2) (\<lambda>(result, strmB1, s3).
             sync_a e opt printNew (\<not> (charDataEquals e 0 s3 \<or> \<not> result)) strm2 strmB1 s3)
         else sync_a e opt printNew BValid strm2 strmB s2
    else sync_a e opt printNew BValid strm2 strmB s1)"
  have unfold: "sync_a e opt printNew BValid strmA strmB s = step"
    by (subst sync_a.simps) (use sc rd s1(1) char in \<open>simp add: step_def charDataEquals_sc [of e 0]\<close>)
  obtain BV1 strmB1 s3 b1 where n: "step = sync_a e opt printNew BV1 strm2 strmB1 s3" "other BV1 strmB1 stopB b1 rB"
    "isFileStream strmB1 = isFileStream strmB" "nl b1 \<le> nl b"
    "effect opt (if printCommon opt then [x] else []) (sync_old printNew (nl [x]) (nl b - nl b1))
       (sync_new printNew (nl [x]) (nl b - nl b1)) s s3"
  proof (cases "x = 10")
    case False
    with that [of BValid strmB s1 b] Cons.prems(2) s1(3) show ?thesis
      by (simp add: step_def sync_old_def sync_new_def)
  next
    case True
    have e2: "effect opt (if printCommon opt then [x] else []) (sync_old printNew 1 0) (sync_new printNew 1 0) s
        (count_line printNew s1)"
      by (rule effect_cong [OF effect_trans [OF s1(3) count_line_effect(1)]]) simp_all
    show ?thesis
    proof (cases BValid)
      case False
      with that [of False strmB "count_line printNew s1" b] Cons.prems(2) True e2 show ?thesis
        by (simp add: step_def)
    next
      case valid: True
      with Cons.prems(2) have "piece strmB stopB b rB" by (simp add: other_def)
      from sync_b_piece [OF sc this, of printNew "count_line printNew s1" opt] obtain result strmB1 s3 where
        b: "sync_b e printNew strmB (count_line printNew s1) = Some (Inr (result, strmB1, s3))"
          "isFileStream strmB1 = isFileStream strmB"
          "if charDataEquals e 0 s3 \<or> \<not> result
           then nl b = 0 \<and> past strmB strmB1 stopB rB \<and> effect opt [] 0 0 (count_line printNew s1) s3
           else \<exists>w'. piece strmB1 stopB w' rB \<and> nl b = nl w' + 1 \<and>
             effect opt [] (sync_old printNew 0 1) (sync_new printNew 0 1) (count_line printNew s1) s3" by blast
      have st: "step = sync_a e opt printNew (\<not> (charDataEquals e 0 s3 \<or> \<not> result)) strm2 strmB1 s3"
        using True valid b(1) by (simp add: step_def)
      show ?thesis
      proof (cases "charDataEquals e 0 s3 \<or> \<not> result")
        case ended: True
        with b(3) have f: "nl b = 0" "past strmB strmB1 stopB rB" "effect opt [] 0 0 (count_line printNew s1) s3"
          by simp_all
        show ?thesis
        proof (rule that [of False strmB1 s3 b])
          show "effect opt (if printCommon opt then [x] else []) (sync_old printNew (nl [x]) (nl b - nl b))
              (sync_new printNew (nl [x]) (nl b - nl b)) s s3"
            by (rule effect_cong [OF effect_trans [OF e2 f(3)]]) (simp_all add: True)
        qed (use st ended b(2) f in \<open>auto simp: other_def past_def\<close>)
      next
        case found: False
        with b(3) obtain w' where f: "piece strmB1 stopB w' rB" "nl b = nl w' + 1"
          "effect opt [] (sync_old printNew 0 1) (sync_new printNew 0 1) (count_line printNew s1) s3" by auto
        show ?thesis
        proof (rule that [of True strmB1 s3 w'])
          show "effect opt (if printCommon opt then [x] else []) (sync_old printNew (nl [x]) (nl b - nl w'))
              (sync_new printNew (nl [x]) (nl b - nl w')) s s3"
            by (rule effect_cong [OF effect_trans [OF e2 f(3)]])
              (use f(2) True in \<open>simp_all add: sync_old_def sync_new_def\<close>)
        qed (use st found b(2) f in \<open>auto simp: other_def\<close>)
      qed
    qed
  qed
  from Cons.IH [OF rd(4) n(2), of s3] obtain BV2 strmA' strmB2 s4 b2 where
    r: "sync_a e opt printNew BV1 strm2 strmB1 s3 = Some (Inr (BV2, strmA', strmB2, s4))" "past strm2 strmA' stopA rA"
      "isFileStream strmB2 = isFileStream strmB1" "other BV2 strmB2 stopB b2 rB" "nl b2 \<le> nl b1"
      "effect opt (if printCommon opt then a else []) (sync_old printNew (nl a) (nl b1 - nl b2))
        (sync_new printNew (nl a) (nl b1 - nl b2)) s3 s4" by blast
  have "effect opt (if printCommon opt then x # a else []) (sync_old printNew (nl (x # a)) (nl b - nl b2))
      (sync_new printNew (nl (x # a)) (nl b - nl b2)) s s4"
    by (rule effect_cong [OF effect_trans [OF n(5) r(6)]])
      (use n(4) r(5) in \<open>simp_all add: sync_old_def sync_new_def\<close>)
  with unfold n(1,3,4) r past_trans [OF r(2) rd(5)] show ?case
    by (intro exI [of _ BV2] exI [of _ strmA'] exI [of _ strmB2] exI [of _ s4] exI [of _ b2]) simp
qed

lemma sync_rest_piece:
  assumes sc: "\<not> UTF8Mode e"
  shows "piece strm stop w r \<Longrightarrow> \<exists>strm' s'. sync_rest e printNew strm s = Some (Inr (strm', s')) \<and> past strm strm' stop r \<and>
    effect opt [] (sync_old printNew 0 (nl w)) (sync_new printNew 0 (nl w)) s s'"
proof (induction w arbitrary: strm s)
  case Nil
  from read_stop [OF sc Nil, of s] show ?case
    by (subst sync_rest.simps) (use sc in \<open>force simp: charDataEquals_sc sync_old_def sync_new_def\<close>)
next
  case (Cons b w)
  from read_piece [OF sc Cons.prems, of s] obtain c strm1 strm2 where
    rd: "readNextChar e strm s = Some (Inr (True, strm1, with_char c s))" "c \<noteq> 0"
      "unescape e strm1 (with_char c s) = Some (Inr (strm2, with_char (uint b) s))" "piece strm2 stop w r"
      "isFileStream strm2 = isFileStream strm" by blast
  let ?s1 = "if b = 10 then count_line (\<not> printNew) (with_char (uint b) s) else with_char (uint b) s"
  have e1: "effect opt [] (sync_old printNew 0 (nl [b])) (sync_new printNew 0 (nl [b])) s ?s1"
    using count_line_effect(2) [of opt printNew "with_char (uint b) s"] by (auto simp: sync_old_def sync_new_def)
  from Cons.IH [OF rd(4), of ?s1] obtain strm' s' where
    s': "sync_rest e printNew strm2 ?s1 = Some (Inr (strm', s'))" "past strm2 strm' stop r"
      "effect opt [] (sync_old printNew 0 (nl w)) (sync_new printNew 0 (nl w)) ?s1 s'" by blast
  have "sync_rest e printNew strm s = Some (Inr (strm', s'))"
    by (subst sync_rest.simps) (use sc rd s'(1) in \<open>auto simp: charDataEquals_sc\<close>)
  moreover have "effect opt [] (sync_old printNew 0 (nl (b # w))) (sync_new printNew 0 (nl (b # w))) s s'"
    by (rule effect_cong [OF effect_trans [OF e1 s'(3)]]) (simp_all add: sync_old_def sync_new_def)
  ultimately show ?case using past_trans [OF s'(2) rd(5)] by blast
qed

text \<open>Both loops together.\<close>

lemma sync_pieces:
  assumes sc: "\<not> UTF8Mode e" and "piece strmA stopA a rA" "piece strmB stopB b rB"
  shows "\<exists>BValid strmA' strmB1 s1 strmB' s'. sync_a e opt printNew True strmA strmB s = Some (Inr (BValid, strmA', strmB1, s1)) \<and>
    (if BValid then sync_rest e printNew strmB1 s1 else Some (Inr (strmB1, s1))) = Some (Inr (strmB', s')) \<and>
    past strmA strmA' stopA rA \<and> past strmB strmB' stopB rB \<and>
    effect opt (if printCommon opt then a else []) (sync_old printNew (nl a) (nl b)) (sync_new printNew (nl a) (nl b)) s s'"
proof -
  have "other True strmB stopB b rB" using assms(3) by (simp add: other_def)
  from sync_a_piece [OF sc assms(2) this, of opt printNew s] obtain BV strmA' strmB1 s1 b' where
    a: "sync_a e opt printNew True strmA strmB s = Some (Inr (BV, strmA', strmB1, s1))" "past strmA strmA' stopA rA"
      "isFileStream strmB1 = isFileStream strmB" "other BV strmB1 stopB b' rB" "nl b' \<le> nl b"
      "effect opt (if printCommon opt then a else []) (sync_old printNew (nl a) (nl b - nl b'))
        (sync_new printNew (nl a) (nl b - nl b')) s s1" by blast
  show ?thesis
  proof (cases BV)
    case True
    with a(4) have "piece strmB1 stopB b' rB" by (simp add: other_def)
    from sync_rest_piece [OF sc this, of printNew s1 opt] obtain strmB' s' where
      b: "sync_rest e printNew strmB1 s1 = Some (Inr (strmB', s'))" "past strmB1 strmB' stopB rB"
        "effect opt [] (sync_old printNew 0 (nl b')) (sync_new printNew 0 (nl b')) s1 s'" by blast
    have "effect opt (if printCommon opt then a else []) (sync_old printNew (nl a) (nl b)) (sync_new printNew (nl a) (nl b)) s s'"
      by (rule effect_cong [OF effect_trans [OF a(6) b(3)]]) (use a(5) in \<open>simp_all add: sync_old_def sync_new_def\<close>)
    with a(1,2) b(1) True past_trans [OF b(2) a(3)] show ?thesis
      by (intro exI [of _ BV] exI [of _ strmA'] exI [of _ strmB1] exI [of _ s1] exI [of _ strmB'] exI [of _ s'] conjI) simp_all
  next
    case False
    with a(4) have f: "nl b' = 0" "stopB \<longrightarrow> open_stream strmB1 rB" by (simp_all add: other_def)
    have "effect opt (if printCommon opt then a else []) (sync_old printNew (nl a) (nl b)) (sync_new printNew (nl a) (nl b)) s s1"
      by (rule effect_cong [OF a(6)]) (simp_all add: f(1))
    with a(1-3) False f(2) show ?thesis
      by (intro exI [of _ BV] exI [of _ strmA'] exI [of _ strmB1] exI [of _ s1] exI [of _ strmB1] exI [of _ s1] conjI)
        (simp_all add: past_def)
  qed
qed

section \<open>The files\<close>

lemma more_files:
  "outstate.more s' = outstate.more s \<Longrightarrow> oldFile s' = oldFile s \<and> newFile s' = newFile s \<and>
     statistics s' = statistics s \<and> differences s' = differences s \<and> hash_table s' = hash_table s \<and>
     baseHashMax s' = baseHashMax s \<and> diffstate.more s' = diffstate.more s"
  by (cases s; cases s') simp

lemma effect_files:
  assumes "effect opt t i j s s'"
  shows "oldFile s' = oldFile s" "newFile s' = newFile s" "get_file f s' = get_file f s"
    "statistics s' = statistics s" "differences s' = differences s" "hash_table s' = hash_table s"
    "baseHashMax s' = baseHashMax s" "diffstate.more s' = diffstate.more s"
  using more_files [of s' s] assms by (simp_all add: effect_def get_file_def split: side.split)

lemma get_set_file [simp]:
  "get_file f (set_file f x s) = x"
  "f \<noteq> g \<Longrightarrow> get_file g (set_file f x s) = get_file g s"
  by (cases f; cases g; simp add: get_file_def set_file_def)+

text \<open>
  The effect on the whole state; which files have advanced is said separately. The flag
  \<open>lastWasDelete\<close> is left out.
\<close>

definition shown :: "option_t \<Rightarrow> byte list \<Rightarrow> nat \<Rightarrow> nat \<Rightarrow> 'a diffstate_scheme \<Rightarrow> 'a diffstate_scheme \<Rightarrow> bool" where
  "shown opt t i j s s' \<longleftrightarrow>
     (plain opt \<longrightarrow> stdout_bytes s' = stdout_bytes s @ t) \<and>
     oldLineNumber s' = oldLineNumber s + of_nat i \<and> newLineNumber s' = newLineNumber s + of_nat j \<and>
     (\<forall>f. diffTokens (get_file f s') = diffTokens (get_file f s)) \<and>
     statistics s' = statistics s \<and> differences s' = differences s \<and> hash_table s' = hash_table s \<and>
     baseHashMax s' = baseHashMax s \<and> diffstate.more s' = diffstate.more s"

lemma shown_refl [simp]: "shown opt [] 0 0 s s"
  by (simp add: shown_def)

lemma shown_trans:
  "shown opt t i j s s1 \<Longrightarrow> shown opt t' i' j' s1 s2 \<Longrightarrow> shown opt (t @ t') (i + i') (j + j') s s2"
  by (simp add: shown_def add.assoc)

lemma shown_cong: "shown opt t i j s s' \<Longrightarrow> t = t' \<Longrightarrow> i = i' \<Longrightarrow> j = j' \<Longrightarrow> shown opt t' i' j' s s'"
  by simp

lemma effect_shown: "effect opt t i j s s' \<Longrightarrow> shown opt t i j s s'"
  using effect_files [of opt t i j s s'] by (simp add: shown_def effect_def)

lemma shown_set_file:
  assumes "shown opt t i j s s'" "diffTokens x = diffTokens (get_file f s')"
  shows "shown opt t i j s (set_file f x s')"
proof -
  have "diffTokens (get_file g (set_file f x s')) = diffTokens (get_file g s')" for g
    using assms(2) by (cases "f = g") auto
  moreover have "stdout_bytes (set_file f x s') = stdout_bytes s'" "oldLineNumber (set_file f x s') = oldLineNumber s'"
    "newLineNumber (set_file f x s') = newLineNumber s'" "statistics (set_file f x s') = statistics s'"
    "differences (set_file f x s') = differences s'" "hash_table (set_file f x s') = hash_table s'"
    "baseHashMax (set_file f x s') = baseHashMax s'" "diffstate.more (set_file f x s') = diffstate.more s'"
    by (cases f; simp add: set_file_def)+
  ultimately show ?thesis using assms(1) by (simp add: shown_def)
qed

lemma set_file_flag [simp]: "lastWasDelete (set_file f x s) = lastWasDelete s"
  by (cases f) (simp_all add: set_file_def)

text \<open>
  What is still to be read of a file: the white space loaded in its buffer, the pieces of white
  space and the words.
\<close>

definition file_at :: "InputFile \<Rightarrow> byte list option \<Rightarrow> byte list list \<Rightarrow> byte list list \<Rightarrow> bool" where
  "file_at x b ws ts \<longleftrightarrow>
     open_stream (itokens x) (pieces ts) \<and> isFileStream (itokens x) \<and>
     open_stream (iwhitespace x) (pieces ws) \<and> isFileStream (iwhitespace x) \<and>
     (case b of None \<Rightarrow> \<not> whitespaceBufferUsed x
      | Some w \<Rightarrow> whitespaceBufferUsed x \<and> vdata (iwhitespaceBuffer x) = w)"

text \<open>Taking the next piece of white space, from the buffer or from the file.\<close>

definition next_ws :: "byte list option \<Rightarrow> byte list list \<Rightarrow> byte list \<Rightarrow> byte list list \<Rightarrow> bool" where
  "next_ws b ws w ws' \<longleftrightarrow> b = None \<and> ws = w # ws' \<or> b = Some w \<and> ws' = ws"

lemma file_at_upd [simp]:
  "file_at (x\<lparr>lastPrinted := n\<rparr>) b ws ts = file_at x b ws ts"
  by (simp add: file_at_def split: option.split)

lemma open_newStringStream: "open_stream (newStringStream w) w"
  by (simp add: open_stream_def newStringStream_def initStreamDefault_def stream_ok_def stream_rest_def isFileStream_def)

lemma handleNextWhitespace_shown:
  assumes sc: "\<not> UTF8Mode e" and "file_at (get_file f s) b ws ts" "next_ws b ws w ws'"
  shows "\<exists>s'. handleNextWhitespace e opt f print mode s = Some (Inr s') \<and> file_at (get_file f s') None ws' ts \<and>
    lastPrinted (get_file f s') = lastPrinted (get_file f s) \<and> (\<forall>g. g \<noteq> f \<longrightarrow> get_file g s' = get_file g s) \<and>
    lastWasDelete s' = lastWasDelete s \<and>
    shown opt (if print then w else []) (if old_mode mode then nl w else 0) (if old_mode mode then 0 else nl w) s s'"
proof (cases "whitespaceBufferUsed (get_file f s)")
  case True
  with assms(2,3) have b: "b = Some w" "ws' = ws" "vdata (iwhitespaceBuffer (get_file f s)) = w"
    by (auto simp: file_at_def next_ws_def split: option.splits)
  from ws_string_loop_all [OF sc open_newStringStream, of opt print mode w s] obtain s1 where
    s1: "ws_string_loop e opt print mode (newStringStream w) s = Some (Inr s1)"
      "effect opt (if print then w else []) (if old_mode mode then nl w else 0) (if old_mode mode then 0 else nl w) s s1"
    by blast
  let ?x = "get_file f s"
  let ?x' = "?x\<lparr>iwhitespaceBuffer := vector_clear (iwhitespaceBuffer ?x), whitespaceBufferUsed := False\<rparr>"
  have f1: "get_file g s1 = get_file g s" for g using effect_files(3) [OF s1(2)] .
  have "handleNextWhitespace e opt f print mode s = Some (Inr (set_file f ?x' s1))"
    using True s1(1) b(3) f1 by (simp add: handleNextWhitespace_def Let_def)
  moreover have "file_at ?x' None ws' ts" using assms(2) b by (simp add: file_at_def)
  moreover have "shown opt (if print then w else []) (if old_mode mode then nl w else 0)
      (if old_mode mode then 0 else nl w) s (set_file f ?x' s1)"
    by (rule shown_set_file [OF effect_shown [OF s1(2)]]) (simp add: f1)
  ultimately show ?thesis using f1 s1(2) by (auto simp: effect_def)
next
  case False
  with assms(2,3) have b: "b = None" "ws = w # ws'" by (auto simp: file_at_def next_ws_def)
  with assms(2) have "piece (iwhitespace (get_file f s)) True w (pieces ws')" by (simp add: file_at_def piece_def)
  from ws_file_loop_piece [OF sc this, of opt print mode s] obtain strm s1 where
    s1: "ws_file_loop e opt print mode (iwhitespace (get_file f s)) s = Some (Inr (strm, s1))"
      "past (iwhitespace (get_file f s)) strm True (pieces ws')"
      "effect opt (if print then w else []) (if old_mode mode then nl w else 0) (if old_mode mode then 0 else nl w) s s1"
    by blast
  let ?x' = "(get_file f s)\<lparr>iwhitespace := strm\<rparr>"
  have f1: "get_file g s1 = get_file g s" for g using effect_files(3) [OF s1(3)] .
  have "handleNextWhitespace e opt f print mode s = Some (Inr (set_file f ?x' s1))"
    using False s1(1) f1 by (simp add: handleNextWhitespace_def)
  moreover have "file_at ?x' None ws' ts" using assms(2) b s1(2) by (simp add: file_at_def past_def)
  moreover have "shown opt (if print then w else []) (if old_mode mode then nl w else 0)
      (if old_mode mode then 0 else nl w) s (set_file f ?x' s1)"
    by (rule shown_set_file [OF effect_shown [OF s1(3)]]) (simp add: f1)
  ultimately show ?thesis using f1 s1(3) by (auto simp: effect_def)
qed

end
