(* ===== verification/Rendering.thy ===== *)
theory Rendering
  imports Printing
begin

text \<open>
  What \<open>doDiff\<close> prints for single-byte characters and plain options, as a function of the words,
  the white space and the script: \<open>render\<close>. The simulation follows the calls of doDiff.c; the
  state of a file is the list of pieces that are still to be read. The line counters are
  followed for all options.
\<close>

section \<open>Words\<close>

lemma handleNextToken_shown:
  assumes sc: "\<not> UTF8Mode e" and "file_at (get_file f s) b ws (t # ts)" "\<not> paraDelim opt"
  shows "\<exists>s'. handleNextToken e opt f print mode s = Some (Inr s') \<and> file_at (get_file f s') b ws ts \<and>
    lastPrinted (get_file f s') = lastPrinted (get_file f s) \<and> (\<forall>g. g \<noteq> f \<longrightarrow> get_file g s' = get_file g s) \<and>
    lastWasDelete s' = lastWasDelete s \<and>
    shown opt (if print then t else []) (tok_old mode (nl t)) (tok_new mode (nl t)) s s'"
proof -
  have "piece (itokens (get_file f s)) True t (pieces ts)" "no_marker opt print mode True t"
    using assms(2,3) by (simp_all add: file_at_def piece_def no_marker_def)
  from token_loop_piece [OF sc this, of s] obtain strm s1 where
    s1: "token_loop e opt print mode True (itokens (get_file f s)) s = Some (Inr (strm, s1))"
      "past (itokens (get_file f s)) strm True (pieces ts)"
      "effect opt (if print then t else []) (tok_old mode (nl t)) (tok_new mode (nl t)) s s1" by blast
  let ?x' = "(get_file f s)\<lparr>itokens := strm\<rparr>"
  have f1: "get_file g s1 = get_file g s" for g using effect_files(3) [OF s1(3)] .
  have "handleNextToken e opt f print mode s = Some (Inr (set_file f ?x' s1))"
    using s1(1) f1 by (simp add: handleNextToken_def)
  moreover have "file_at ?x' b ws ts" using assms(2) s1(2) by (simp add: file_at_def past_def split: option.splits)
  moreover have "shown opt (if print then t else []) (tok_old mode (nl t)) (tok_new mode (nl t)) s (set_file f ?x' s1)"
    by (rule shown_set_file [OF effect_shown [OF s1(3)]]) (simp add: f1)
  ultimately show ?thesis using f1 s1(3) by (auto simp: effect_def)
qed

text \<open>Reading past the last word leaves the end-of-file mark.\<close>

lemma handleNextToken_end:
  assumes sc: "\<not> UTF8Mode e" and "file_at (get_file f s) b ws []"
  shows "\<exists>s'. handleNextToken e opt f print mode s = Some (Inr s') \<and> at_eof (itokens (get_file f s')) \<and>
    (\<forall>g. g \<noteq> f \<longrightarrow> get_file g s' = get_file g s) \<and> lastWasDelete s' = lastWasDelete s \<and> shown opt [] 0 0 s s'"
proof -
  have "open_stream (itokens (get_file f s)) []" using assms(2) by (simp add: file_at_def)
  from token_loop_end [OF sc this, of opt print mode True s] obtain strm s1 where
    s1: "token_loop e opt print mode True (itokens (get_file f s)) s = Some (Inr (strm, s1))" "at_eof strm"
      "effect opt [] 0 0 s s1" by blast
  let ?x' = "(get_file f s)\<lparr>itokens := strm\<rparr>"
  have f1: "get_file g s1 = get_file g s" for g using effect_files(3) [OF s1(3)] .
  have "handleNextToken e opt f print mode s = Some (Inr (set_file f ?x' s1))"
    using s1(1) f1 by (simp add: handleNextToken_def)
  moreover have "shown opt [] 0 0 s (set_file f ?x' s1)"
    by (rule shown_set_file [OF effect_shown [OF s1(3)]]) (simp add: f1)
  ultimately show ?thesis using f1 s1(2,3) by (auto simp: effect_def)
qed

lemma advance_facts [simp]:
  "get_file f (advance f s) = (get_file f s)\<lparr>lastPrinted := lastPrinted (get_file f s) + 1\<rparr>"
  "f \<noteq> g \<Longrightarrow> get_file g (advance f s) = get_file g s"
  "lastWasDelete (advance f s) = lastWasDelete s"
  by (simp_all add: advance_def)

lemma advance_shown: "shown opt t i j s s' \<Longrightarrow> shown opt t i j s (advance f s')"
  unfolding advance_def by (rule shown_set_file) simp_all

text \<open>White space and words alternate.\<close>

definition interleave :: "byte list list \<Rightarrow> byte list list \<Rightarrow> byte list" where
  "interleave ws ts = concat (map (\<lambda>(w, t). w @ t) (zip ws ts))"

lemma interleave_simps [simp]:
  "interleave [] ts = []" "interleave ws [] = []"
  "interleave (w # ws) (t # ts) = w @ t @ interleave ws ts"
  by (simp_all add: interleave_def)

definition side_mode :: "side \<Rightarrow> Mode" where
  "side_mode f = (case f of Old \<Rightarrow> DEL | New \<Rightarrow> ADD)"

definition for_old :: "side \<Rightarrow> nat \<Rightarrow> nat" where
  "for_old f n = (case f of Old \<Rightarrow> n | New \<Rightarrow> 0)"

definition for_new :: "side \<Rightarrow> nat \<Rightarrow> nat" where
  "for_new f n = (case f of Old \<Rightarrow> 0 | New \<Rightarrow> n)"

lemma side_counts:
  "(if old_mode (side_mode f) then n else 0) = for_old f n" "(if old_mode (side_mode f) then 0 else n) = for_new f n"
  "(if old_mode (plus_common (side_mode f)) then n else 0) = for_old f n"
  "(if old_mode (plus_common (side_mode f)) then 0 else n) = for_new f n"
  "tok_old (side_mode f) n = for_old f n" "tok_new (side_mode f) n = for_new f n"
  by (cases f; simp add: side_mode_def old_mode_def plus_common_def for_old_def for_new_def tok_old_def tok_new_def)+

lemma for_side_add: "for_old f (m + n) = for_old f m + for_old f n" "for_new f (m + n) = for_new f m + for_new f n"
  by (cases f; simp add: for_old_def for_new_def)+

lemma for_side_0 [simp]: "for_old f 0 = 0" "for_new f 0 = 0"
  by (cases f; simp add: for_old_def for_new_def)+

lemma word_loop_shown:
  assumes sc: "\<not> UTF8Mode e" and np: "\<not> paraDelim opt"
  shows "file_at (get_file f s) None ws ts \<Longrightarrow> n \<le> length ws \<Longrightarrow> n \<le> length ts \<Longrightarrow>
    \<exists>s'. word_loop e opt f print (side_mode f) n s = Some (Inr s') \<and>
      file_at (get_file f s') None (drop n ws) (drop n ts) \<and>
      lastPrinted (get_file f s') = lastPrinted (get_file f s) + int n \<and>
      (\<forall>g. g \<noteq> f \<longrightarrow> get_file g s' = get_file g s) \<and> lastWasDelete s' = lastWasDelete s \<and>
      shown opt (if print then interleave (take n ws) (take n ts) else [])
        (for_old f (nl (interleave (take n ws) (take n ts)))) (for_new f (nl (interleave (take n ws) (take n ts)))) s s'"
proof (induction n arbitrary: ws ts s)
  case (Suc n)
  then obtain w ws' t ts' where l: "ws = w # ws'" "ts = t # ts'" by (cases ws; cases ts) auto
  have "next_ws None ws w ws'" using l by (simp add: next_ws_def)
  from handleNextWhitespace_shown [OF sc Suc.prems(1) this, of opt print "side_mode f"] obtain s1 where
    s1: "handleNextWhitespace e opt f print (side_mode f) s = Some (Inr s1)" "file_at (get_file f s1) None ws' ts"
      "lastPrinted (get_file f s1) = lastPrinted (get_file f s)" "\<And>g. g \<noteq> f \<Longrightarrow> get_file g s1 = get_file g s"
      "lastWasDelete s1 = lastWasDelete s"
      "shown opt (if print then w else []) (for_old f (nl w)) (for_new f (nl w)) s s1"
    unfolding side_counts by blast
  from handleNextToken_shown [OF sc s1(2) [unfolded l] np, of print "side_mode f"] obtain s2 where
    s2: "handleNextToken e opt f print (side_mode f) s1 = Some (Inr s2)" "file_at (get_file f s2) None ws' ts'"
      "lastPrinted (get_file f s2) = lastPrinted (get_file f s1)" "\<And>g. g \<noteq> f \<Longrightarrow> get_file g s2 = get_file g s1"
      "lastWasDelete s2 = lastWasDelete s1"
      "shown opt (if print then t else []) (for_old f (nl t)) (for_new f (nl t)) s1 s2"
    unfolding side_counts by blast
  have "file_at (get_file f (advance f s2)) None ws' ts'" "n \<le> length ws'" "n \<le> length ts'"
    using s2(2) Suc.prems l by simp_all
  from Suc.IH [OF this] obtain s' where
    s': "word_loop e opt f print (side_mode f) n (advance f s2) = Some (Inr s')"
      "file_at (get_file f s') None (drop n ws') (drop n ts')"
      "lastPrinted (get_file f s') = lastPrinted (get_file f (advance f s2)) + int n"
      "\<And>g. g \<noteq> f \<Longrightarrow> get_file g s' = get_file g (advance f s2)" "lastWasDelete s' = lastWasDelete (advance f s2)"
      "shown opt (if print then interleave (take n ws') (take n ts') else [])
        (for_old f (nl (interleave (take n ws') (take n ts')))) (for_new f (nl (interleave (take n ws') (take n ts')))) (advance f s2) s'"
    by blast
  have "word_loop e opt f print (side_mode f) (Suc n) s = Some (Inr s')"
    using s1(1) s2(1) s'(1) by simp
  moreover have "shown opt (if print then interleave (take (Suc n) ws) (take (Suc n) ts) else [])
      (for_old f (nl (interleave (take (Suc n) ws) (take (Suc n) ts))))
      (for_new f (nl (interleave (take (Suc n) ws) (take (Suc n) ts)))) s s'"
    by (rule shown_cong [OF shown_trans [OF advance_shown [OF shown_trans [OF s1(6) s2(6)]] s'(6)]])
      (simp_all add: l for_side_add)
  ultimately show ?case using s' s2 s1 l by auto
qed (simp add: side_counts)

lemma effect_all:
  "effect opt t i j s s' \<Longrightarrow> shown opt t i j s s' \<and> get_file f s' = get_file f s \<and> lastWasDelete s' = lastWasDelete s"
  using effect_shown [of opt t i j s s'] effect_files(3) [of opt t i j s s' f] by (simp add: effect_def)

lemma shown_buf:
  assumes "bufstate.more s' = bufstate.more s" "plain opt \<Longrightarrow> stdout_bytes s' = stdout_bytes s @ t"
  shows "shown opt t 0 0 s s' \<and> get_file f s' = get_file f s \<and> lastWasDelete s' = lastWasDelete s"
  by (rule effect_all) (use more_same_text [OF assms(1)] assms(2) in \<open>simp add: effect_def same_text_def\<close>)

lemma doPostLinefeed_shown:
  "shown opt [] 0 0 s (doPostLinefeed opt mode s) \<and> get_file f (doPostLinefeed opt mode s) = get_file f s \<and>
    lastWasDelete (doPostLinefeed opt mode s) = lastWasDelete s"
  by (rule effect_all)
    (use doPostLinefeed_text [of s opt mode] doPostLinefeed_plain [of opt mode s] in \<open>simp add: effect_def same_text_def\<close>)

section \<open>Common words\<close>

lemma ws_stream_piece:
  assumes "file_at x b ws ts" "next_ws b ws w ws'" "b \<noteq> None \<longrightarrow> esc w = w"
  shows "piece (ws_stream x) (b = None) w (pieces ws')" "whitespaceBufferUsed x \<longleftrightarrow> b \<noteq> None"
  using assms open_newStringStream [of w]
  by (auto simp: piece_def ws_stream_def file_at_def next_ws_def split: option.splits)

lemma put_ws_stream_at:
  assumes "file_at (get_file f s) b ws ts" "next_ws b ws w ws'" "past (ws_stream (get_file f s)) strm (b = None) (pieces ws')"
  shows "file_at (get_file f (put_ws_stream f strm s)) b ws' ts"
    "lastPrinted (get_file f (put_ws_stream f strm s)) = lastPrinted (get_file f s)"
    "f \<noteq> g \<Longrightarrow> get_file g (put_ws_stream f strm s) = get_file g s"
    "lastWasDelete (put_ws_stream f strm s) = lastWasDelete s"
    "shown opt t i j s0 s \<Longrightarrow> shown opt t i j s0 (put_ws_stream f strm s)"
proof -
  show "file_at (get_file f (put_ws_stream f strm s)) b ws' ts"
    using assms by (auto simp: file_at_def next_ws_def put_ws_stream_def past_def ws_stream_def Let_def split: option.splits)
  show "lastPrinted (get_file f (put_ws_stream f strm s)) = lastPrinted (get_file f s)"
    "f \<noteq> g \<Longrightarrow> get_file g (put_ws_stream f strm s) = get_file g s"
    "lastWasDelete (put_ws_stream f strm s) = lastWasDelete s" by (simp_all add: put_ws_stream_def Let_def)
  assume "shown opt t i j s0 s"
  then show "shown opt t i j s0 (put_ws_stream f strm s)"
    using shown_set_file [of opt t i j s0 s "(get_file f s)\<lparr>iwhitespace := strm\<rparr>" f] by (simp add: put_ws_stream_def Let_def)
qed

lemma handleSynchronized_shown:
  fixes A B :: side
  assumes sc: "\<not> UTF8Mode e" and AB: "(A, B) = (if printNew then (New, Old) else (Old, New))"
    and "file_at (get_file A s) bA wsA tsA" "next_ws bA wsA wA wsA'" "bA \<noteq> None \<longrightarrow> esc wA = wA"
    and "file_at (get_file B s) bB wsB tsB" "next_ws bB wsB wB wsB'" "bB \<noteq> None \<longrightarrow> esc wB = wB"
  shows "\<exists>s'. handleSynchronizedNextWhitespace e opt printNew s = Some (Inr s') \<and>
    file_at (get_file A s') bA wsA' tsA \<and> file_at (get_file B s') bB wsB' tsB \<and>
    (\<forall>f. lastPrinted (get_file f s') = lastPrinted (get_file f s)) \<and> lastWasDelete s' = lastWasDelete s \<and>
    shown opt (if printCommon opt then wA else []) (sync_old printNew (nl wA) (nl wB)) (sync_new printNew (nl wA) (nl wB)) s s'"
proof -
  have ne: "A \<noteq> B" using AB by (auto split: if_splits)
  note pA = ws_stream_piece [OF assms(3-5)] and pB = ws_stream_piece [OF assms(6-8)]
  from sync_pieces [OF sc pA(1) pB(1), of opt printNew s] obtain BV strmA strmB1 s1 strmB s2 where
    y: "sync_a e opt printNew True (ws_stream (get_file A s)) (ws_stream (get_file B s)) s = Some (Inr (BV, strmA, strmB1, s1))"
      "(if BV then sync_rest e printNew strmB1 s1 else Some (Inr (strmB1, s1))) = Some (Inr (strmB, s2))"
      "past (ws_stream (get_file A s)) strmA (bA = None) (pieces wsA')"
      "past (ws_stream (get_file B s)) strmB (bB = None) (pieces wsB')"
      "effect opt (if printCommon opt then wA else []) (sync_old printNew (nl wA) (nl wB)) (sync_new printNew (nl wA) (nl wB)) s s2"
    by blast
  let ?s3 = "put_ws_stream A strmA s2" let ?s4 = "put_ws_stream B strmB ?s3"
  have g2: "get_file f s2 = get_file f s" for f using effect_files(3) [OF y(5)] .
  note a = put_ws_stream_at [where f = A and s = s2 and strm = strmA, unfolded g2, OF assms(3,4) y(3)]
  have gB: "get_file B ?s3 = get_file B s" using a(3) [of B] ne g2 by simp
  note b = put_ws_stream_at [where f = B and s = ?s3 and strm = strmB, unfolded gB, OF assms(6,7) y(4)]
  have "handleSynchronizedNextWhitespace e opt printNew s = Some (Inr ?s4)"
    using y(1,2) by (simp add: handleSynchronizedNextWhitespace_def AB [symmetric] Let_def del: if_split)
  moreover have "file_at (get_file A ?s4) bA wsA' tsA" using a(1) b(3) [of A] ne by simp
  moreover have "file_at (get_file B ?s4) bB wsB' tsB" using b(1) by simp
  moreover have "lastPrinted (get_file f ?s4) = lastPrinted (get_file f s)" for f
    using a(2) b(2,3) ne AB g2 by (cases f) (auto split: if_splits)
  moreover have "lastWasDelete ?s4 = lastWasDelete s" using a(4) b(4) y(5) by (simp add: effect_def)
  moreover have "shown opt (if printCommon opt then wA else []) (sync_old printNew (nl wA) (nl wB))
      (sync_new printNew (nl wA) (nl wB)) s ?s4"
    by (intro b(5) a(5) effect_shown y(5))
  ultimately show ?thesis by blast
qed

text \<open>The same for the two files by name.\<close>

lemma handleSynchronized_files:
  assumes sc: "\<not> UTF8Mode e"
    and o: "file_at (get_file Old s) b0 ws0 ts0" "next_ws b0 ws0 w0 ws0'" "b0 \<noteq> None \<longrightarrow> esc w0 = w0"
    and n: "file_at (get_file New s) b1 ws1 ts1" "next_ws b1 ws1 w1 ws1'" "b1 \<noteq> None \<longrightarrow> esc w1 = w1"
  shows "\<exists>s'. handleSynchronizedNextWhitespace e opt printNew s = Some (Inr s') \<and>
    file_at (get_file Old s') b0 ws0' ts0 \<and> file_at (get_file New s') b1 ws1' ts1 \<and>
    (\<forall>f. lastPrinted (get_file f s') = lastPrinted (get_file f s)) \<and> lastWasDelete s' = lastWasDelete s \<and>
    shown opt (if printCommon opt then (if printNew then w1 else w0) else []) (nl w0) (nl w1) s s'"
proof (cases printNew)
  case True
  with handleSynchronized_shown [OF sc _ n o, of printNew opt] show ?thesis by (auto simp: sync_old_def sync_new_def)
next
  case False
  with handleSynchronized_shown [OF sc _ o n, of printNew opt] show ?thesis by (auto simp: sync_old_def sync_new_def)
qed

lemma flag_upd:
  "get_file f (s\<lparr>lastWasDelete := x\<rparr>) = get_file f s"
  "shown opt t i j s0 (s\<lparr>lastWasDelete := x\<rparr>) = shown opt t i j s0 s"
proof -
  show g: "get_file f (s\<lparr>lastWasDelete := x\<rparr>) = get_file f s" for f by (cases f) (simp_all add: get_file_def)
  show "shown opt t i j s0 (s\<lparr>lastWasDelete := x\<rparr>) = shown opt t i j s0 s" by (simp add: shown_def g)
qed

text \<open>One common word: the white space of one file, the word of the new one.\<close>

lemma common_word_shown:
  assumes sc: "\<not> UTF8Mode e" and np: "\<not> paraDelim opt"
    and o: "file_at (get_file Old s) None (w0 # ws0) (t0 # ts0)"
    and n: "file_at (get_file New s) None (w1 # ws1) (t1 # ts1)"
  shows "\<exists>s'. common_word e opt s = Some (Inr s') \<and>
    file_at (get_file Old s') None ws0 ts0 \<and> file_at (get_file New s') None ws1 ts1 \<and>
    (\<forall>f. lastPrinted (get_file f s') = lastPrinted (get_file f s)) \<and> \<not> lastWasDelete s' \<and>
    shown opt (if printCommon opt then (if lastWasDelete s then w0 else w1) @ t1 else []) (nl w0 + nl t1) (nl w1 + nl t1) s s'"
proof -
  from handleSynchronized_files [OF sc o _ _ n, of w0 ws0 w1 ws1 opt "\<not> lastWasDelete s"] obtain s1 where
    s1: "handleSynchronizedNextWhitespace e opt (\<not> lastWasDelete s) s = Some (Inr s1)"
      "file_at (get_file Old s1) None ws0 (t0 # ts0)" "file_at (get_file New s1) None ws1 (t1 # ts1)"
      "\<And>f. lastPrinted (get_file f s1) = lastPrinted (get_file f s)"
      "shown opt (if printCommon opt then (if \<not> lastWasDelete s then w1 else w0) else []) (nl w0) (nl w1) s s1"
    by (auto simp: next_ws_def)
  define s2 where "s2 = s1\<lparr>lastWasDelete := False\<rparr>"
  have n2: "file_at (get_file New s2) None ws1 (t1 # ts1)" using s1(3) by (simp add: s2_def flag_upd)
  from handleNextToken_shown [OF sc n2 np, of "printCommon opt" COMMON] obtain s3 where
    s3: "handleNextToken e opt New (printCommon opt) COMMON s2 = Some (Inr s3)" "file_at (get_file New s3) None ws1 ts1"
      "lastPrinted (get_file New s3) = lastPrinted (get_file New s2)" "get_file Old s3 = get_file Old s2"
      "lastWasDelete s3 = lastWasDelete s2" "shown opt (if printCommon opt then t1 else []) (nl t1) (nl t1) s2 s3"
    by (auto simp: tok_old_def tok_new_def)
  have o3: "file_at (get_file Old s3) None ws0 (t0 # ts0)" using s1(2) s3(4) by (simp add: s2_def flag_upd)
  from handleNextToken_shown [OF sc o3 np, of False OLD_COMMON] obtain s4 where
    s4: "handleNextToken e opt Old False OLD_COMMON s3 = Some (Inr s4)" "file_at (get_file Old s4) None ws0 ts0"
      "lastPrinted (get_file Old s4) = lastPrinted (get_file Old s3)" "get_file New s4 = get_file New s3"
      "lastWasDelete s4 = lastWasDelete s3" "shown opt [] 0 0 s3 s4"
    by (auto simp: tok_old_def tok_new_def)
  have "shown opt (if printCommon opt then (if \<not> lastWasDelete s then w1 else w0) else []) (nl w0) (nl w1) s s2"
    using s1(5) by (simp add: s2_def flag_upd)
  from shown_trans [OF shown_trans [OF this s3(6)] s4(6)]
  have "shown opt (if printCommon opt then (if lastWasDelete s then w0 else w1) @ t1 else []) (nl w0 + nl t1) (nl w1 + nl t1) s s4"
    by (rule shown_cong) simp_all
  moreover have "common_word e opt s = Some (Inr s4)"
    using s1(1) s3(1) s4(1) by (simp add: common_word_def s2_def)
  moreover have "lastPrinted (get_file f s4) = lastPrinted (get_file f s)" for f
    using s1(4) s3(3,4) s4(3,4) by (cases f) (simp_all add: s2_def flag_upd)
  moreover have "\<not> lastWasDelete s4" using s3(5) s4(5) by (simp add: s2_def)
  ultimately show ?thesis using s3(2) s4(2,4) by auto
qed

text \<open>After deleted words the white space of the old file is printed.\<close>

definition common_ws :: "bool \<Rightarrow> byte list list \<Rightarrow> byte list list \<Rightarrow> byte list list" where
  "common_ws wasDelete ws0 ws1 = (if wasDelete then take 1 ws0 @ drop 1 ws1 else ws1)"

lemma advance_both: "lastPrinted (get_file f (advance Old (advance New s))) = lastPrinted (get_file f s) + 1"
  by (cases f) simp_all

lemma common_loop_shown:
  assumes sc: "\<not> UTF8Mode e" and np: "\<not> paraDelim opt"
  shows "file_at (get_file Old s) None ws0 ts0 \<Longrightarrow> file_at (get_file New s) None ws1 ts1 \<Longrightarrow>
    n \<le> length ws0 \<Longrightarrow> n \<le> length ts0 \<Longrightarrow> n \<le> length ws1 \<Longrightarrow> n \<le> length ts1 \<Longrightarrow>
    \<exists>s'. common_loop e opt n s = Some (Inr s') \<and>
      file_at (get_file Old s') None (drop n ws0) (drop n ts0) \<and> file_at (get_file New s') None (drop n ws1) (drop n ts1) \<and>
      (\<forall>f. lastPrinted (get_file f s') = lastPrinted (get_file f s) + int n) \<and>
      lastWasDelete s' = (lastWasDelete s \<and> n = 0) \<and>
      shown opt (if printCommon opt then interleave (take n (common_ws (lastWasDelete s) ws0 ws1)) (take n ts1) else [])
        (nl (interleave (take n ws0) (take n ts1))) (nl (interleave (take n ws1) (take n ts1))) s s'"
proof (induction n arbitrary: ws0 ts0 ws1 ts1 s)
  case (Suc n)
  from Suc.prems(3-6) obtain w0 v0 t0 u0 w1 v1 t1 u1 where
    l: "ws0 = w0 # v0" "ts0 = t0 # u0" "ws1 = w1 # v1" "ts1 = t1 # u1"
    by (cases ws0; cases ts0; cases ws1; cases ts1) auto
  from common_word_shown [OF sc np Suc.prems(1,2) [unfolded l]] obtain s1 where
    s1: "common_word e opt s = Some (Inr s1)" "file_at (get_file Old s1) None v0 u0" "file_at (get_file New s1) None v1 u1"
      "\<And>f. lastPrinted (get_file f s1) = lastPrinted (get_file f s)" "\<not> lastWasDelete s1"
      "shown opt (if printCommon opt then (if lastWasDelete s then w0 else w1) @ t1 else []) (nl w0 + nl t1) (nl w1 + nl t1) s s1"
    by blast
  define s2 where "s2 = advance Old (advance New s1)"
  have s2: "file_at (get_file Old s2) None v0 u0" "file_at (get_file New s2) None v1 u1"
    "\<And>f. lastPrinted (get_file f s2) = lastPrinted (get_file f s1) + 1" "\<not> lastWasDelete s2"
    using s1(2,3,5) by (simp_all add: s2_def advance_both)
  have "n \<le> length v0" "n \<le> length u0" "n \<le> length v1" "n \<le> length u1" using Suc.prems l by simp_all
  note ih = Suc.IH [OF s2(1,2) this]
  have "common_ws (lastWasDelete s2) v0 v1 = v1" using s2(4) by (simp add: common_ws_def)
  from ih [unfolded this] s2(4) obtain s' where
    s': "common_loop e opt n s2 = Some (Inr s')"
      "file_at (get_file Old s') None (drop n v0) (drop n u0)" "file_at (get_file New s') None (drop n v1) (drop n u1)"
      "\<And>f. lastPrinted (get_file f s') = lastPrinted (get_file f s2) + int n" "\<not> lastWasDelete s'"
      "shown opt (if printCommon opt then interleave (take n v1) (take n u1) else [])
        (nl (interleave (take n v0) (take n u1))) (nl (interleave (take n v1) (take n u1))) s2 s'"
    by blast
  have "common_loop e opt (Suc n) s = Some (Inr s')" using s1(1) s'(1) by (simp add: s2_def)
  moreover have "shown opt (if printCommon opt then interleave (take (Suc n) (common_ws (lastWasDelete s) ws0 ws1)) (take (Suc n) ts1) else [])
        (nl (interleave (take (Suc n) ws0) (take (Suc n) ts1))) (nl (interleave (take (Suc n) ws1) (take (Suc n) ts1))) s s'"
    by (rule shown_cong [OF shown_trans [OF _ s'(6)]], unfold s2_def, (rule advance_shown)+, rule s1(6))
      (simp_all add: l common_ws_def)
  ultimately show ?case using s' s2(3) s1(4) l by auto
qed simp

section \<open>Changed words\<close>

lemma plain_color: "plain opt \<Longrightarrow> \<not> colorMode opt"
  by (simp add: plain_def)

definition start_text :: "option_t \<Rightarrow> side \<Rightarrow> byte list" where
  "start_text opt f = (if needStartStop opt then
     (case f of Old \<Rightarrow> take (delStartLen opt) (at_pointer (delStart opt)) | New \<Rightarrow> take (addStartLen opt) (at_pointer (addStart opt))) else [])"

definition stop_text :: "option_t \<Rightarrow> side \<Rightarrow> byte list" where
  "stop_text opt f = (if needStartStop opt then
     (case f of Old \<Rightarrow> take (delStopLen opt) (at_pointer (delStop opt)) | New \<Rightarrow> take (addStopLen opt) (at_pointer (addStop opt))) else [])"

text \<open>The words after the given white space, between the markers.\<close>

definition changed_text :: "option_t \<Rightarrow> side \<Rightarrow> byte list \<Rightarrow> byte list list \<Rightarrow> byte list list \<Rightarrow> byte list" where
  "changed_text opt f w ws ts = w @ start_text opt f @ hd ts @ interleave ws (tl ts) @ stop_text opt f"

definition starting :: "option_t \<Rightarrow> side \<Rightarrow> bool \<Rightarrow> 'a outstate_scheme \<Rightarrow> 'a outstate_scheme" where
  "starting opt f print s =
     (let mode = side_mode f; s2 = (if print then doPostLinefeed opt COMMON s else s)
      in if print \<and> needStartStop opt
         then write_start opt mode (if colorMode opt then write_color opt mode s2 else s2) else s2)"

definition stopping :: "option_t \<Rightarrow> side \<Rightarrow> bool \<Rightarrow> 'a outstate_scheme \<Rightarrow> 'a outstate_scheme" where
  "stopping opt f print s =
     (let mode = side_mode f; s6 = (if print then doPostLinefeed opt mode s else s)
      in if print \<and> needStartStop opt
         then let s7 = write_stop opt mode s6 in if colorMode opt then writeString opt resetColor (length resetColor) s7 else s7
         else s6)"

lemma printWords_alt:
  "printWords e opt start count f print (side_mode f) s =
     (if lastPrinted (get_file f s) \<noteq> start then Some (Inl Panic)
      else bind_run (handleNextWhitespace e opt f print (plus_common (side_mode f)) s) (\<lambda>s1.
             bind_run (handleNextToken e opt f print (side_mode f) (starting opt f print s1)) (\<lambda>s4.
               bind_run (handleWord e opt f (start + count) print (side_mode f) (advance f s4)) (\<lambda>s5.
                 Some (Inr (stopping opt f print s5))))))"
  by (simp add: printWords_def starting_def stopping_def Let_def)

lemma starting_shown:
  "shown opt (if print then start_text opt f else []) 0 0 s (starting opt f print s) \<and>
     get_file g (starting opt f print s) = get_file g s \<and> lastWasDelete (starting opt f print s) = lastWasDelete s"
proof (rule effect_all)
  have "same_text s (starting opt f print s)"
    using doPostLinefeed_text [of s opt COMMON] same_text_more [of s "doPostLinefeed opt COMMON s" "starting opt f print s"]
    by (cases print; cases "needStartStop opt") (simp_all add: starting_def Let_def)
  moreover have "plain opt \<Longrightarrow> stdout_bytes (starting opt f print s) = stdout_bytes s @ (if print then start_text opt f else [])"
    by (cases f) (simp_all add: starting_def start_text_def side_mode_def write_start_def plain_writeString doPostLinefeed_plain plain_color Let_def)
  ultimately show "effect opt (if print then start_text opt f else []) 0 0 s (starting opt f print s)"
    by (simp add: effect_def same_text_def)
qed

lemma stopping_shown:
  "shown opt (if print then stop_text opt f else []) 0 0 s (stopping opt f print s) \<and>
     get_file g (stopping opt f print s) = get_file g s \<and> lastWasDelete (stopping opt f print s) = lastWasDelete s"
proof (rule effect_all)
  have "same_text s (stopping opt f print s)"
    using doPostLinefeed_text [of s opt "side_mode f"] same_text_more [of s "doPostLinefeed opt (side_mode f) s" "stopping opt f print s"]
    by (cases print; cases "needStartStop opt") (simp_all add: stopping_def Let_def)
  moreover have "plain opt \<Longrightarrow> stdout_bytes (stopping opt f print s) = stdout_bytes s @ (if print then stop_text opt f else [])"
    by (cases f) (simp_all add: stopping_def stop_text_def side_mode_def write_stop_def plain_writeString doPostLinefeed_plain plain_color Let_def)
  ultimately show "effect opt (if print then stop_text opt f else []) 0 0 s (stopping opt f print s)"
    by (simp add: effect_def same_text_def)
qed

lemma printWords_shown:
  assumes sc: "\<not> UTF8Mode e" and np: "\<not> paraDelim opt"
    and x: "file_at (get_file f s) b ws ts" "next_ws b ws w ws'" "lastPrinted (get_file f s) = start"
    and n: "0 < n" "n \<le> length ts" "n \<le> Suc (length ws')"
  shows "\<exists>s'. printWords e opt start (int n) f print (side_mode f) s = Some (Inr s') \<and>
    file_at (get_file f s') None (drop (n - 1) ws') (drop n ts) \<and> lastPrinted (get_file f s') = start + int n \<and>
    (\<forall>g. g \<noteq> f \<longrightarrow> get_file g s' = get_file g s) \<and> lastWasDelete s' = lastWasDelete s \<and>
    shown opt (if print then changed_text opt f w (take (n - 1) ws') (take n ts) else [])
      (for_old f (nl (w @ hd ts @ interleave (take (n - 1) ws') (tl (take n ts)))))
      (for_new f (nl (w @ hd ts @ interleave (take (n - 1) ws') (tl (take n ts))))) s s'"
proof -
  from n obtain m where m: "n = Suc m" by (cases n) auto
  from n obtain t ts' where t: "ts = t # ts'" by (cases ts) auto
  from handleNextWhitespace_shown [OF sc x(1,2), of opt print "plus_common (side_mode f)"] obtain s1 where
    s1: "handleNextWhitespace e opt f print (plus_common (side_mode f)) s = Some (Inr s1)" "file_at (get_file f s1) None ws' ts"
      "lastPrinted (get_file f s1) = lastPrinted (get_file f s)" "\<And>g. g \<noteq> f \<Longrightarrow> get_file g s1 = get_file g s"
      "lastWasDelete s1 = lastWasDelete s"
      "shown opt (if print then w else []) (for_old f (nl w)) (for_new f (nl w)) s s1"
    unfolding side_counts by blast
  define s2 where "s2 = starting opt f print s1"
  have s2: "shown opt (if print then start_text opt f else []) 0 0 s1 s2" "\<And>g. get_file g s2 = get_file g s1"
    "lastWasDelete s2 = lastWasDelete s1" using starting_shown [of opt print f s1] by (simp_all add: s2_def)
  have "file_at (get_file f s2) None ws' (t # ts')" using s1(2) s2(2) t by simp
  from handleNextToken_shown [OF sc this np, of print "side_mode f"] obtain s3 where
    s3: "handleNextToken e opt f print (side_mode f) s2 = Some (Inr s3)" "file_at (get_file f s3) None ws' ts'"
      "lastPrinted (get_file f s3) = lastPrinted (get_file f s2)" "\<And>g. g \<noteq> f \<Longrightarrow> get_file g s3 = get_file g s2"
      "lastWasDelete s3 = lastWasDelete s2"
      "shown opt (if print then t else []) (for_old f (nl t)) (for_new f (nl t)) s2 s3"
    unfolding side_counts by blast
  define s4 where "s4 = advance f s3"
  have s4: "file_at (get_file f s4) None ws' ts'" "lastPrinted (get_file f s4) = start + 1"
    "\<And>g. g \<noteq> f \<Longrightarrow> get_file g s4 = get_file g s" "lastWasDelete s4 = lastWasDelete s"
    using s3(2-5) s2(2,3) s1(3-5) x(3) by (simp_all add: s4_def)
  have "m \<le> length ws'" "m \<le> length ts'" using n m t by simp_all
  from word_loop_shown [OF sc np s4(1) this, of print] obtain s5 where
    s5: "word_loop e opt f print (side_mode f) m s4 = Some (Inr s5)"
      "file_at (get_file f s5) None (drop m ws') (drop m ts')"
      "lastPrinted (get_file f s5) = lastPrinted (get_file f s4) + int m" "\<And>g. g \<noteq> f \<Longrightarrow> get_file g s5 = get_file g s4"
      "lastWasDelete s5 = lastWasDelete s4"
      "shown opt (if print then interleave (take m ws') (take m ts') else [])
        (for_old f (nl (interleave (take m ws') (take m ts')))) (for_new f (nl (interleave (take m ws') (take m ts')))) s4 s5"
    by blast
  define s6 where "s6 = stopping opt f print s5"
  have s6: "shown opt (if print then stop_text opt f else []) 0 0 s5 s6" "\<And>g. get_file g s6 = get_file g s5"
    "lastWasDelete s6 = lastWasDelete s5" using stopping_shown [of opt print f s5] by (simp_all add: s6_def)
  have "handleWord e opt f (start + int n) print (side_mode f) s4 = Some (Inr s5)"
    using s5(1) s4(2) m by (simp add: handleWord_def)
  then have "printWords e opt start (int n) f print (side_mode f) s = Some (Inr s6)"
    using s1(1) s3(1) x(3) by (simp add: printWords_alt s2_def s4_def s6_def)
  moreover have "shown opt (if print then changed_text opt f w (take (n - 1) ws') (take n ts) else [])
      (for_old f (nl (w @ hd ts @ interleave (take (n - 1) ws') (tl (take n ts)))))
      (for_new f (nl (w @ hd ts @ interleave (take (n - 1) ws') (tl (take n ts))))) s s6"
    by (rule shown_cong [OF shown_trans [OF shown_trans [OF advance_shown [OF shown_trans [OF shown_trans [OF s1(6) s2(1)] s3(6)],
          of f, folded s4_def] s5(6)] s6(1)]])
      (simp_all add: m t changed_text_def for_side_add)
  ultimately show ?thesis using s6(2,3) s5(2-5) s4(2-4) m t by auto
qed

text \<open>Where both files stand.\<close>

definition files_at :: "'a diffstate_scheme \<Rightarrow> byte list option \<Rightarrow> byte list list \<Rightarrow> byte list list \<Rightarrow> int \<Rightarrow>
    byte list option \<Rightarrow> byte list list \<Rightarrow> byte list list \<Rightarrow> int \<Rightarrow> bool" where
  "files_at s b0 ws0 ts0 n0 b1 ws1 ts1 n1 \<longleftrightarrow>
     file_at (get_file Old s) b0 ws0 ts0 \<and> lastPrinted (get_file Old s) = n0 \<and>
     file_at (get_file New s) b1 ws1 ts1 \<and> lastPrinted (get_file New s) = n1"

lemma deleted_words:
  assumes sc: "\<not> UTF8Mode e" and np: "\<not> paraDelim opt"
    and x: "files_at s b0 ws0 ts0 (line0 ch) b1 ws1 ts1 n1" "next_ws b0 ws0 w ws'"
    and n: "deleted ch = int d" "0 < d" "d \<le> length ts0" "d \<le> Suc (length ws')"
  shows "\<exists>s'. printDeletedWords e opt ch s = Some (Inr s') \<and>
    files_at s' None (drop (d - 1) ws') (drop d ts0) (line0 ch + int d) b1 ws1 ts1 n1 \<and> lastWasDelete s' = lastWasDelete s \<and>
    shown opt (if printDeleted opt then changed_text opt Old w (take (d - 1) ws') (take d ts0) else [])
      (nl (w @ hd ts0 @ interleave (take (d - 1) ws') (tl (take d ts0)))) 0 s s'"
proof -
  from x(1) have o: "file_at (get_file Old s) b0 ws0 ts0" "lastPrinted (get_file Old s) = line0 ch" by (simp_all add: files_at_def)
  from printWords_shown [OF sc np o(1) x(2) o(2) n(2-4), of "printDeleted opt"] obtain s' where
    s': "printWords e opt (line0 ch) (int d) Old (printDeleted opt) (side_mode Old) s = Some (Inr s')"
      "file_at (get_file Old s') None (drop (d - 1) ws') (drop d ts0)" "lastPrinted (get_file Old s') = line0 ch + int d"
      "\<And>g. g \<noteq> Old \<Longrightarrow> get_file g s' = get_file g s" "lastWasDelete s' = lastWasDelete s"
      "shown opt (if printDeleted opt then changed_text opt Old w (take (d - 1) ws') (take d ts0) else [])
        (for_old Old (nl (w @ hd ts0 @ interleave (take (d - 1) ws') (tl (take d ts0)))))
        (for_new Old (nl (w @ hd ts0 @ interleave (take (d - 1) ws') (tl (take d ts0))))) s s'" by blast
  show ?thesis
  proof (intro exI [of _ s'] conjI)
    show "printDeletedWords e opt ch s = Some (Inr s')" using s'(1) n(1) by (simp add: printDeletedWords_def side_mode_def)
  qed (use s'(2-6) x(1) in \<open>simp_all add: files_at_def for_old_def for_new_def\<close>)
qed

lemma added_words:
  assumes sc: "\<not> UTF8Mode e" and np: "\<not> paraDelim opt"
    and x: "files_at s b0 ws0 ts0 n0 b1 ws1 ts1 (line1 ch)" "next_ws b1 ws1 w ws'"
    and n: "inserted ch = int d" "0 < d" "d \<le> length ts1" "d \<le> Suc (length ws')"
  shows "\<exists>s'. printAddedWords e opt ch s = Some (Inr s') \<and>
    files_at s' b0 ws0 ts0 n0 None (drop (d - 1) ws') (drop d ts1) (line1 ch + int d) \<and> lastWasDelete s' = lastWasDelete s \<and>
    shown opt (if printAdded opt then changed_text opt New w (take (d - 1) ws') (take d ts1) else [])
      0 (nl (w @ hd ts1 @ interleave (take (d - 1) ws') (tl (take d ts1)))) s s'"
proof -
  from x(1) have o: "file_at (get_file New s) b1 ws1 ts1" "lastPrinted (get_file New s) = line1 ch" by (simp_all add: files_at_def)
  from printWords_shown [OF sc np o(1) x(2) o(2) n(2-4), of "printAdded opt"] obtain s' where
    s': "printWords e opt (line1 ch) (int d) New (printAdded opt) (side_mode New) s = Some (Inr s')"
      "file_at (get_file New s') None (drop (d - 1) ws') (drop d ts1)" "lastPrinted (get_file New s') = line1 ch + int d"
      "\<And>g. g \<noteq> New \<Longrightarrow> get_file g s' = get_file g s" "lastWasDelete s' = lastWasDelete s"
      "shown opt (if printAdded opt then changed_text opt New w (take (d - 1) ws') (take d ts1) else [])
        (for_old New (nl (w @ hd ts1 @ interleave (take (d - 1) ws') (tl (take d ts1)))))
        (for_new New (nl (w @ hd ts1 @ interleave (take (d - 1) ws') (tl (take d ts1))))) s s'" by blast
  show ?thesis
  proof (intro exI [of _ s'] conjI)
    show "printAddedWords e opt ch s = Some (Inr s')" using s'(1) n(1) by (simp add: printAddedWords_def side_mode_def)
  qed (use s'(2-6) x(1) in \<open>simp_all add: files_at_def for_old_def for_new_def\<close>)
qed

section \<open>White space before a change\<close>

lemma loadNextWhitespace_shown:
  assumes sc: "\<not> UTF8Mode e" and "file_at (get_file f s) None (w # ws) ts"
  shows "\<exists>s'. loadNextWhitespace e f s = Some (Inr (10 \<in> set w, s')) \<and> file_at (get_file f s') (Some w) ws ts \<and>
    lastPrinted (get_file f s') = lastPrinted (get_file f s) \<and> (\<forall>g. g \<noteq> f \<longrightarrow> get_file g s' = get_file g s) \<and>
    lastWasDelete s' = lastWasDelete s \<and> shown opt [] 0 0 s s'"
proof -
  have "piece (iwhitespace (get_file f s)) True w (pieces ws)" using assms(2) by (simp add: file_at_def piece_def)
  from load_loop_piece [OF sc this, of False "vector_clear (iwhitespaceBuffer (get_file f s))" s opt] obtain strm b s1 where
    s1: "load_loop e False (iwhitespace (get_file f s)) (vector_clear (iwhitespaceBuffer (get_file f s))) s =
        Some (Inr (10 \<in> set w, strm, b, s1))"
      "past (iwhitespace (get_file f s)) strm True (pieces ws)" "vdata b = w" "effect opt [] 0 0 s s1"
    by (auto simp: vector_clear_def)
  let ?x' = "(get_file f s)\<lparr>iwhitespace := strm, iwhitespaceBuffer := b, whitespaceBufferUsed := True\<rparr>"
  have f1: "get_file g s1 = get_file g s" for g using effect_files(3) [OF s1(4)] .
  have "loadNextWhitespace e f s = Some (Inr (10 \<in> set w, set_file f ?x' s1))"
    using s1(1) f1 by (simp add: loadNextWhitespace_def)
  moreover have "file_at ?x' (Some w) ws ts" using assms(2) s1(2,3) by (simp add: file_at_def past_def)
  moreover have "shown opt [] 0 0 s (set_file f ?x' s1)"
    by (rule shown_set_file [OF effect_shown [OF s1(4)]]) (simp add: f1)
  ultimately show ?thesis using f1 s1(4) by (auto simp: effect_def)
qed

section \<open>A change\<close>

text \<open>The deleted and the added words after the white space \<open>w\<close>, and their newlines.\<close>

definition del_text :: "option_t \<Rightarrow> byte list \<Rightarrow> byte list list \<Rightarrow> byte list list \<Rightarrow> nat \<Rightarrow> byte list" where
  "del_text opt w ws ts d = (if printDeleted opt then changed_text opt Old w (take (d - 1) ws) (take d ts) else [])"

definition add_text :: "option_t \<Rightarrow> byte list \<Rightarrow> byte list list \<Rightarrow> byte list list \<Rightarrow> nat \<Rightarrow> byte list" where
  "add_text opt w ws ts k = (if printAdded opt then changed_text opt New w (take (k - 1) ws) (take k ts) else [])"

definition words_nl :: "byte list \<Rightarrow> byte list list \<Rightarrow> byte list list \<Rightarrow> nat \<Rightarrow> nat" where
  "words_nl w ws ts d = nl (w @ hd ts @ interleave (take (d - 1) ws) (tl (take d ts)))"

definition enough :: "nat \<Rightarrow> byte list list \<Rightarrow> byte list list \<Rightarrow> bool" where
  "enough d ws ts \<longleftrightarrow> 0 < d \<and> d \<le> length ts \<and> d \<le> Suc (length ws)"

lemma del_then_add:
  assumes sc: "\<not> UTF8Mode e" and np: "\<not> paraDelim opt"
    and x: "files_at s b0 ws0 ts0 (line0 ch) b1 ws1 ts1 (line1 ch)" "next_ws b0 ws0 x0 v0" "next_ws b1 ws1 x1 v1"
    and n: "deleted ch = int d" "inserted ch = int k" "enough d v0 ts0" "enough k v1 ts1"
  shows "\<exists>s'. bind_run (printDeletedWords e opt ch s) (printAddedWords e opt ch) = Some (Inr s') \<and>
    files_at s' None (drop (d - 1) v0) (drop d ts0) (line0 ch + int d) None (drop (k - 1) v1) (drop k ts1) (line1 ch + int k) \<and>
    lastWasDelete s' = lastWasDelete s \<and>
    shown opt (del_text opt x0 v0 ts0 d @ add_text opt x1 v1 ts1 k) (words_nl x0 v0 ts0 d) (words_nl x1 v1 ts1 k) s s'"
proof -
  from deleted_words [OF sc np x(1,2) n(1)] n(3) obtain s1 where
    s1: "printDeletedWords e opt ch s = Some (Inr s1)"
      "files_at s1 None (drop (d - 1) v0) (drop d ts0) (line0 ch + int d) b1 ws1 ts1 (line1 ch)" "lastWasDelete s1 = lastWasDelete s"
      "shown opt (del_text opt x0 v0 ts0 d) (words_nl x0 v0 ts0 d) 0 s s1"
    unfolding del_text_def words_nl_def enough_def by blast
  from added_words [OF sc np s1(2) x(3) n(2)] n(4) obtain s2 where
    s2: "printAddedWords e opt ch s1 = Some (Inr s2)"
      "files_at s2 None (drop (d - 1) v0) (drop d ts0) (line0 ch + int d) None (drop (k - 1) v1) (drop k ts1) (line1 ch + int k)"
      "lastWasDelete s2 = lastWasDelete s1" "shown opt (add_text opt x1 v1 ts1 k) 0 (words_nl x1 v1 ts1 k) s1 s2"
    unfolding add_text_def words_nl_def enough_def by blast
  show ?thesis using s1 s2 shown_trans [OF s1(4) s2(4)] by auto
qed

lemma add_then_del:
  assumes sc: "\<not> UTF8Mode e" and np: "\<not> paraDelim opt"
    and x: "files_at s b0 ws0 ts0 (line0 ch) b1 ws1 ts1 (line1 ch)" "next_ws b0 ws0 x0 v0" "next_ws b1 ws1 x1 v1"
    and n: "deleted ch = int d" "inserted ch = int k" "enough d v0 ts0" "enough k v1 ts1"
  shows "\<exists>s'. bind_run (printAddedWords e opt ch s) (printDeletedWords e opt ch) = Some (Inr s') \<and>
    files_at s' None (drop (d - 1) v0) (drop d ts0) (line0 ch + int d) None (drop (k - 1) v1) (drop k ts1) (line1 ch + int k) \<and>
    lastWasDelete s' = lastWasDelete s \<and>
    shown opt (add_text opt x1 v1 ts1 k @ del_text opt x0 v0 ts0 d) (words_nl x0 v0 ts0 d) (words_nl x1 v1 ts1 k) s s'"
proof -
  from added_words [OF sc np x(1,3) n(2)] n(4) obtain s1 where
    s1: "printAddedWords e opt ch s = Some (Inr s1)"
      "files_at s1 b0 ws0 ts0 (line0 ch) None (drop (k - 1) v1) (drop k ts1) (line1 ch + int k)" "lastWasDelete s1 = lastWasDelete s"
      "shown opt (add_text opt x1 v1 ts1 k) 0 (words_nl x1 v1 ts1 k) s s1"
    unfolding add_text_def words_nl_def enough_def by blast
  from deleted_words [OF sc np s1(2) x(2) n(1)] n(3) obtain s2 where
    s2: "printDeletedWords e opt ch s1 = Some (Inr s2)"
      "files_at s2 None (drop (d - 1) v0) (drop d ts0) (line0 ch + int d) None (drop (k - 1) v1) (drop k ts1) (line1 ch + int k)"
      "lastWasDelete s2 = lastWasDelete s1" "shown opt (del_text opt x0 v0 ts0 d) (words_nl x0 v0 ts0 d) 0 s1 s2"
    unfolding del_text_def words_nl_def enough_def by blast
  show ?thesis using s1 s2 shown_trans [OF s1(4) s2(4)] by auto
qed

text \<open>
  The text of a change. When there is a newline before the words of both files it is printed
  once, as common text; when there is one only before the deleted words, the added words come first.
\<close>

definition change_text :: "option_t \<Rightarrow> command \<Rightarrow> bool \<Rightarrow> byte list \<Rightarrow> byte list list \<Rightarrow> byte list list \<Rightarrow> nat \<Rightarrow>
    byte list \<Rightarrow> byte list list \<Rightarrow> byte list list \<Rightarrow> nat \<Rightarrow> byte list" where
  "change_text opt cmd wasDelete w0 ws0 ts0 d w1 ws1 ts1 k =
     (case cmd of
        C_ADD \<Rightarrow> add_text opt w1 ws1 ts1 k
      | C_DEL \<Rightarrow> del_text opt w0 ws0 ts0 d
      | C_CHANGE \<Rightarrow>
          if wdiffOutput opt \<or> 10 \<notin> set w0 then del_text opt w0 ws0 ts0 d @ add_text opt w1 ws1 ts1 k
          else if 10 \<in> set w1 then
            (if printCommon opt then (if wasDelete then w0 else w1) else []) @
            del_text opt [] ws0 ts0 d @ add_text opt [32] ws1 ts1 k
          else add_text opt w1 ws1 ts1 k @ del_text opt w0 ws0 ts0 d)"

definition print_change :: "env \<Rightarrow> option_t \<Rightarrow> command \<Rightarrow> change \<Rightarrow> 'a diffstate_scheme \<Rightarrow> 'a diffstate_scheme run" where
  "print_change e opt cmd ch s =
     bind_run (load_change_whitespace e opt cmd s) (\<lambda>(reverseDeleteAdd, s2).
       if reverseDeleteAdd then bind_run (printAddedWords e opt ch s2) (printDeletedWords e opt ch)
       else bind_run (if cmd \<noteq> C_ADD then printDeletedWords e opt ch s2 else Some (Inr s2)) (\<lambda>s'.
              if cmd \<noteq> C_DEL then printAddedWords e opt ch s' else Some (Inr s')))"

lemma bind_run_return [simp]: "bind_run m (\<lambda>s. Some (Inr s)) = m"
  by (cases m) (auto simp: bind_run_def split: sum.split)

lemma print_change_one:
  assumes sc: "\<not> UTF8Mode e" and np: "\<not> paraDelim opt"
    and x: "files_at s None (w0 # ws0) ts0 (line0 ch) None (w1 # ws1) ts1 (line1 ch)"
    and n: "deleted ch = int d" "inserted ch = int k"
  shows "enough d ws0 ts0 \<Longrightarrow> \<exists>s'. print_change e opt C_DEL ch s = Some (Inr s') \<and>
      files_at s' None (drop (d - 1) ws0) (drop d ts0) (line0 ch + int d) None (w1 # ws1) ts1 (line1 ch) \<and>
      lastWasDelete s' = lastWasDelete s \<and> shown opt (del_text opt w0 ws0 ts0 d) (words_nl w0 ws0 ts0 d) 0 s s'"
    and "enough k ws1 ts1 \<Longrightarrow> \<exists>s'. print_change e opt C_ADD ch s = Some (Inr s') \<and>
      files_at s' None (w0 # ws0) ts0 (line0 ch) None (drop (k - 1) ws1) (drop k ts1) (line1 ch + int k) \<and>
      lastWasDelete s' = lastWasDelete s \<and> shown opt (add_text opt w1 ws1 ts1 k) 0 (words_nl w1 ws1 ts1 k) s s'"
proof -
  assume "enough d ws0 ts0"
  with deleted_words [OF sc np x _ n(1), of w0 ws0] show "\<exists>s'. print_change e opt C_DEL ch s = Some (Inr s') \<and>
      files_at s' None (drop (d - 1) ws0) (drop d ts0) (line0 ch + int d) None (w1 # ws1) ts1 (line1 ch) \<and>
      lastWasDelete s' = lastWasDelete s \<and> shown opt (del_text opt w0 ws0 ts0 d) (words_nl w0 ws0 ts0 d) 0 s s'"
    unfolding enough_def del_text_def words_nl_def by (simp add: print_change_def load_change_whitespace_def next_ws_def)
next
  assume "enough k ws1 ts1"
  with added_words [OF sc np x _ n(2), of w1 ws1] show "\<exists>s'. print_change e opt C_ADD ch s = Some (Inr s') \<and>
      files_at s' None (w0 # ws0) ts0 (line0 ch) None (drop (k - 1) ws1) (drop k ts1) (line1 ch + int k) \<and>
      lastWasDelete s' = lastWasDelete s \<and> shown opt (add_text opt w1 ws1 ts1 k) 0 (words_nl w1 ws1 ts1 k) s s'"
    unfolding enough_def add_text_def words_nl_def by (simp add: print_change_def load_change_whitespace_def next_ws_def)
qed

lemma print_change_both:
  assumes sc: "\<not> UTF8Mode e" and np: "\<not> paraDelim opt"
    and x: "files_at s None (w0 # ws0) ts0 (line0 ch) None (w1 # ws1) ts1 (line1 ch)"
    and n: "deleted ch = int d" "inserted ch = int k" "enough d ws0 ts0" "enough k ws1 ts1"
    and clean: "esc w0 = w0" "esc w1 = w1"
  shows "\<exists>s'. print_change e opt C_CHANGE ch s = Some (Inr s') \<and>
      files_at s' None (drop (d - 1) ws0) (drop d ts0) (line0 ch + int d) None (drop (k - 1) ws1) (drop k ts1) (line1 ch + int k) \<and>
      lastWasDelete s' = lastWasDelete s \<and>
      shown opt (change_text opt C_CHANGE (lastWasDelete s) w0 ws0 ts0 d w1 ws1 ts1 k)
        (words_nl w0 ws0 ts0 d) (words_nl w1 ws1 ts1 k) s s'"
proof (cases "wdiffOutput opt")
  case True
  from del_then_add [OF sc np x _ _ n, of w0 w1] True show ?thesis
    by (simp add: print_change_def load_change_whitespace_def next_ws_def change_text_def)
next
  case wd: False
  have "file_at (get_file Old s) None (w0 # ws0) ts0" using x by (simp add: files_at_def)
  from loadNextWhitespace_shown [OF sc this, of opt] obtain s1 where
    s1: "loadNextWhitespace e Old s = Some (Inr (10 \<in> set w0, s1))" "file_at (get_file Old s1) (Some w0) ws0 ts0"
      "lastPrinted (get_file Old s1) = lastPrinted (get_file Old s)" "get_file New s1 = get_file New s"
      "lastWasDelete s1 = lastWasDelete s" "shown opt [] 0 0 s s1" by blast
  have x1: "files_at s1 (Some w0) ws0 ts0 (line0 ch) None (w1 # ws1) ts1 (line1 ch)"
    using s1(2-4) x by (simp add: files_at_def)
  show ?thesis
  proof (cases "10 \<in> set w0")
    case False
    from del_then_add [OF sc np x1 _ _ n, of w0 w1] obtain s' where
      s': "bind_run (printDeletedWords e opt ch s1) (printAddedWords e opt ch) = Some (Inr s')"
        "files_at s' None (drop (d - 1) ws0) (drop d ts0) (line0 ch + int d) None (drop (k - 1) ws1) (drop k ts1) (line1 ch + int k)"
        "lastWasDelete s' = lastWasDelete s1"
        "shown opt (del_text opt w0 ws0 ts0 d @ add_text opt w1 ws1 ts1 k) (words_nl w0 ws0 ts0 d) (words_nl w1 ws1 ts1 k) s1 s'"
      by (auto simp: next_ws_def)
    show ?thesis using s' s1(1,5) wd False shown_trans [OF s1(6) s'(4)]
      by (intro exI [of _ s'] conjI) (simp_all add: print_change_def load_change_whitespace_def change_text_def)
  next
    case nl0: True
    have "file_at (get_file New s1) None (w1 # ws1) ts1" using x1 by (simp add: files_at_def)
    from loadNextWhitespace_shown [OF sc this, of opt] obtain s2 where
      s2: "loadNextWhitespace e New s1 = Some (Inr (10 \<in> set w1, s2))" "file_at (get_file New s2) (Some w1) ws1 ts1"
        "lastPrinted (get_file New s2) = lastPrinted (get_file New s1)" "get_file Old s2 = get_file Old s1"
        "lastWasDelete s2 = lastWasDelete s1" "shown opt [] 0 0 s1 s2" by blast
    have x2: "files_at s2 (Some w0) ws0 ts0 (line0 ch) (Some w1) ws1 ts1 (line1 ch)"
      using s2(2-4) x1 by (simp add: files_at_def)
    show ?thesis
    proof (cases "10 \<in> set w1")
      case False
      from add_then_del [OF sc np x2 _ _ n, of w0 w1] obtain s' where
        s': "bind_run (printAddedWords e opt ch s2) (printDeletedWords e opt ch) = Some (Inr s')"
          "files_at s' None (drop (d - 1) ws0) (drop d ts0) (line0 ch + int d) None (drop (k - 1) ws1) (drop k ts1) (line1 ch + int k)"
          "lastWasDelete s' = lastWasDelete s2"
          "shown opt (add_text opt w1 ws1 ts1 k @ del_text opt w0 ws0 ts0 d) (words_nl w0 ws0 ts0 d) (words_nl w1 ws1 ts1 k) s2 s'"
        by (auto simp: next_ws_def)
      show ?thesis using s' s1(1,5) s2(1,5) wd nl0 False shown_trans [OF shown_trans [OF s1(6) s2(6)] s'(4)]
        by (intro exI [of _ s'] conjI) (simp_all add: print_change_def load_change_whitespace_def change_text_def)
    next
      case nl1: True
      from x2 have o2: "file_at (get_file Old s2) (Some w0) ws0 ts0" "file_at (get_file New s2) (Some w1) ws1 ts1"
        by (simp_all add: files_at_def)
      from handleSynchronized_files [OF sc o2(1) _ _ o2(2), of w0 ws0 w1 ws1 opt "\<not> lastWasDelete s2"] clean obtain s3 where
        s3: "handleSynchronizedNextWhitespace e opt (\<not> lastWasDelete s2) s2 = Some (Inr s3)"
          "file_at (get_file Old s3) (Some w0) ws0 ts0" "file_at (get_file New s3) (Some w1) ws1 ts1"
          "\<And>f. lastPrinted (get_file f s3) = lastPrinted (get_file f s2)" "lastWasDelete s3 = lastWasDelete s2"
          "shown opt (if printCommon opt then (if \<not> lastWasDelete s2 then w1 else w0) else []) (nl w0) (nl w1) s2 s3"
        by (auto simp: next_ws_def)
      define s4 where "s4 = s3\<lparr>
        newFile := (newFile s3)\<lparr>iwhitespaceBuffer := (iwhitespaceBuffer (newFile s3))\<lparr>vdata := [32]\<rparr>\<rparr>,
        oldFile := (oldFile s3)\<lparr>iwhitespaceBuffer := vector_clear (iwhitespaceBuffer (oldFile s3))\<rparr>\<rparr>"
      have x4: "files_at s4 (Some []) ws0 ts0 (line0 ch) (Some [32]) ws1 ts1 (line1 ch)"
        using s3(2,3) s3(4) [of Old] s3(4) [of New] x2
        by (simp add: files_at_def s4_def get_file_def file_at_def vector_clear_def)
      have s4: "shown opt (if printCommon opt then (if \<not> lastWasDelete s2 then w1 else w0) else []) (nl w0) (nl w1) s2 s4"
        "lastWasDelete s4 = lastWasDelete s"
        using s3(5,6) s2(5) s1(5) by (auto simp: s4_def shown_def get_file_def split: side.splits)
      from del_then_add [OF sc np x4 _ _ n, of "[]" "[32]"] obtain s' where
        s': "bind_run (printDeletedWords e opt ch s4) (printAddedWords e opt ch) = Some (Inr s')"
          "files_at s' None (drop (d - 1) ws0) (drop d ts0) (line0 ch + int d) None (drop (k - 1) ws1) (drop k ts1) (line1 ch + int k)"
          "lastWasDelete s' = lastWasDelete s4"
          "shown opt (del_text opt [] ws0 ts0 d @ add_text opt [32] ws1 ts1 k) (words_nl [] ws0 ts0 d) (words_nl [32] ws1 ts1 k) s4 s'"
        by (auto simp: next_ws_def)
      have "print_change e opt C_CHANGE ch s = Some (Inr s')"
        using s1(1) s2(1) s3(1) s'(1) wd nl0 nl1 by (simp add: print_change_def load_change_whitespace_def s4_def)
      moreover have "shown opt (change_text opt C_CHANGE (lastWasDelete s) w0 ws0 ts0 d w1 ws1 ts1 k)
          (words_nl w0 ws0 ts0 d) (words_nl w1 ws1 ts1 k) s s'"
        by (rule shown_cong [OF shown_trans [OF shown_trans [OF shown_trans [OF s1(6) s2(6)] s4(1)] s'(4)]])
          (use wd nl0 nl1 s1(5) s2(5) in \<open>simp_all add: change_text_def words_nl_def\<close>)
      ultimately show ?thesis using s'(2,3) s4(2) by auto
    qed
  qed
qed

section \<open>The text around a change\<close>

definition old_count :: "command \<Rightarrow> change \<Rightarrow> nat" where
  "old_count cmd ch = (if cmd = C_ADD then 0 else nat (deleted ch))"

definition new_count :: "command \<Rightarrow> change \<Rightarrow> nat" where
  "new_count cmd ch = (if cmd = C_DEL then 0 else nat (inserted ch))"

text \<open>A change that can be printed: it has words, and the files hold them.\<close>

definition printable :: "command \<Rightarrow> change \<Rightarrow> byte list list \<Rightarrow> byte list list \<Rightarrow> byte list list \<Rightarrow> byte list list \<Rightarrow> bool" where
  "printable cmd ch ws0 ts0 ws1 ts1 \<longleftrightarrow>
     0 \<le> deleted ch \<and> 0 \<le> inserted ch \<and> (cmd \<noteq> C_ADD \<longrightarrow> 0 < deleted ch) \<and> (cmd \<noteq> C_DEL \<longrightarrow> 0 < inserted ch) \<and>
     old_count cmd ch \<le> length ts0 \<and> new_count cmd ch \<le> length ts1 \<and>
     length ts0 < length ws0 \<and> length ts1 < length ws1 \<and> (\<forall>w \<in> set ws0 \<union> set ws1. esc w = w)"

lemma words_nl_take: "enough d ws ts \<Longrightarrow> words_nl w ws ts d = nl (interleave (take d (w # ws)) (take d ts))"
  by (cases ts; cases d) (simp_all add: words_nl_def enough_def)

lemma print_change_shown:
  assumes sc: "\<not> UTF8Mode e" and np: "\<not> paraDelim opt"
    and x: "files_at s None ws0 ts0 (line0 ch) None ws1 ts1 (line1 ch)" and p: "printable cmd ch ws0 ts0 ws1 ts1"
    and d: "d = old_count cmd ch" and k: "k = new_count cmd ch"
  shows "\<exists>s'. print_change e opt cmd ch s = Some (Inr s') \<and>
    files_at s' None (drop d ws0) (drop d ts0) (line0 ch + int d) None (drop k ws1) (drop k ts1) (line1 ch + int k) \<and>
    lastWasDelete s' = lastWasDelete s \<and>
    shown opt (change_text opt cmd (lastWasDelete s) (hd ws0) (tl ws0) ts0 d (hd ws1) (tl ws1) ts1 k)
      (nl (interleave (take d ws0) (take d ts0))) (nl (interleave (take k ws1) (take k ts1))) s s'"
proof -
  from p obtain w0 v0 w1 v1 where l: "ws0 = w0 # v0" "ws1 = w1 # v1" "esc w0 = w0" "esc w1 = w1"
    unfolding printable_def by (cases ws0; cases ws1) auto
  note x' = x [unfolded l]
  have ed: "deleted ch = int d" "enough d v0 ts0" if "cmd \<noteq> C_ADD"
    using p that l by (auto simp: printable_def enough_def d old_count_def)
  have ek: "inserted ch = int k" "enough k v1 ts1" if "cmd \<noteq> C_DEL"
    using p that l by (auto simp: printable_def enough_def k new_count_def)
  have dr: "drop (d - 1) v0 = drop d ws0" if "cmd \<noteq> C_ADD" using ed(2) [OF that] l by (cases d) (auto simp: enough_def)
  have kr: "drop (k - 1) v1 = drop k ws1" if "cmd \<noteq> C_DEL" using ek(2) [OF that] l by (cases k) (auto simp: enough_def)
  have nn: "deleted ch = int (nat (deleted ch))" "inserted ch = int (nat (inserted ch))" using p by (auto simp: printable_def)
  show ?thesis
  proof (cases cmd)
    case C_ADD
    then have d0: "d = 0" by (simp add: d old_count_def)
    from print_change_one(2) [OF sc np x' nn(1) ek] C_ADD kr d0 l ek(2) show ?thesis
      by (simp add: words_nl_take change_text_def)
  next
    case C_DEL
    then have k0: "k = 0" by (simp add: k new_count_def)
    from print_change_one(1) [OF sc np x' ed(1) nn(2) ed(2)] C_DEL dr k0 l ed(2) show ?thesis
      by (simp add: words_nl_take change_text_def)
  next
    case C_CHANGE
    from print_change_both [OF sc np x' ed(1) ek(1) ed(2) ek(2) l(3,4)] C_CHANGE dr kr l ed(2) ek(2) show ?thesis
      by (simp add: words_nl_take)
  qed
qed

text \<open>The common words before the change, the change and the marker line.\<close>

definition emit_text :: "option_t \<Rightarrow> command \<Rightarrow> bool \<Rightarrow> nat \<Rightarrow> nat \<Rightarrow> nat \<Rightarrow> byte list list \<Rightarrow> byte list list \<Rightarrow>
    byte list list \<Rightarrow> byte list list \<Rightarrow> byte list" where
  "emit_text opt cmd wasDelete c d k ws0 ts0 ws1 ts1 =
     (if printCommon opt then interleave (take c (common_ws wasDelete ws0 ws1)) (take c ts1) else []) @
     change_text opt cmd (wasDelete \<and> c = 0) (ws0 ! c) (drop (Suc c) ws0) (drop c ts0) d (ws1 ! c) (drop (Suc c) ws1) (drop c ts1) k @
     (if needMarkers opt then 10 # marker_line else [])"

definition delete_flag :: "option_t \<Rightarrow> command \<Rightarrow> bool \<Rightarrow> nat \<Rightarrow> bool" where
  "delete_flag opt cmd wasDelete c \<longleftrightarrow> cmd = C_DEL \<and> printDeleted opt \<and> \<not> wdiffOutput opt \<or> wasDelete \<and> c = 0"

definition finish_change :: "option_t \<Rightarrow> command \<Rightarrow> change \<Rightarrow> 'a diffstate_scheme \<Rightarrow> 'a diffstate_scheme" where
  "finish_change opt cmd ch s3 =
     (let s4 = (if needMarkers opt then (write_stdout (10 # marker_line) s3)\<lparr>lastWasLinefeed := True\<rparr> else s3);
          s5 = (if cmd = C_DEL \<and> printDeleted opt \<and> \<not> wdiffOutput opt then s4\<lparr>lastWasDelete := True\<rparr> else s4)
      in s5\<lparr>statistics := update_statistics cmd ch (statistics s5)\<rparr>)"

lemma bind_run_assoc: "bind_run (bind_run m f) g = bind_run m (\<lambda>x. bind_run (f x) g)"
  by (cases m) (auto simp: bind_run_def split: sum.split)

lemma emit_change_alt:
  "emit_change e opt cmd ch s =
     bind_run (printToCommonWord e opt (line1 ch) s) (\<lambda>s1.
       bind_run (print_change e opt cmd ch s1) (\<lambda>s3. Some (Inr (finish_change opt cmd ch s3))))"
  by (simp only: emit_change_def print_change_def finish_change_def Let_def bind_run_assoc case_prod_unfold)

lemma finish_change_shown:
  "shown opt (if needMarkers opt then 10 # marker_line else []) 0 0
     (s\<lparr>statistics := update_statistics cmd ch (statistics s)\<rparr>) (finish_change opt cmd ch s)"
  "get_file f (finish_change opt cmd ch s) = get_file f s"
  "lastWasDelete (finish_change opt cmd ch s) = delete_flag opt cmd (lastWasDelete s) 0"
  by (auto simp: finish_change_def shown_def write_stdout_def get_file_def delete_flag_def Let_def split: side.split)

lemma shown_stat: "shown opt t i j s s' \<Longrightarrow> shown opt t i j (s\<lparr>statistics := x\<rparr>) (s'\<lparr>statistics := x\<rparr>)"
  by (simp add: shown_def get_file_def split: side.splits)

lemma emit_change_shown:
  assumes sc: "\<not> UTF8Mode e" and np: "\<not> paraDelim opt"
    and x: "files_at s None ws0 ts0 n0 None ws1 ts1 n1" and l: "line0 ch = n0 + int c" "line1 ch = n1 + int c"
    and c: "c \<le> length ts0" "c \<le> length ts1" "length ts0 < length ws0" "length ts1 < length ws1"
    and p: "printable cmd ch (drop c ws0) (drop c ts0) (drop c ws1) (drop c ts1)"
    and d: "d = old_count cmd ch" and k: "k = new_count cmd ch"
  shows "\<exists>s'. emit_change e opt cmd ch s = Some (Inr s') \<and>
    files_at s' None (drop (c + d) ws0) (drop (c + d) ts0) (line0 ch + int d)
      None (drop (c + k) ws1) (drop (c + k) ts1) (line1 ch + int k) \<and>
    lastWasDelete s' = delete_flag opt cmd (lastWasDelete s) c \<and>
    shown opt (emit_text opt cmd (lastWasDelete s) c d k ws0 ts0 ws1 ts1)
      (nl (interleave (take c ws0) (take c ts1)) + nl (interleave (take d (drop c ws0)) (take d (drop c ts0))))
      (nl (interleave (take c ws1) (take c ts1)) + nl (interleave (take k (drop c ws1)) (take k (drop c ts1))))
      (s\<lparr>statistics := update_statistics cmd ch (statistics s)\<rparr>) s'"
proof -
  from x have o: "file_at (get_file Old s) None ws0 ts0" "file_at (get_file New s) None ws1 ts1" by (simp_all add: files_at_def)
  have "c \<le> length ws0" "c \<le> length ws1" using c by simp_all
  from common_loop_shown [OF sc np o this(1) c(1) this(2) c(2)] obtain s1 where
    s1: "common_loop e opt c s = Some (Inr s1)"
      "file_at (get_file Old s1) None (drop c ws0) (drop c ts0)" "file_at (get_file New s1) None (drop c ws1) (drop c ts1)"
      "\<And>f. lastPrinted (get_file f s1) = lastPrinted (get_file f s) + int c"
      "lastWasDelete s1 = (lastWasDelete s \<and> c = 0)"
      "shown opt (if printCommon opt then interleave (take c (common_ws (lastWasDelete s) ws0 ws1)) (take c ts1) else [])
        (nl (interleave (take c ws0) (take c ts1))) (nl (interleave (take c ws1) (take c ts1))) s s1" by blast
  have x1: "files_at s1 None (drop c ws0) (drop c ts0) (line0 ch) None (drop c ws1) (drop c ts1) (line1 ch)"
    using s1(2-4) x l by (simp add: files_at_def)
  have h: "hd (drop c ws0) = ws0 ! c" "hd (drop c ws1) = ws1 ! c" "tl (drop c ws0) = drop (Suc c) ws0"
    "tl (drop c ws1) = drop (Suc c) ws1" using c by (simp_all add: hd_drop_conv_nth drop_Suc tl_drop)
  from print_change_shown [OF sc np x1 p d k, unfolded h] obtain s2 where
    s2: "print_change e opt cmd ch s1 = Some (Inr s2)"
      "files_at s2 None (drop d (drop c ws0)) (drop d (drop c ts0)) (line0 ch + int d)
        None (drop k (drop c ws1)) (drop k (drop c ts1)) (line1 ch + int k)" "lastWasDelete s2 = lastWasDelete s1"
      "shown opt (change_text opt cmd (lastWasDelete s1) (ws0 ! c) (drop (Suc c) ws0) (drop c ts0) d (ws1 ! c) (drop (Suc c) ws1) (drop c ts1) k)
        (nl (interleave (take d (drop c ws0)) (take d (drop c ts0)))) (nl (interleave (take k (drop c ws1)) (take k (drop c ts1)))) s1 s2"
    by blast
  have st: "statistics s2 = statistics s" using s1(6) s2(4) by (simp add: shown_def)
  let ?s3 = "finish_change opt cmd ch s2"
  have "nat (line1 ch - lastPrinted (newFile s)) = c" using x l by (simp add: files_at_def get_file_def)
  then have "emit_change e opt cmd ch s = Some (Inr ?s3)"
    using s1(1) s2(1) by (simp add: emit_change_alt printToCommonWord_def)
  moreover have "files_at ?s3 None (drop (c + d) ws0) (drop (c + d) ts0) (line0 ch + int d)
      None (drop (c + k) ws1) (drop (c + k) ts1) (line1 ch + int k)"
    using s2(2) by (simp add: files_at_def finish_change_shown(2) add.commute)
  moreover have "lastWasDelete ?s3 = delete_flag opt cmd (lastWasDelete s) c"
    using s2(3) s1(5) by (simp add: finish_change_shown(3)) (simp add: delete_flag_def)
  moreover have "shown opt (emit_text opt cmd (lastWasDelete s) c d k ws0 ts0 ws1 ts1)
      (nl (interleave (take c ws0) (take c ts1)) + nl (interleave (take d (drop c ws0)) (take d (drop c ts0))))
      (nl (interleave (take c ws1) (take c ts1)) + nl (interleave (take k (drop c ws1)) (take k (drop c ts1))))
      (s\<lparr>statistics := update_statistics cmd ch (statistics s)\<rparr>) ?s3"
    by (rule shown_cong [OF shown_trans [OF shown_stat [OF shown_trans [OF s1(6) s2(4)], of "update_statistics cmd ch (statistics s)"]
          finish_change_shown(1) [of opt cmd ch s2, unfolded st]]])
      (simp_all add: emit_text_def s1(5))
  ultimately show ?thesis by blast
qed

section \<open>The script\<close>

text \<open>
  The rendering of a script: \<open>n0\<close> and \<open>n1\<close> words are behind, the lists hold what is ahead.
  At the end the rest of the words is common.
\<close>

fun render :: "option_t \<Rightarrow> bool \<Rightarrow> lin \<Rightarrow> lin \<Rightarrow> change list \<Rightarrow> byte list list \<Rightarrow> byte list list \<Rightarrow>
    byte list list \<Rightarrow> byte list list \<Rightarrow> byte list" where
  "render opt wasDelete n0 n1 [] ws0 ts0 ws1 ts1 =
     (if printCommon opt then interleave (common_ws wasDelete ws0 ws1) ts1 @ last (common_ws wasDelete ws0 ws1) else [])"
| "render opt wasDelete n0 n1 (ch # chs) ws0 ts0 ws1 ts1 =
     (let cmd = change_command ch; c = nat (line1 ch - n1); d = nat (deleted ch); k = nat (inserted ch)
      in emit_text opt cmd wasDelete c d k ws0 ts0 ws1 ts1 @
         render opt (delete_flag opt cmd wasDelete c) (line0 ch + deleted ch) (line1 ch + inserted ch) chs
           (drop (c + d) ws0) (drop (c + d) ts0) (drop (c + k) ws1) (drop (c + k) ts1))"

text \<open>A script that fits what is ahead.\<close>

fun fits :: "lin \<Rightarrow> lin \<Rightarrow> change list \<Rightarrow> nat \<Rightarrow> nat \<Rightarrow> bool" where
  "fits n0 n1 [] m0 m1 \<longleftrightarrow> m0 = m1"
| "fits n0 n1 (ch # chs) m0 m1 \<longleftrightarrow>
     (let c = nat (line1 ch - n1); d = nat (deleted ch); k = nat (inserted ch)
      in n0 \<le> line0 ch \<and> line0 ch - n0 = line1 ch - n1 \<and> 0 \<le> deleted ch \<and> 0 \<le> inserted ch \<and> 0 < deleted ch + inserted ch \<and>
         c + d \<le> m0 \<and> c + k \<le> m1 \<and> fits (line0 ch + deleted ch) (line1 ch + inserted ch) chs (m0 - (c + d)) (m1 - (c + k)))"

lemma end_loop_shown:
  assumes sc: "\<not> UTF8Mode e" and np: "\<not> paraDelim opt" and pc: "printCommon opt"
  shows "files_at s None ws0 ts0 n0 None ws1 ts1 n1 \<Longrightarrow> length ts0 = length ts1 \<Longrightarrow> length ws0 = Suc (length ts1) \<Longrightarrow>
    length ws1 = Suc (length ts1) \<Longrightarrow>
    \<exists>s'. end_loop e opt s = Some (Inr s') \<and>
      shown opt (render opt (lastWasDelete s) n0 n1 [] ws0 ts0 ws1 ts1)
        (nl (interleave ws0 ts1 @ last ws0)) (nl (interleave ws1 ts1 @ last ws1)) s s'"
proof (induction ts1 arbitrary: s ws0 ts0 ws1 n0 n1)
  case Nil
  then obtain w0 w1 where l: "ws0 = [w0]" "ws1 = [w1]" "ts0 = []" by (cases ws0; cases ws1) auto
  from Nil have o: "file_at (get_file Old s) None [w0] []" "file_at (get_file New s) None [w1] []" by (simp_all add: files_at_def l)
  from handleSynchronized_files [OF sc o(1) _ _ o(2), of w0 "[]" w1 "[]" opt "\<not> lastWasDelete s"] obtain s1 where
    s1: "handleSynchronizedNextWhitespace e opt (\<not> lastWasDelete s) s = Some (Inr s1)"
      "file_at (get_file Old s1) None [] []" "file_at (get_file New s1) None [] []"
      "shown opt (if \<not> lastWasDelete s then w1 else w0) (nl w0) (nl w1) s s1"
    using pc by (auto simp: next_ws_def)
  define s2 where "s2 = s1\<lparr>lastWasDelete := False\<rparr>"
  have s2: "file_at (get_file New s2) None [] []" "get_file Old s2 = get_file Old s1"
    "shown opt (if \<not> lastWasDelete s then w1 else w0) (nl w0) (nl w1) s s2" using s1(3,4) by (simp_all add: s2_def flag_upd)
  from handleNextToken_end [OF sc s2(1), of opt True COMMON] obtain s3 where
    s3: "handleNextToken e opt New True COMMON s2 = Some (Inr s3)" "at_eof (itokens (get_file New s3))"
      "get_file Old s3 = get_file Old s2" "shown opt [] 0 0 s2 s3" by blast
  have "file_at (get_file Old s3) None [] []" using s1(2) s2(2) s3(3) by simp
  from handleNextToken_end [OF sc this, of opt False OLD_COMMON] obtain s4 where
    s4: "handleNextToken e opt Old False OLD_COMMON s3 = Some (Inr s4)" "get_file New s4 = get_file New s3" "shown opt [] 0 0 s3 s4"
    by blast
  have "\<not> at_eof (itokens (newFile s))" using o(2) by (simp add: file_at_def open_stream_def get_file_def)
  moreover have "at_eof (itokens (newFile s4))" using s3(2) s4(2) by (simp add: get_file_def)
  then have "end_loop e opt s4 = Some (Inr s4)" by (subst end_loop.simps) simp
  ultimately have "end_loop e opt s = Some (Inr s4)"
    using s1(1) s3(1) s4(1) by (subst end_loop.simps) (simp add: s2_def)
  moreover have "shown opt (render opt (lastWasDelete s) n0 n1 [] ws0 ts0 ws1 [])
        (nl (interleave ws0 [] @ last ws0)) (nl (interleave ws1 [] @ last ws1)) s s4"
    by (rule shown_cong [OF shown_trans [OF shown_trans [OF s2(3) s3(4)] s4(3)]]) (simp_all add: l pc common_ws_def)
  ultimately show ?case by blast
next
  case (Cons t1 u1)
  from Cons.prems obtain w0 v0 t0 u0 w1 v1 where l: "ws0 = w0 # v0" "ts0 = t0 # u0" "ws1 = w1 # v1"
    by (cases ws0; cases ts0; cases ws1) auto
  from Cons.prems(1) have o: "file_at (get_file Old s) None (w0 # v0) (t0 # u0)" "file_at (get_file New s) None (w1 # v1) (t1 # u1)"
    by (simp_all add: files_at_def l)
  from common_word_shown [OF sc np o] obtain s1 where
    s1: "common_word e opt s = Some (Inr s1)" "file_at (get_file Old s1) None v0 u0" "file_at (get_file New s1) None v1 u1"
      "\<And>f. lastPrinted (get_file f s1) = lastPrinted (get_file f s)" "\<not> lastWasDelete s1"
      "shown opt ((if lastWasDelete s then w0 else w1) @ t1) (nl w0 + nl t1) (nl w1 + nl t1) s s1"
    using pc by auto
  have "files_at s1 None v0 u0 n0 None v1 u1 n1" using s1(2-4) Cons.prems(1) by (simp add: files_at_def)
  from Cons.IH [OF this] Cons.prems l obtain s' where
    s': "end_loop e opt s1 = Some (Inr s')"
      "shown opt (render opt (lastWasDelete s1) n0 n1 [] v0 u0 v1 u1)
        (nl (interleave v0 u1 @ last v0)) (nl (interleave v1 u1 @ last v1)) s1 s'"
    by auto
  have "\<not> at_eof (itokens (newFile s))" using o(2) by (simp add: file_at_def open_stream_def get_file_def)
  then have "end_loop e opt s = bind_run (common_word e opt s) (end_loop e opt)"
    using pc by (subst end_loop.simps) (simp add: common_word_def bind_run_assoc)
  then have "end_loop e opt s = Some (Inr s')" using s1(1) s'(1) by simp
  moreover have "v0 \<noteq> []" "v1 \<noteq> []" using Cons.prems l by auto
  then have "shown opt (render opt (lastWasDelete s) n0 n1 [] ws0 ts0 ws1 (t1 # u1))
        (nl (interleave ws0 (t1 # u1) @ last ws0)) (nl (interleave ws1 (t1 # u1) @ last ws1)) s s'"
    by (intro shown_cong [OF shown_trans [OF s1(6) s'(2)]]) (use s1(5) in \<open>simp_all add: l pc common_ws_def\<close>)
  ultimately show ?case by blast
qed

definition ready :: "'a diffstate_scheme \<Rightarrow> int \<Rightarrow> byte list list \<Rightarrow> byte list list \<Rightarrow> int \<Rightarrow> byte list list \<Rightarrow> byte list list \<Rightarrow> bool" where
  "ready s n0 ws0 ts0 n1 ws1 ts1 \<longleftrightarrow> files_at s None ws0 ts0 n0 None ws1 ts1 n1 \<and>
     length ws0 = Suc (length ts0) \<and> length ws1 = Suc (length ts1) \<and> (\<forall>w \<in> set ws0 \<union> set ws1. esc w = w)"

definition script_statistics :: "change list \<Rightarrow> Statistics \<Rightarrow> Statistics" where
  "script_statistics chs st = foldl (\<lambda>st ch. update_statistics (change_command ch) ch st) st chs"

definition script_differences :: "change list \<Rightarrow> int \<Rightarrow> int" where
  "script_differences chs d = (if chs = [] then d else 1)"

text \<open>The state with the statistics and the exit code of a script.\<close>

definition recorded :: "change list \<Rightarrow> 'a diffstate_scheme \<Rightarrow> 'a diffstate_scheme" where
  "recorded chs s = s\<lparr>statistics := script_statistics chs (statistics s), differences := script_differences chs (differences s)\<rparr>"

lemma change_counts:
  assumes "0 \<le> deleted ch" "0 \<le> inserted ch" "0 < deleted ch + inserted ch"
  shows "old_count (change_command ch) ch = nat (deleted ch)" "new_count (change_command ch) ch = nat (inserted ch)"
    "change_command ch \<noteq> C_ADD \<longrightarrow> 0 < deleted ch" "change_command ch \<noteq> C_DEL \<longrightarrow> 0 < inserted ch"
  using assms by (auto simp: change_command_def old_count_def new_count_def)

lemma one_line_interleave:
  "\<forall>t \<in> set ts. 10 \<notin> set t \<Longrightarrow> length ws \<le> length ts \<Longrightarrow> nl (interleave ws ts) = nl (concat ws)"
proof (induction ws arbitrary: ts)
  case (Cons w ws)
  then show ?case by (cases ts) (auto simp: count_list_0_iff)
qed simp

lemma shown_recorded:
  "shown opt t i j (s\<lparr>differences := 1\<rparr>\<lparr>statistics := update_statistics (change_command ch) ch (statistics (s\<lparr>differences := 1\<rparr>))\<rparr>) s1 \<Longrightarrow>
   shown opt t' i' j' (recorded chs s1) s' \<Longrightarrow> shown opt (t @ t') (i + i') (j + j') (recorded (ch # chs) s) s'"
  by (auto simp: shown_def recorded_def script_statistics_def script_differences_def get_file_def add.assoc split: side.splits)

lemma nl_split: "nl (concat (take n ws)) + nl (concat (drop n ws)) = nl (concat ws)"
  by (metis append_take_drop_id concat_append count_list_append)

lemma script_loop_shown:
  assumes sc: "\<not> UTF8Mode e" and np: "\<not> paraDelim opt"
  shows "ready s n0 ws0 ts0 n1 ws1 ts1 \<Longrightarrow> fits n0 n1 chs (length ts0) (length ts1) \<Longrightarrow>
    \<exists>s' n0' ws0' ts0' n1' ws1' ts1' t i j. script_loop again e opt None 0 chs s = Some (Inr s') \<and>
      ready s' n0' ws0' ts0' n1' ws1' ts1' \<and> length ts0' = length ts1' \<and> set ts1' \<subseteq> set ts1 \<and>
      render opt (lastWasDelete s) n0 n1 chs ws0 ts0 ws1 ts1 = t @ render opt (lastWasDelete s') n0' n1' [] ws0' ts0' ws1' ts1' \<and>
      shown opt t i j (recorded chs s) s' \<and>
      ((\<forall>w \<in> set ts0 \<union> set ts1. 10 \<notin> set w) \<longrightarrow> i + nl (concat ws0') = nl (concat ws0) \<and> j + nl (concat ws1') = nl (concat ws1))"
proof (induction chs arbitrary: s n0 ws0 ts0 n1 ws1 ts1)
  case Nil
  then show ?case
    by (intro exI [of _ s] exI [of _ n0] exI [of _ ws0] exI [of _ ts0] exI [of _ n1] exI [of _ ws1] exI [of _ ts1]
        exI [of _ "[]"] exI [of _ 0] conjI)
      (simp_all add: recorded_def script_statistics_def script_differences_def shown_def get_file_def split: side.split)
next
  case (Cons ch chs)
  define c d k where "c = nat (line1 ch - n1)" and "d = nat (deleted ch)" and "k = nat (inserted ch)"
  let ?cmd = "change_command ch" and ?s = "s\<lparr>differences := 1\<rparr>"
  from Cons.prems(2) have f: "n0 \<le> line0 ch" "line0 ch - n0 = line1 ch - n1" "0 \<le> deleted ch" "0 \<le> inserted ch"
    "0 < deleted ch + inserted ch" "c + d \<le> length ts0" "c + k \<le> length ts1"
    "fits (line0 ch + deleted ch) (line1 ch + inserted ch) chs (length ts0 - (c + d)) (length ts1 - (c + k))"
    by (simp_all add: Let_def c_def d_def k_def)
  from Cons.prems(1) have r: "files_at s None ws0 ts0 n0 None ws1 ts1 n1" "length ws0 = Suc (length ts0)"
    "length ws1 = Suc (length ts1)" "\<forall>w \<in> set ws0 \<union> set ws1. esc w = w" by (simp_all add: ready_def)
  note cc = change_counts [OF f(3-5)]
  have x: "files_at ?s None ws0 ts0 n0 None ws1 ts1 n1" using r(1) by (simp add: files_at_def get_file_def)
  have l: "line0 ch = n0 + int c" "line1 ch = n1 + int c" using f(1,2) by (simp_all add: c_def)
  have b: "c \<le> length ts0" "c \<le> length ts1" "length ts0 < length ws0" "length ts1 < length ws1" using f(6,7) r(2,3) by simp_all
  have "printable ?cmd ch (drop c ws0) (drop c ts0) (drop c ws1) (drop c ts1)"
    using f b r(4) cc by (auto simp: printable_def d_def k_def dest: in_set_dropD)
  from emit_change_shown [OF sc np x l b this, of d k] cc obtain s1 where
    s1: "emit_change e opt ?cmd ch ?s = Some (Inr s1)"
      "files_at s1 None (drop (c + d) ws0) (drop (c + d) ts0) (line0 ch + int d)
        None (drop (c + k) ws1) (drop (c + k) ts1) (line1 ch + int k)"
      "lastWasDelete s1 = delete_flag opt ?cmd (lastWasDelete s) c"
      "shown opt (emit_text opt ?cmd (lastWasDelete s) c d k ws0 ts0 ws1 ts1)
        (nl (interleave (take c ws0) (take c ts1)) + nl (interleave (take d (drop c ws0)) (take d (drop c ts0))))
        (nl (interleave (take c ws1) (take c ts1)) + nl (interleave (take k (drop c ws1)) (take k (drop c ts1))))
        (?s\<lparr>statistics := update_statistics ?cmd ch (statistics ?s)\<rparr>) s1" by (auto simp: d_def k_def)
  have "ready s1 (line0 ch + deleted ch) (drop (c + d) ws0) (drop (c + d) ts0) (line1 ch + inserted ch) (drop (c + k) ws1) (drop (c + k) ts1)"
    using s1(2) r(2-4) f(3,4,6,7) by (auto simp: ready_def d_def k_def dest: in_set_dropD)
  from Cons.IH [OF this] f(8) obtain s' n0' ws0' ts0' n1' ws1' ts1' t i j where
    s': "script_loop again e opt None 0 chs s1 = Some (Inr s')"
      "ready s' n0' ws0' ts0' n1' ws1' ts1'" "length ts0' = length ts1'" "set ts1' \<subseteq> set (drop (c + k) ts1)"
      "render opt (lastWasDelete s1) (line0 ch + deleted ch) (line1 ch + inserted ch) chs (drop (c + d) ws0) (drop (c + d) ts0)
        (drop (c + k) ws1) (drop (c + k) ts1) = t @ render opt (lastWasDelete s') n0' n1' [] ws0' ts0' ws1' ts1'"
      "shown opt t i j (recorded chs s1) s'"
      "(\<forall>w \<in> set (drop (c + d) ts0) \<union> set (drop (c + k) ts1). 10 \<notin> set w) \<longrightarrow>
        i + nl (concat ws0') = nl (concat (drop (c + d) ws0)) \<and> j + nl (concat ws1') = nl (concat (drop (c + k) ws1))"
    by (simp only: length_drop) blast
  let ?t = "emit_text opt ?cmd (lastWasDelete s) c d k ws0 ts0 ws1 ts1 @ t"
  let ?i = "nl (interleave (take c ws0) (take c ts1)) + nl (interleave (take d (drop c ws0)) (take d (drop c ts0))) + i"
  let ?j = "nl (interleave (take c ws1) (take c ts1)) + nl (interleave (take k (drop c ws1)) (take k (drop c ts1))) + j"
  have "script_loop again e opt None 0 (ch # chs) s = Some (Inr s')"
    using s1(1) s'(1) by (simp add: refine_change_def shift_change_def)
  moreover have "set ts1' \<subseteq> set ts1" using s'(4) set_drop_subset by fast
  moreover have "render opt (lastWasDelete s) n0 n1 (ch # chs) ws0 ts0 ws1 ts1 = ?t @ render opt (lastWasDelete s') n0' n1' [] ws0' ts0' ws1' ts1'"
    using s'(5) s1(3) by (simp add: Let_def c_def d_def k_def del: render.simps(1))
  moreover have "shown opt ?t ?i ?j (recorded (ch # chs) s) s'" by (rule shown_recorded [OF s1(4) s'(6)])
  moreover have "?i + nl (concat ws0') = nl (concat ws0) \<and> ?j + nl (concat ws1') = nl (concat ws1)"
    if one: "\<forall>w \<in> set ts0 \<union> set ts1. 10 \<notin> set w"
  proof -
    have "nl (interleave (take c ws0) (take c ts1)) = nl (concat (take c ws0))"
      "nl (interleave (take d (drop c ws0)) (take d (drop c ts0))) = nl (concat (take d (drop c ws0)))"
      "nl (interleave (take c ws1) (take c ts1)) = nl (concat (take c ws1))"
      "nl (interleave (take k (drop c ws1)) (take k (drop c ts1))) = nl (concat (take k (drop c ws1)))"
      using one f(6,7) r(2,3) by (auto intro!: one_line_interleave dest: in_set_takeD in_set_dropD)
    moreover have "i + nl (concat ws0') = nl (concat (drop (c + d) ws0)) \<and> j + nl (concat ws1') = nl (concat (drop (c + k) ws1))"
      using s'(7) one by (auto dest: in_set_dropD)
    moreover have "drop d (drop c ws0) = drop (c + d) ws0" "drop k (drop c ws1) = drop (c + k) ws1" by (simp_all add: add.commute)
    ultimately show ?thesis
      using nl_split [of c ws0] nl_split [of d "drop c ws0"] nl_split [of c ws1] nl_split [of k "drop c ws1"] by simp
  qed
  ultimately show ?case using s'(2,3) by blast
qed

section \<open>The whole output\<close>

lemma script_fits:
  "script_ok n0 n1 chs xs ys \<Longrightarrow> 0 \<le> n0 \<Longrightarrow> 0 \<le> n1 \<Longrightarrow> n0 \<le> int (length xs) \<Longrightarrow> n1 \<le> int (length ys) \<Longrightarrow>
     fits n0 n1 chs (length xs - nat n0) (length ys - nat n1)"
proof (induction chs arbitrary: n0 n1)
  case Nil
  then have "length (slice (nat n0) (length xs) xs) = length (slice (nat n1) (length ys) ys)" by simp
  then show ?case by (simp add: length_slice)
next
  case (Cons c chs)
  then have h: "n0 \<le> line0 c" "n1 \<le> line1 c" "0 \<le> deleted c" "0 \<le> inserted c" "0 < deleted c + inserted c"
    "line0 c + deleted c \<le> int (length xs)" "line1 c + inserted c \<le> int (length ys)"
    "script_ok (line0 c + deleted c) (line1 c + inserted c) chs xs ys"
    "length (slice (nat n0) (nat (line0 c)) xs) = length (slice (nat n1) (nat (line1 c)) ys)" by simp_all
  then have al: "line0 c - n0 = line1 c - n1" using Cons.prems by (simp add: length_slice nat_diff_distrib')
  define m where "m = line1 c - n1"
  have l: "line0 c = n0 + m" "line1 c = n1 + m" "0 \<le> m" using al h(2) by (simp_all add: m_def)
  have "fits (line0 c + deleted c) (line1 c + inserted c) chs
      (length xs - nat (line0 c + deleted c)) (length ys - nat (line1 c + inserted c))"
    using Cons.IH [OF h(8)] Cons.prems h(1-7) by simp
  moreover have "nat (line0 c + deleted c) = nat n0 + (nat m + nat (deleted c))"
    "nat (line1 c + inserted c) = nat n1 + (nat m + nat (inserted c))"
    using l h(3,4) Cons.prems(2,3) by (simp_all add: nat_add_distrib)
  moreover from this have "nat n0 + (nat m + nat (deleted c)) \<le> length xs" "nat n1 + (nat m + nat (inserted c)) \<le> length ys"
    using h(6,7) by (simp_all flip: nat_le_iff)
  moreover from this have "nat m + nat (deleted c) \<le> length xs - nat n0" "nat m + nat (inserted c) \<le> length ys - nat n1"
    by (simp_all only: le_diff_conv2 add.commute)
  ultimately show ?case using h(3-5) l by (simp add: Let_def)
qed

lemma one_line_all:
  "\<forall>t \<in> set ts. 10 \<notin> set t \<Longrightarrow> length ws = Suc (length ts) \<Longrightarrow> nl (interleave ws ts @ last ws) = nl (concat ws)"
proof (induction ts arbitrary: ws)
  case Nil
  then show ?case by (cases ws) auto
next
  case (Cons t ts)
  then obtain w v where ws: "ws = w # v" "length v = Suc (length ts)" by (cases ws) auto
  then have "v \<noteq> []" by auto
  with Cons.IH [of v] Cons.prems ws show ?case by (simp add: count_list_0_iff)
qed

lemma printEnd_shown:
  assumes sc: "\<not> UTF8Mode e" and np: "\<not> paraDelim opt" and r: "ready s n0 ws0 ts0 n1 ws1 ts1" "length ts0 = length ts1"
  shows "\<exists>s' i j. printEnd e opt s = Some (Inr s') \<and> shown opt (render opt (lastWasDelete s) n0 n1 [] ws0 ts0 ws1 ts1) i j s s' \<and>
    (printCommon opt \<longrightarrow> (\<forall>w \<in> set ts1. 10 \<notin> set w) \<longrightarrow> i = nl (concat ws0) \<and> j = nl (concat ws1))"
proof (cases "printCommon opt")
  case True
  from end_loop_shown [OF sc np True, of s ws0 ts0 n0 ws1 ts1 n1] r obtain s' where
    s': "end_loop e opt s = Some (Inr s')" "shown opt (render opt (lastWasDelete s) n0 n1 [] ws0 ts0 ws1 ts1)
        (nl (interleave ws0 ts1 @ last ws0)) (nl (interleave ws1 ts1 @ last ws1)) s s'" by (auto simp: ready_def)
  have "printEnd e opt s = Some (Inr s')" using s'(1) True by (simp add: printEnd_def)
  with s'(2) one_line_all [of ts1 ws0] one_line_all [of ts1 ws1] r show ?thesis unfolding ready_def by metis
qed (auto simp: printEnd_def intro: shown_refl)

theorem doDiff_rendered:
  assumes sc: "\<not> UTF8Mode e" and np: "\<not> paraDelim opt" and mc: "matchContext opt = 0"
    and files: "file_at (oldFile s) None ws0 ts0" "file_at (newFile s) None ws1 ts1"
    and len: "length ws0 = Suc (length ts0)" "length ws1 = Suc (length ts1)"
    and clean: "\<forall>w \<in> set ws0 \<union> set ws1. esc w = w"
    and words: "length (vdata (diffTokens (oldFile s))) = length ts0" "length (vdata (diffTokens (newFile s))) = length ts1"
    and ok: "equivs_ok (baseHashMax s) (vdata (diffTokens (oldFile s))) (vdata (diffTokens (newFile s)))"
  shows "\<exists>script s' i j. doDiff mem e opt s = Some (Inr s') \<and>
    compare_tokens mem opt (baseHashMax s) (vdata (diffTokens (oldFile s))) (vdata (diffTokens (newFile s))) = Some script \<and>
    script_ok 0 0 script (vdata (diffTokens (oldFile s))) (vdata (diffTokens (newFile s))) \<and>
    shown opt ((if needMarkers opt then marker_line else []) @ render opt (lastWasDelete s) 0 0 script ws0 ts0 ws1 ts1) i j
      (recorded script s) s' \<and>
    (printCommon opt \<longrightarrow> (\<forall>w \<in> set ts0 \<union> set ts1. 10 \<notin> set w) \<longrightarrow> i = nl (concat ws0) \<and> j = nl (concat ws1))"
proof -
  let ?old = "vdata (diffTokens (oldFile s))" and ?new = "vdata (diffTokens (newFile s))"
  define s1 where "s1 = s\<lparr>oldFile := (oldFile s)\<lparr>iwhitespaceBuffer := VECTOR_INIT_ALLOCATED, lastPrinted := 0\<rparr>,
    newFile := (newFile s)\<lparr>iwhitespaceBuffer := VECTOR_INIT_ALLOCATED, lastPrinted := 0\<rparr>\<rparr>"
  define s2 where "s2 = (if needMarkers opt then write_stdout marker_line s1 else s1)"
  from diff_2_files_ok [OF ok] obtain script where
    sc1: "compare_tokens mem opt (baseHashMax s) ?old ?new = Some script" "script_ok 0 0 script ?old ?new"
    unfolding compare_tokens_def by blast
  have r: "ready s2 0 ws0 ts0 0 ws1 ts1"
    using files len clean by (simp add: ready_def files_at_def s2_def s1_def get_file_def write_stdout_def file_at_def)
  have f: "fits 0 0 script (length ts0) (length ts1)" using script_fits [OF sc1(2)] words by simp
  from script_loop_shown [OF sc np r f, of "\<lambda>_ _. Some (Inl Panic)"] obtain s3 n0' ws0' ts0' n1' ws1' ts1' t i j where
    s3: "script_loop (\<lambda>_ _. Some (Inl Panic)) e opt None 0 script s2 = Some (Inr s3)"
      "ready s3 n0' ws0' ts0' n1' ws1' ts1'" "length ts0' = length ts1'" "set ts1' \<subseteq> set ts1"
      "render opt (lastWasDelete s2) 0 0 script ws0 ts0 ws1 ts1 = t @ render opt (lastWasDelete s3) n0' n1' [] ws0' ts0' ws1' ts1'"
      "shown opt t i j (recorded script s2) s3"
      "(\<forall>w \<in> set ts0 \<union> set ts1. 10 \<notin> set w) \<longrightarrow> i + nl (concat ws0') = nl (concat ws0) \<and> j + nl (concat ws1') = nl (concat ws1)"
    by blast
  from printEnd_shown [OF sc np s3(2,3)] obtain s4 i' j' where
    s4: "printEnd e opt s3 = Some (Inr s4)" "shown opt (render opt (lastWasDelete s3) n0' n1' [] ws0' ts0' ws1' ts1') i' j' s3 s4"
      "printCommon opt \<longrightarrow> (\<forall>w \<in> set ts1'. 10 \<notin> set w) \<longrightarrow> i' = nl (concat ws0') \<and> j' = nl (concat ws1')" by blast
  have fl: "lastWasDelete s2 = lastWasDelete s" by (simp add: s2_def s1_def write_stdout_def)
  have "diffTokens (oldFile s1) = diffTokens (oldFile s)" "diffTokens (newFile s1) = diffTokens (newFile s)"
    "baseHashMax s1 = baseHashMax s" by (simp_all add: s1_def)
  then have "doDiffInternal mem e opt None 0 s1 = Some (Inr s3)"
    using s3(1) sc1(1) by (subst doDiffInternal.simps)
      (simp add: Let_def print_script_def range_tokens_def old_range_def new_range_def flip: s2_def)
  then have "doDiff mem e opt s = Some (Inr s4)" using mc s4(1) by (simp add: doDiff_def s1_def)
  moreover have "shown opt (if needMarkers opt then marker_line else []) 0 0 (recorded script s) (recorded script s2)"
    by (auto simp: shown_def recorded_def s2_def s1_def write_stdout_def get_file_def split: side.split)
  then have "shown opt ((if needMarkers opt then marker_line else []) @ render opt (lastWasDelete s) 0 0 script ws0 ts0 ws1 ts1) (i + i') (j + j')
      (recorded script s) s4"
    by (rule shown_cong [OF shown_trans [OF shown_trans [OF _ s3(6)] s4(2)]]) (use s3(5) fl in \<open>simp_all del: render.simps\<close>)
  moreover have "printCommon opt \<longrightarrow> (\<forall>w \<in> set ts0 \<union> set ts1. 10 \<notin> set w) \<longrightarrow> i + i' = nl (concat ws0) \<and> j + j' = nl (concat ws1)"
    using s3(4,7) s4(3) by auto
  ultimately show ?thesis using sc1 by blast
qed

end
