(* ===== verification/Tempfile.thy ===== *)
theory Tempfile
  imports Settings
begin

text \<open>
  The temporary files of tempfile.c. The array holds the names and the closed flags; the stream
  of a file is held by its user and passed to the operations. \<open>disk\<close> is the part of the file
  system the program sees: the contents of a file by its name.

  The result of \<open>mkstemp\<close> is an argument: the name it chose and the behaviour of later writes, or
  \<open>None\<close> for a failure.
\<close>

record TempFile =
  tname :: "byte list"
  closed :: bool

type_synonym disk = "byte list \<Rightarrow> byte list option"

record tempstate =
  files :: "TempFile list"
  openIndex :: nat
  inited :: bool
  disk :: disk

type_synonym mkstemp_result = "(byte list \<times> write_event list) option"

definition init_temps :: "disk \<Rightarrow> tempstate" where
  "init_temps d = \<lparr>files = replicate 6 \<lparr>tname = [], closed = False\<rparr>, openIndex = 0, inited = False, disk = d\<rparr>"

definition tempFile :: "mkstemp_result \<Rightarrow> tempstate \<Rightarrow> ((nat \<times> Stream) option \<times> tempstate) res" where
  "tempFile made s0 =
     (if openIndex s0 \<ge> length (files s0) then Inl Panic
      else let s = s0\<lparr>inited := True\<rparr>; i = openIndex s
           in case made of
                None \<Rightarrow> Inr (None, s)
              | Some (name, ws) \<Rightarrow>
                  Inr (Some (i, initStreamDefault (FileData (fileWrapFD [] ws FILE_WRITE))),
                    s\<lparr>files := (files s)[i := (files s ! i)\<lparr>tname := name\<rparr>],
                      openIndex := i + 1, disk := (disk s)(name := Some [])\<rparr>))"

text \<open>Closing flushes the buffer, so the file then has the bytes written to the stream.\<close>

definition stream_stored :: "Stream \<Rightarrow> byte list" where
  "stream_stored strm = (case sdata strm of FileData f \<Rightarrow> stored f | StringData t i \<Rightarrow> [])"

definition closeTempFile :: "int \<Rightarrow> nat \<Rightarrow> Stream \<Rightarrow> tempstate \<Rightarrow> (Stream \<times> tempstate) res" where
  "closeTempFile close_err i strm s =
     (if closed (files s ! i) then Inr (strm, s)
      else bind_res (sfclose close_err strm) (\<lambda>(_, strm').
             Inr (strm', s\<lparr>files := (files s)[i := (files s ! i)\<lparr>closed := True\<rparr>],
                           disk := (disk s)(tname (files s ! i) := Some (stream_stored strm'))\<rparr>)))"

text \<open>
  At the time of a reset every open stream is being read, and closing it changes nothing.
\<close>

fun reset_loop :: "nat \<Rightarrow> tempstate \<Rightarrow> tempstate" where
  "reset_loop 0 s = s"
| "reset_loop (Suc i) s =
     (let s1 = reset_loop i s
      in s1\<lparr>disk := (disk s1)(tname (files s1 ! i) := None),
            files := (files s1)[i := \<lparr>tname = [], closed = False\<rparr>]\<rparr>)"

definition resetTempFiles :: "tempstate \<Rightarrow> tempstate" where
  "resetTempFiles s = (reset_loop (openIndex s) s)\<lparr>openIndex := 0\<rparr>"

section \<open>The array is never overrun\<close>

definition temps_ok :: "tempstate \<Rightarrow> bool" where
  "temps_ok s \<longleftrightarrow> length (files s) = 6 \<and> openIndex s \<le> 6"

lemma temps_ok_init: "temps_ok (init_temps d)"
  by (simp add: temps_ok_def init_temps_def)

lemma tempFile_ok:
  assumes "temps_ok s" "openIndex s < 6"
  shows "\<exists>r s'. tempFile made s = Inr (r, s') \<and> temps_ok s' \<and>
    (case made of None \<Rightarrow> r = None \<and> openIndex s' = openIndex s
     | Some (name, ws) \<Rightarrow> openIndex s' = openIndex s + 1 \<and> tname (files s' ! openIndex s) = name \<and>
         closed (files s' ! openIndex s) = closed (files s ! openIndex s) \<and>
         disk s' name = Some [] \<and>
         r = Some (openIndex s, initStreamDefault (FileData (fileWrapFD [] ws FILE_WRITE))))"
  using assms by (cases made) (auto simp: tempFile_def temps_ok_def Let_def)

lemma reset_loop_facts:
  "n \<le> length (files s) \<Longrightarrow> length (files (reset_loop n s)) = length (files s) \<and>
     (\<forall>i < n. files (reset_loop n s) ! i = \<lparr>tname = [], closed = False\<rparr>) \<and>
     (\<forall>i. n \<le> i \<longrightarrow> i < length (files s) \<longrightarrow> files (reset_loop n s) ! i = files s ! i) \<and>
     (\<forall>i < n. disk (reset_loop n s) (tname (files s ! i)) = None) \<and>
     (\<forall>x. (\<forall>i < n. x \<noteq> tname (files s ! i)) \<longrightarrow> disk (reset_loop n s) x = disk s x)"
proof (induction n)
  case (Suc n)
  then have n: "n < length (files s)" by simp
  with Suc have IH: "length (files (reset_loop n s)) = length (files s)"
    "\<And>i. i < n \<Longrightarrow> files (reset_loop n s) ! i = \<lparr>tname = [], closed = False\<rparr>"
    "\<And>i. n \<le> i \<Longrightarrow> i < length (files s) \<Longrightarrow> files (reset_loop n s) ! i = files s ! i"
    "\<And>i. i < n \<Longrightarrow> disk (reset_loop n s) (tname (files s ! i)) = None"
    "\<And>x. (\<forall>i < n. x \<noteq> tname (files s ! i)) \<Longrightarrow> disk (reset_loop n s) x = disk s x"
    by auto
  with n show ?case
    by (auto simp: Let_def nth_list_update less_Suc_eq)
qed simp



end
