(* ===== verification/Tokenizer.thy ===== *)
theory Tokenizer
  imports Driver Tempfile
begin

text \<open>
  Reading a file and separating its words from the white space between them: dwdiff.c up to
  \<open>readFile\<close>. The words go to one temporary file, the white space before each word to another,
  and the numbers of the words to \<open>diffTokens\<close>.

  The calls of the operating system are parameters: \<open>os_read\<close> says in which pieces the bytes of a
  file are delivered, \<open>os_seek\<close> and \<open>os_close\<close> are the errors of seeking and closing, and the
  results of \<open>mkstemp\<close> are a list in the state.
\<close>

record os =
  os_read :: "byte list \<Rightarrow> read_event list"
  os_seek :: int
  os_close :: int

record progstate = diffstate +
  currentWord :: CharBuffer
  whitespaceBuffer :: CharBuffer
  tokenWritten :: bool
  temps :: tempstate
  mkstemps :: "mkstemp_result list"

section \<open>The macros of stream.h\<close>

definition sputc :: "Stream \<Rightarrow> int \<Rightarrow> (int \<times> Stream) res" where
  "sputc strm c =
     (case sdata strm of
        FileData f \<Rightarrow> bind_res (filePutcReal f c) (\<lambda>(r, f'). Inr (r, strm\<lparr>sdata := FileData f'\<rparr>))
      | StringData _ _ \<Rightarrow> Inl Panic)"

definition swrite :: "Stream \<Rightarrow> byte list \<Rightarrow> (int \<times> Stream) run" where
  "swrite strm bs =
     (case sdata strm of
        FileData f \<Rightarrow> bind_run (fileWriteReal f bs) (\<lambda>(r, f'). Some (Inr (r, strm\<lparr>sdata := FileData f'\<rparr>)))
      | StringData _ _ \<Rightarrow> Some (Inl Panic))"

definition sgetc :: "Stream \<Rightarrow> (int \<times> Stream) res" where
  "sgetc strm =
     (case sdata strm of
        FileData f \<Rightarrow> bind_res (fileGetc f) (\<lambda>(c, f'). Inr (c, strm\<lparr>sdata := FileData f'\<rparr>))
      | StringData _ _ \<Rightarrow> Inl Panic)"

definition sferror :: "Stream \<Rightarrow> bool" where
  "sferror strm = (case sdata strm of FileData f \<Rightarrow> fileError f | StringData _ _ \<Rightarrow> False)"

definition sfflush :: "Stream \<Rightarrow> (int \<times> Stream) res" where
  "sfflush strm =
     (case sdata strm of
        FileData f \<Rightarrow> bind_res (fileFlushReal f) (\<lambda>(r, f'). Inr (r, strm\<lparr>sdata := FileData f'\<rparr>))
      | StringData _ _ \<Rightarrow> Inl Panic)"

definition srewind :: "os \<Rightarrow> Stream \<Rightarrow> (int \<times> Stream) res" where
  "srewind w strm =
     (case sdata strm of
        FileData f \<Rightarrow> bind_res (fileRewind (os_seek w) (os_read w (stored f)) f FILE_READ)
                        (\<lambda>(r, f'). Inr (r, strm\<lparr>sdata := FileData f'\<rparr>))
      | StringData _ _ \<Rightarrow> Inl Panic)"

section \<open>Writing to the temporary files\<close>

definition put_token_byte :: "side \<Rightarrow> int \<Rightarrow> 'a diffstate_scheme \<Rightarrow> 'a diffstate_scheme res" where
  "put_token_byte f c s =
     bind_res (sputc (itokens (get_file f s)) c) (\<lambda>(_, strm).
       Inr (set_file f ((get_file f s)\<lparr>itokens := strm\<rparr>) s))"

definition put_token_char :: "side \<Rightarrow> int \<Rightarrow> 'a diffstate_scheme \<Rightarrow> 'a diffstate_scheme run" where
  "put_token_char f c s =
     bind_run (putuc (itokens (get_file f s)) c) (\<lambda>(_, strm).
       Some (Inr (set_file f ((get_file f s)\<lparr>itokens := strm\<rparr>) s)))"

definition write_whitespace :: "side \<Rightarrow> byte list \<Rightarrow> 'a diffstate_scheme \<Rightarrow> 'a diffstate_scheme run" where
  "write_whitespace f bs s =
     bind_run (swrite (iwhitespace (get_file f s)) bs) (\<lambda>(_, strm).
       Some (Inr (set_file f ((get_file f s)\<lparr>iwhitespace := strm\<rparr>) s)))"

definition writeEndOfToken :: "side \<Rightarrow> 'a progstate_scheme \<Rightarrow> 'a progstate_scheme res" where
  "writeEndOfToken f s =
     bind_res (put_token_byte f 0 s) (\<lambda>s1.
       bind_res (getValue (vdata (currentWord s1)) (hash_table s1)) (\<lambda>(wordValue, h).
         Inr (set_file f ((get_file f s1)\<lparr>diffTokens := VECTOR_APPEND (diffTokens (get_file f s1)) wordValue\<rparr>)
               (s1\<lparr>hash_table := h, tokenWritten := True, currentWord := vector_clear (currentWord s1)\<rparr>))))"

section \<open>Single bytes\<close>

definition getNextCharSC :: "Stream \<Rightarrow> 'a outstate_scheme \<Rightarrow> (bool \<times> Stream \<times> 'a outstate_scheme) res" where
  "getNextCharSC strm s =
     bind_res (sgetc strm) (\<lambda>(c, strm').
       Inr (c \<noteq> EOF, strm', s\<lparr>charData := (charData s)\<lparr>singleChar := c\<rparr>\<rparr>))"

definition isWhitespaceSC :: "option_t \<Rightarrow> CharData \<Rightarrow> bool" where
  "isWhitespaceSC opt c \<longleftrightarrow> TEST_BIT (whitespace opt) (singleChar c) = Some True"

definition isDelimiterSC :: "option_t \<Rightarrow> CharData \<Rightarrow> bool" where
  "isDelimiterSC opt c \<longleftrightarrow> TEST_BIT (delimiters opt) (singleChar c) = Some True"

definition writeTokenCharSC :: "env \<Rightarrow> option_t \<Rightarrow> side \<Rightarrow> 'a progstate_scheme \<Rightarrow> 'a progstate_scheme res" where
  "writeTokenCharSC e opt f s =
     (let c = singleChar (charData s);
          diffChar = (if ignoreCase opt then tolower e c else c);
          s1 = s\<lparr>currentWord := VECTOR_APPEND (currentWord s) (word_of_int diffChar)\<rparr>
      in bind_res (if c = 0 \<or> c = 1 then put_token_byte f 1 s1 else Inr s1) (\<lambda>s2. put_token_byte f c s2))"

definition writeWhitespaceCharSC :: "'a progstate_scheme \<Rightarrow> 'a progstate_scheme" where
  "writeWhitespaceCharSC s =
     (let c = singleChar (charData s);
          b = (if c = 0 \<or> c = 1 then VECTOR_APPEND (whitespaceBuffer s) 1 else whitespaceBuffer s)
      in s\<lparr>whitespaceBuffer := VECTOR_APPEND b (word_of_int c)\<rparr>)"

definition writeWhitespaceDelimiterSC :: "side \<Rightarrow> 'a diffstate_scheme \<Rightarrow> 'a diffstate_scheme res" where
  "writeWhitespaceDelimiterSC f s =
     bind_res (sputc (iwhitespace (get_file f s)) 0) (\<lambda>(_, strm).
       Inr (set_file f ((get_file f s)\<lparr>iwhitespace := strm\<rparr>) s))"

section \<open>UTF-8\<close>

definition getNextCharUTF8 :: "env \<Rightarrow> option_t \<Rightarrow> Stream \<Rightarrow> 'a outstate_scheme \<Rightarrow>
    (bool \<times> Stream \<times> 'a outstate_scheme) run" where
  "getNextCharUTF8 e opt strm s =
     bind_run (getCluster (gcb_class e) strm (original (charData s))) (\<lambda>(retval, buf, strm').
       let cd = (charData s)\<lparr>original := buf\<rparr>
       in if retval then
            bind_run (Some (decomposeChar (normalize e (decomposition opt)) cd)) (\<lambda>cd'.
              Some (Inr (True, strm', s\<lparr>charData := cd'\<rparr>)))
          else Some (Inr (False, strm', s\<lparr>charData := cd\<rparr>)))"

text \<open>\<open>bsearch\<close> of the C library: the index found, by halving the interval.\<close>

function bsearch_loop :: "('k \<Rightarrow> 'v \<Rightarrow> int) \<Rightarrow> 'k \<Rightarrow> 'v list \<Rightarrow> nat \<Rightarrow> nat \<Rightarrow> nat option" where
  "bsearch_loop compar key base l u =
     (if l < u then
        let idx = (l + u) div 2; comparison = compar key (base ! idx)
        in if comparison < 0 then bsearch_loop compar key base l idx
           else if comparison > 0 then bsearch_loop compar key base (idx + 1) u
           else Some idx
      else None)"
  by pat_completeness auto
termination
  by (relation "measure (\<lambda>(c, k, b, l, u). u - l)") auto

declare bsearch_loop.simps [simp del]

definition bsearch :: "('k \<Rightarrow> 'v \<Rightarrow> int) \<Rightarrow> 'k \<Rightarrow> 'v list \<Rightarrow> nat option" where
  "bsearch compar key base = bsearch_loop compar key base 0 (length base)"

definition isUTF16Punct :: "env \<Rightarrow> option_t \<Rightarrow> UTF16Buffer \<Rightarrow> bool res" where
  "isUTF16Punct e opt b =
     isUTF16 (\<lambda>c. push_bit (char_type e c) 1 AND punctuationMask opt \<noteq> 0) (vdata b)"

definition isUTF16Whitespace :: "env \<Rightarrow> UTF16Buffer \<Rightarrow> bool res" where
  "isUTF16Whitespace e b = isUTF16 (isUWhiteSpace e) (vdata b)"

definition isWhitespaceUTF8 :: "env \<Rightarrow> option_t \<Rightarrow> CharData \<Rightarrow> bool res" where
  "isWhitespaceUTF8 e opt c =
     (if whitespaceSet opt
      then Inr (bsearch compareUTF16Buffer (converted c) (vdata (whitespaceList opt)) \<noteq> None)
      else isUTF16Whitespace e (converted c))"

definition isDelimiterUTF8 :: "env \<Rightarrow> option_t \<Rightarrow> CharData \<Rightarrow> bool res" where
  "isDelimiterUTF8 e opt c =
     (if bsearch compareUTF16Buffer (converted c) (vdata (delimiterList opt)) \<noteq> None then Inr True
      else if punctuationMask opt \<noteq> 0 then isUTF16Punct e opt (converted c) else Inr False)"

fun write_units :: "int \<Rightarrow> UChar list \<Rightarrow> CharBuffer \<Rightarrow> CharBuffer res" where
  "write_units high [] b = Inr b"
| "write_units high (u # us) b =
     bind_res (filteredConvertToUTF8 (uint u) high) (\<lambda>(bs, high').
       write_units high' us (if bs = [] then b else vector_write b bs))"

fun put_token_chars :: "side \<Rightarrow> UChar list \<Rightarrow> 'a diffstate_scheme \<Rightarrow> 'a diffstate_scheme run" where
  "put_token_chars f [] s = Some (Inr s)"
| "put_token_chars f (u # us) s = bind_run (put_token_char f (uint u) s) (\<lambda>s1. put_token_chars f us s1)"

definition writeTokenCharUTF8 :: "env \<Rightarrow> option_t \<Rightarrow> side \<Rightarrow> 'a progstate_scheme \<Rightarrow> 'a progstate_scheme run" where
  "writeTokenCharUTF8 e opt f s0 =
     bind_run
       (Some (if ignoreCase opt
              then bind_res (casefoldChar (strFoldCase e) (charData s0)) (\<lambda>cd. Inr (vdata (casefolded cd), cd))
              else Inr (vdata (converted (charData s0)), charData s0)))
       (\<lambda>(units, cd).
          let s = s0\<lparr>charData := cd\<rparr>
          in bind_run (Some (write_units 0 units (currentWord s))) (\<lambda>b.
               let s1 = s\<lparr>currentWord := b\<rparr>;
                   orig = vdata (original (charData s1))
               in if hd orig = 0 \<or> hd orig = 1 then
                    bind_run (Some (put_token_byte f 1 s1)) (\<lambda>s2. Some (put_token_byte f (uint (hd orig)) s2))
                  else put_token_chars f orig s1))"

definition writeWhitespaceCharUTF8 :: "'a progstate_scheme \<Rightarrow> 'a progstate_scheme res" where
  "writeWhitespaceCharUTF8 s =
     (let orig = vdata (original (charData s)); b = whitespaceBuffer s
      in if hd orig = 0 \<or> hd orig = 1
         then Inr (s\<lparr>whitespaceBuffer := VECTOR_APPEND (VECTOR_APPEND b 1) (ucast (hd orig))\<rparr>)
         else bind_res (write_units 0 orig b) (\<lambda>b'. Inr (s\<lparr>whitespaceBuffer := b'\<rparr>)))"

definition writeWhitespaceDelimiterUTF8 :: "side \<Rightarrow> 'a diffstate_scheme \<Rightarrow> 'a diffstate_scheme run" where
  "writeWhitespaceDelimiterUTF8 f s =
     bind_run (putuc (iwhitespace (get_file f s)) 0) (\<lambda>(_, strm).
       Some (Inr (set_file f ((get_file f s)\<lparr>iwhitespace := strm\<rparr>) s)))"

section \<open>The table of functions\<close>

definition getNextChar :: "env \<Rightarrow> option_t \<Rightarrow> Stream \<Rightarrow> 'a outstate_scheme \<Rightarrow>
    (bool \<times> Stream \<times> 'a outstate_scheme) run" where
  "getNextChar e opt strm s = (if UTF8Mode e then getNextCharUTF8 e opt strm s else Some (getNextCharSC strm s))"

definition isWhitespace :: "env \<Rightarrow> option_t \<Rightarrow> CharData \<Rightarrow> bool res" where
  "isWhitespace e opt c = (if UTF8Mode e then isWhitespaceUTF8 e opt c else Inr (isWhitespaceSC opt c))"

definition isDelimiter :: "env \<Rightarrow> option_t \<Rightarrow> CharData \<Rightarrow> bool res" where
  "isDelimiter e opt c = (if UTF8Mode e then isDelimiterUTF8 e opt c else Inr (isDelimiterSC opt c))"

definition writeTokenChar :: "env \<Rightarrow> option_t \<Rightarrow> side \<Rightarrow> 'a progstate_scheme \<Rightarrow> 'a progstate_scheme run" where
  "writeTokenChar e opt f s =
     (if UTF8Mode e then writeTokenCharUTF8 e opt f s else Some (writeTokenCharSC e opt f s))"

definition writeWhitespaceChar :: "env \<Rightarrow> 'a progstate_scheme \<Rightarrow> 'a progstate_scheme res" where
  "writeWhitespaceChar e s =
     (if UTF8Mode e then writeWhitespaceCharUTF8 s else Inr (writeWhitespaceCharSC s))"

definition writeWhitespaceDelimiter :: "env \<Rightarrow> side \<Rightarrow> 'a diffstate_scheme \<Rightarrow> 'a diffstate_scheme run" where
  "writeWhitespaceDelimiter e f s =
     (if UTF8Mode e then writeWhitespaceDelimiterUTF8 f s else Some (writeWhitespaceDelimiterSC f s))"

section \<open>The end of white space\<close>

text \<open>The loop that looks for newlines: the first one, and the index where it stops.\<close>

fun find_newlines :: "byte list \<Rightarrow> nat \<Rightarrow> nat option \<Rightarrow> nat option \<times> nat" where
  "find_newlines [] i first_nl = (first_nl, i)"
| "find_newlines (b # bs) i first_nl =
     (if b \<noteq> 10 then find_newlines bs (i + 1) first_nl
      else case first_nl of
             None \<Rightarrow> find_newlines bs (i + 1) (Some i)
           | Some _ \<Rightarrow> (first_nl, i))"

definition split_whitespace :: "env \<Rightarrow> side \<Rightarrow> nat \<Rightarrow> 'a progstate_scheme \<Rightarrow> 'a progstate_scheme run" where
  "split_whitespace e f k s =
     (let ws = vdata (whitespaceBuffer s)
      in bind_run (write_whitespace f (take k ws) s) (\<lambda>s1.
           bind_run (writeWhitespaceDelimiter e f s1) (\<lambda>s2.
             bind_run (write_whitespace f (drop k ws) s2) (\<lambda>s3.
               bind_run (writeWhitespaceDelimiter e f s3) (\<lambda>s4.
                 bind_run (Some (writeEndOfToken f s4)) (\<lambda>s5.
                   Some (Inr (s5\<lparr>whitespaceBuffer := vector_clear (whitespaceBuffer s5)\<rparr>))))))))"

definition handleWhitespaceEnd :: "env \<Rightarrow> option_t \<Rightarrow> side \<Rightarrow> 'a progstate_scheme \<Rightarrow> 'a progstate_scheme run" where
  "handleWhitespaceEnd e opt f s =
     (let ws = vdata (whitespaceBuffer s);
          (first_nl, i) = find_newlines ws 0 None;
          write_all =
            bind_run (write_whitespace f ws s) (\<lambda>s1.
              bind_run (writeWhitespaceDelimiter e f s1) (\<lambda>s2.
                Some (Inr (s2\<lparr>whitespaceBuffer := vector_clear (whitespaceBuffer s2)\<rparr>))))
      in if paraDelim opt then
           if first_nl \<noteq> None \<and> \<not> tokenWritten s then split_whitespace e f (the first_nl) s
           else if i \<noteq> length ws then split_whitespace e f (the first_nl + 1) s
           else write_all
         else write_all)"

section \<open>Reading a file\<close>

datatype category = CAT_OTHER | CAT_DELIMITER | CAT_WHITESPACE

definition classifyChar :: "env \<Rightarrow> option_t \<Rightarrow> CharData \<Rightarrow> category res" where
  "classifyChar e opt c =
     bind_res (isDelimiter e opt c) (\<lambda>d.
       if d then Inr CAT_DELIMITER
       else bind_res (isWhitespace e opt c) (\<lambda>w. Inr (if w then CAT_WHITESPACE else CAT_OTHER)))"

datatype MatchState = NONE | WHITESPACE | WORD

text \<open>One iteration: the switch on the state, with the new state and word count.\<close>

definition read_step :: "env \<Rightarrow> option_t \<Rightarrow> side \<Rightarrow> category \<Rightarrow> MatchState \<Rightarrow> int \<Rightarrow> 'a progstate_scheme \<Rightarrow>
    (MatchState \<times> int \<times> 'a progstate_scheme) run" where
  "read_step e opt f cat st wordCount s =
     (case st of
        NONE \<Rightarrow>
          if cat = CAT_WHITESPACE then
            bind_run (Some (writeWhitespaceChar e s)) (\<lambda>s1. Some (Inr (WHITESPACE, wordCount, s1)))
          else
            bind_run (handleWhitespaceEnd e opt f s) (\<lambda>s1.
              bind_run (writeTokenChar e opt f s1) (\<lambda>s2.
                if cat = CAT_DELIMITER then
                  bind_run (Some (writeEndOfToken f s2)) (\<lambda>s3. Some (Inr (WHITESPACE, wordCount, s3)))
                else Some (Inr (WORD, wordCount, s2))))
      | WORD \<Rightarrow>
          if cat = CAT_WHITESPACE then
            bind_run (Some (writeEndOfToken f s)) (\<lambda>s1.
              bind_run (Some (writeWhitespaceChar e s1)) (\<lambda>s2. Some (Inr (WHITESPACE, wordCount + 1, s2))))
          else if cat = CAT_DELIMITER then
            bind_run (Some (writeEndOfToken f s)) (\<lambda>s1.
              bind_run (writeTokenChar e opt f s1) (\<lambda>s2.
                bind_run (Some (writeEndOfToken f s2)) (\<lambda>s3.
                  bind_run (handleWhitespaceEnd e opt f s3) (\<lambda>s4. Some (Inr (WHITESPACE, wordCount + 2, s4))))))
          else bind_run (writeTokenChar e opt f s) (\<lambda>s1. Some (Inr (WORD, wordCount, s1)))
      | WHITESPACE \<Rightarrow>
          if cat = CAT_WHITESPACE then
            bind_run (Some (writeWhitespaceChar e s)) (\<lambda>s1. Some (Inr (WHITESPACE, wordCount, s1)))
          else if cat = CAT_DELIMITER then
            bind_run (writeTokenChar e opt f s) (\<lambda>s1.
              bind_run (Some (writeEndOfToken f s1)) (\<lambda>s2.
                bind_run (handleWhitespaceEnd e opt f s2) (\<lambda>s3. Some (Inr (WHITESPACE, wordCount + 1, s3)))))
          else
            bind_run (handleWhitespaceEnd e opt f s) (\<lambda>s1.
              bind_run (writeTokenChar e opt f s1) (\<lambda>s2. Some (Inr (WORD, wordCount, s2)))))"

partial_function (option) read_loop :: "env \<Rightarrow> option_t \<Rightarrow> side \<Rightarrow> MatchState \<Rightarrow> int \<Rightarrow> Stream \<Rightarrow> 'a progstate_scheme \<Rightarrow>
    (MatchState \<times> int \<times> Stream \<times> 'a progstate_scheme) run" where
  "read_loop e opt f st wordCount input s =
     bind_run (getNextChar e opt input s) (\<lambda>(ok, input1, s1).
       if \<not> ok then Some (Inr (st, wordCount, input1, s1))
       else bind_run (Some (classifyChar e opt (charData s1))) (\<lambda>cat.
              bind_run (read_step e opt f cat st wordCount s1) (\<lambda>(st', wordCount', s2).
                read_loop e opt f st' wordCount' input1 s2)))"

text \<open>Taking a temporary file; a failure is fatal in \<open>readFile\<close>.\<close>

definition next_temp :: "'a progstate_scheme \<Rightarrow> ((nat \<times> Stream) option \<times> 'a progstate_scheme) res" where
  "next_temp s =
     (case mkstemps s of
        [] \<Rightarrow> bind_res (tempFile None (temps s)) (\<lambda>(r, t). Inr (r, s\<lparr>temps := t\<rparr>))
      | m # ms \<Rightarrow> bind_res (tempFile m (temps s)) (\<lambda>(r, t). Inr (r, s\<lparr>temps := t, mkstemps := ms\<rparr>)))"

definition fatal_temp :: "(nat \<times> Stream) option \<Rightarrow> Stream res" where
  "fatal_temp r = (case r of Some (_, strm) \<Rightarrow> Inr strm | None \<Rightarrow> Inl (Fatal ''Could not create temporary file''))"

definition open_input :: "os \<Rightarrow> disk \<Rightarrow> InputFile \<Rightarrow> Stream res" where
  "open_input w d x =
     (case iname x of
        Some name \<Rightarrow>
          bind_res (fileOpen (d name \<noteq> None) (case d name of Some bs \<Rightarrow> os_read w bs | None \<Rightarrow> []) FILE_READ) (\<lambda>fo.
            case newFileStream fo of Some strm \<Rightarrow> Inr strm | None \<Rightarrow> Inl (Fatal ''Can't open file''))
      | None \<Rightarrow> (case iinput x of Some strm \<Rightarrow> Inr strm | None \<Rightarrow> Inl Panic))"

text \<open>The last lines of \<open>readFile\<close> for one of the temporary files; the closed input is gone.\<close>

definition finish_temp :: "os \<Rightarrow> Stream \<Rightarrow> Stream res" where
  "finish_temp w strm =
     bind_res (sfflush strm) (\<lambda>(_, strm1).
       if sferror strm1 then Inl (Fatal ''Error writing to temporary file'')
       else bind_res (srewind w strm1) (\<lambda>(_, strm2). Inr strm2))"

definition readFile :: "os \<Rightarrow> env \<Rightarrow> option_t \<Rightarrow> side \<Rightarrow> 'a progstate_scheme \<Rightarrow> (int \<times> 'a progstate_scheme) run" where
  "readFile w e opt f s =
     bind_run (Some (open_input w (disk (temps s)) (get_file f s))) (\<lambda>input.
     bind_run (Some (next_temp s)) (\<lambda>(t1, s1).
     bind_run (Some (fatal_temp t1)) (\<lambda>tokens.
     bind_run (Some (next_temp s1)) (\<lambda>(t2, s2).
     bind_run (Some (fatal_temp t2)) (\<lambda>ws.
       let s3 = set_file f ((get_file f s2)\<lparr>itokens := tokens, iwhitespace := ws, diffTokens := VECTOR_INIT\<rparr>) s2
       in bind_run (read_loop e opt f NONE 0 input (s3\<lparr>tokenWritten := False\<rparr>)) (\<lambda>(st, wordCount, input1, s4).
            if sferror input1 then Some (Inl (Fatal ''Error reading file''))
            else bind_run (handleWhitespaceEnd e opt f s4) (\<lambda>s5.
              bind_run (Some (if st = WORD then bind_res (writeEndOfToken f s5) (\<lambda>s'. Inr (wordCount + 1, s'))
                              else Inr (wordCount, s5))) (\<lambda>(wordCount', s6).
                bind_run (Some (sfclose (os_close w) input1)) (\<lambda>_.
                  bind_run (Some (finish_temp w (iwhitespace (get_file f s6)))) (\<lambda>wstrm.
                    bind_run (Some (finish_temp w (itokens (get_file f s6)))) (\<lambda>tstrm.
                      Some (Inr (wordCount', set_file f ((get_file f s6)\<lparr>iinput := None, iwhitespace := wstrm, itokens := tstrm\<rparr>) s6)))))))))))))"

end
