(* ===== verification/Dwdiff.thy ===== *)
theory Dwdiff
  imports Tokenizer
begin

text \<open>
  The rest of dwdiff.c: reading both files and comparing them, splitting the output of diff into
  two files, the choice of the character set by the locale, and the statistics and exit status.
\<close>

section \<open>Comparing two files\<close>

definition prepareAndExecuteDiff :: "os \<Rightarrow> uninit \<Rightarrow> env \<Rightarrow> option_t \<Rightarrow> 'a progstate_scheme \<Rightarrow> 'a progstate_scheme run" where
  "prepareAndExecuteDiff w mem e opt s =
     bind_run (readFile w e opt Old s) (\<lambda>(total0, s1).
       bind_run (readFile w e opt New (s1\<lparr>statistics := (statistics s1)\<lparr>oldTotal := total0\<rparr>\<rparr>)) (\<lambda>(total1, s2).
         let (hmax, h) = getHashMax (hash_table s2)
         in doDiff mem e opt
              (s2\<lparr>statistics := (statistics s2)\<lparr>newTotal := total1\<rparr>, baseHashMax := hmax, hash_table := h,
                  currentWord := VECTOR_FREE (currentWord s2),
                  whitespaceBuffer := VECTOR_FREE (whitespaceBuffer s2)\<rparr>)))"

section \<open>The output of diff as input\<close>

datatype DiffInputMode =
    FIRST_HEADER
  | FIRST
  | OLD_LINE
  | NEW_LINE
  | COMMON_LINE
  | HEADER
  | LINE_COUNTS

record split =
  smode :: DiffInputMode
  sold :: "nat \<times> Stream"
  snew :: "nat \<times> Stream"

definition put_split :: "int \<Rightarrow> nat \<times> Stream \<Rightarrow> (nat \<times> Stream) res" where
  "put_split c t = bind_res (sputc (snd t) c) (\<lambda>(_, strm). Inr (fst t, strm))"

text \<open>A line of the old file, of the new file, or of both.\<close>

definition put_old :: "int \<Rightarrow> split \<Rightarrow> split res" where
  "put_old c x = bind_res (put_split c (sold x)) (\<lambda>t. Inr (x\<lparr>sold := t\<rparr>))"

definition put_new :: "int \<Rightarrow> split \<Rightarrow> split res" where
  "put_new c x = bind_res (put_split c (snew x)) (\<lambda>t. Inr (x\<lparr>snew := t\<rparr>))"

definition end_line :: "int \<Rightarrow> DiffInputMode \<Rightarrow> split \<Rightarrow> split" where
  "end_line c m x = (if c = 10 then x\<lparr>smode := m\<rparr> else x)"

text \<open>
  Closing the two files and comparing them. A null pointer from \<open>tempFile\<close> is dereferenced
  without a test, which is \<open>None\<close>.
\<close>

definition compare_split :: "os \<Rightarrow> uninit \<Rightarrow> env \<Rightarrow> option_t \<Rightarrow> split \<Rightarrow> 'a progstate_scheme \<Rightarrow> 'a progstate_scheme run" where
  "compare_split w mem e opt x s =
     bind_run (Some (closeTempFile (os_close w) (fst (sold x)) (snd (sold x)) (temps s))) (\<lambda>(_, t1).
       bind_run (Some (closeTempFile (os_close w) (fst (snew x)) (snd (snew x)) t1)) (\<lambda>(_, t2).
         prepareAndExecuteDiff w mem e opt
           (s\<lparr>temps := t2,
              oldFile := (oldFile s)\<lparr>iname := Some (tname (files t2 ! fst (sold x)))\<rparr>,
              newFile := (newFile s)\<lparr>iname := Some (tname (files t2 ! fst (snew x)))\<rparr>\<rparr>)))"

definition two_temps :: "DiffInputMode \<Rightarrow> 'a progstate_scheme \<Rightarrow> (split \<times> 'a progstate_scheme) run" where
  "two_temps m s =
     bind_run (Some (next_temp s)) (\<lambda>(t1, s1).
       bind_run (Some (next_temp s1)) (\<lambda>(t2, s2).
         case (t1, t2) of
           (Some a, Some b) \<Rightarrow> Some (Inr (\<lparr>smode = m, sold = a, snew = b\<rparr>, s2))
         | _ \<Rightarrow> None))"

definition split_step :: "os \<Rightarrow> uninit \<Rightarrow> env \<Rightarrow> option_t \<Rightarrow> int \<Rightarrow> split \<Rightarrow> 'a progstate_scheme \<Rightarrow>
    (split \<times> 'a progstate_scheme) run" where
  "split_step w mem e opt c x s =
     (case smode x of
        FIRST_HEADER \<Rightarrow>
          Some (Inr (x\<lparr>smode := (if c \<noteq> 64 then HEADER else LINE_COUNTS)\<rparr>, write_stdout [word_of_int c] s))
      | FIRST \<Rightarrow>
          if c = 43 then bind_run (Some (put_new 32 x)) (\<lambda>x1. Some (Inr (x1\<lparr>smode := NEW_LINE\<rparr>, s)))
          else if c = 45 then bind_run (Some (put_old 32 x)) (\<lambda>x1. Some (Inr (x1\<lparr>smode := OLD_LINE\<rparr>, s)))
          else if c = 32 then
            bind_run (Some (put_old 32 x)) (\<lambda>x1.
              bind_run (Some (put_new 32 x1)) (\<lambda>x2. Some (Inr (x2\<lparr>smode := COMMON_LINE\<rparr>, s))))
          else
            bind_run (compare_split w mem e opt x s) (\<lambda>s1.
              bind_run (two_temps (if c = 64 then LINE_COUNTS else HEADER) (s1\<lparr>temps := resetTempFiles (temps s1)\<rparr>))
                (\<lambda>(x1, s2). Some (Inr (x1, write_stdout [word_of_int c] s2))))
      | OLD_LINE \<Rightarrow> bind_run (Some (put_old c x)) (\<lambda>x1. Some (Inr (end_line c FIRST x1, s)))
      | NEW_LINE \<Rightarrow> bind_run (Some (put_new c x)) (\<lambda>x1. Some (Inr (end_line c FIRST x1, s)))
      | COMMON_LINE \<Rightarrow>
          bind_run (Some (put_old c x)) (\<lambda>x1.
            bind_run (Some (put_new c x1)) (\<lambda>x2. Some (Inr (end_line c FIRST x2, s))))
      | HEADER \<Rightarrow> Some (Inr (end_line c FIRST_HEADER x, write_stdout [word_of_int c] s))
      | LINE_COUNTS \<Rightarrow> Some (Inr (end_line c FIRST x, write_stdout [word_of_int c] s)))"

partial_function (option) split_loop :: "os \<Rightarrow> uninit \<Rightarrow> env \<Rightarrow> option_t \<Rightarrow> Stream \<Rightarrow> split \<Rightarrow> 'a progstate_scheme \<Rightarrow>
    (split \<times> 'a progstate_scheme) run" where
  "split_loop w mem e opt input x s =
     bind_run (Some (getNextCharSC input s)) (\<lambda>(ok, input1, s1).
       if ok then
         bind_run (split_step w mem e opt (singleChar (charData s1)) x s1) (\<lambda>(x1, s2).
           split_loop w mem e opt input1 x1 s2)
       else Some (Inr (x, s1)))"

definition splitDiffInput :: "os \<Rightarrow> uninit \<Rightarrow> env \<Rightarrow> option_t \<Rightarrow> 'a progstate_scheme \<Rightarrow> 'a progstate_scheme run" where
  "splitDiffInput w mem e opt s =
     bind_run (Some (open_input w (disk (temps s)) (oldFile s))) (\<lambda>input.
       bind_run (two_temps FIRST_HEADER s) (\<lambda>(x, s1).
         bind_run (split_loop w mem e opt input x s1) (\<lambda>(x1, s2). compare_split w mem e opt x1 s2)))"

section \<open>The locale\<close>

definition ASCIItolower :: "int \<Rightarrow> int" where
  "ASCIItolower c = (if c \<ge> 0x41 \<and> c \<le> 0x5A then c OR 0x20 else c)"

text \<open>\<open>strstr\<close>: the text from the first occurrence on.\<close>

fun strstr :: "'a list \<Rightarrow> 'a list \<Rightarrow> 'a list option" where
  "strstr hay needle =
     (if take (length needle) hay = needle then Some hay
      else case hay of [] \<Rightarrow> None | _ # rest \<Rightarrow> strstr rest needle)"

declare strstr.simps [simp del]

text \<open>The test without \<open>nl_langinfo\<close>, on the name of the locale; \<open>None\<close> is a failing \<open>setlocale\<close>.\<close>

definition locale_is_utf8 :: "int list option \<Rightarrow> bool" where
  "locale_is_utf8 lc_ctype =
     (case lc_ctype of
        None \<Rightarrow> False
      | Some name \<Rightarrow>
          let lower = map ASCIItolower name;
              ends = (\<lambda>k loc. length loc = k \<or> loc ! k = 64)
          in (case strstr lower [46, 117, 116, 102, 56] of
                Some loc \<Rightarrow> ends (5 :: nat) loc
              | None \<Rightarrow>
                  (case strstr lower [46, 117, 116, 102, 45, 56] of
                     Some loc \<Rightarrow> ends 6 loc
                   | None \<Rightarrow> False)))"

section \<open>Statistics and the exit status\<close>

text \<open>Division of C, which truncates.\<close>

definition c_div :: "int \<Rightarrow> int \<Rightarrow> int" where
  "c_div a b = (if (a < 0) = (b < 0) then \<bar>a\<bar> div \<bar>b\<bar> else - (\<bar>a\<bar> div \<bar>b\<bar>))"

text \<open>
  The numbers of a line of the statistics: the words in total, and the common, the removed or added,
  and the changed words, each with its percentage; \<open>None\<close> is the line for no words.
\<close>

definition statistics_line :: "int \<Rightarrow> int \<Rightarrow> int \<Rightarrow> (int \<times> (int \<times> int) \<times> (int \<times> int) \<times> (int \<times> int)) option" where
  "statistics_line words one_sided changed_words =
     (let common = words - one_sided - changed_words
      in if words = 0 then None
         else Some (words, (common, c_div (common * 100) words), (one_sided, c_div (one_sided * 100) words),
                (changed_words, c_div (changed_words * 100) words)))"

definition print_statistics :: "Statistics \<Rightarrow>
    (int \<times> (int \<times> int) \<times> (int \<times> int) \<times> (int \<times> int)) option \<times>
    (int \<times> (int \<times> int) \<times> (int \<times> int) \<times> (int \<times> int)) option" where
  "print_statistics st =
     (statistics_line (oldTotal st) (stat_deleted st) (oldChanged st),
      statistics_line (newTotal st) (stat_added st) (newChanged st))"

text \<open>
  \<open>main\<close> after the options have been read, with the exit status; a fault ends the program with
  status 2.
\<close>

definition run_program :: "os \<Rightarrow> uninit \<Rightarrow> env \<Rightarrow> option_t \<Rightarrow> 'a progstate_scheme \<Rightarrow> (int \<times> 'a progstate_scheme) run" where
  "run_program w mem e opt s0 =
     (let s = s0\<lparr>whitespaceBuffer := VECTOR_INIT\<rparr>
      in bind_run (if diffInput opt then splitDiffInput w mem e opt s else prepareAndExecuteDiff w mem e opt s)
           (\<lambda>s1. Some (Inr (differences s1, s1))))"

definition exit_status :: "(int \<times> 'a progstate_scheme) run \<Rightarrow> int option" where
  "exit_status r = map_option (\<lambda>x. case x of Inl _ \<Rightarrow> 2 | Inr (st, _) \<Rightarrow> st) r"

end
