(* ===== verification/Reading.thy ===== *)
theory Reading
  imports Rendering Dwdiff
begin

text \<open>
  Reading a file of single bytes without paragraph separators: the words and the white space
  that \<open>readFile\<close> leaves in the temporary files are those of the reference function \<open>tokenize\<close>,
  and the numbers in \<open>diffTokens\<close> are those of the words in the hash table.
\<close>

section \<open>The reference\<close>

text \<open>
  The white space and the words of a text, one more piece of white space than words. The
  arguments are the white space and the word read so far, \<open>None\<close> between words.
\<close>

fun tokenize :: "(byte \<Rightarrow> category) \<Rightarrow> byte list \<Rightarrow> byte list option \<Rightarrow> byte list \<Rightarrow> byte list list \<times> byte list list" where
  "tokenize cat w None [] = ([w], [])"
| "tokenize cat w (Some t) [] = ([w], [t])"
| "tokenize cat w None (b # bs) =
     (case cat b of
        CAT_WHITESPACE \<Rightarrow> tokenize cat (w @ [b]) None bs
      | CAT_DELIMITER \<Rightarrow> let (ws, ts) = tokenize cat [] None bs in (w # ws, [b] # ts)
      | CAT_OTHER \<Rightarrow> let (ws, ts) = tokenize cat [] (Some [b]) bs in (w # ws, ts))"
| "tokenize cat w (Some t) (b # bs) =
     (case cat b of
        CAT_WHITESPACE \<Rightarrow> let (ws, ts) = tokenize cat [b] None bs in (ws, t # ts)
      | CAT_DELIMITER \<Rightarrow> let (ws, ts) = tokenize cat [] None bs in ([] # ws, t # [b] # ts)
      | CAT_OTHER \<Rightarrow> tokenize cat w (Some (t @ [b])) bs)"

definition spaces_of :: "(byte \<Rightarrow> category) \<Rightarrow> byte list \<Rightarrow> byte list list" where
  "spaces_of cat bs = fst (tokenize cat [] None bs)"

definition words_of :: "(byte \<Rightarrow> category) \<Rightarrow> byte list \<Rightarrow> byte list list" where
  "words_of cat bs = snd (tokenize cat [] None bs)"

text \<open>The pieces are the text, in order.\<close>

lemma tokenize_text:
  "tokenize cat w t bs = (ws, ts) \<Longrightarrow>
     (case t of
        None \<Rightarrow> length ws = Suc (length ts) \<and> interleave ws ts @ last ws = w @ bs
      | Some u \<Rightarrow> w = [] \<longrightarrow> (\<exists>t' ts'. ts = t' # ts' \<and> length ws = length ts \<and> t' @ interleave ws ts' @ last ws = u @ bs))"
proof (induction cat w t bs arbitrary: ws ts rule: tokenize.induct)
  case (3 cat w b bs)
  obtain v u where a: "tokenize cat [] None bs = (v, u)" by fastforce
  obtain v' u' where o: "tokenize cat [] (Some [b]) bs = (v', u')" by fastforce
  show ?case
  proof (cases "cat b")
    case CAT_OTHER
    from "3.IH"(1) [OF CAT_OTHER o] "3.prems" CAT_OTHER o show ?thesis by fastforce
  next
    case CAT_DELIMITER
    from "3.IH"(2) [OF CAT_DELIMITER a] "3.prems" CAT_DELIMITER a show ?thesis by fastforce
  next
    case CAT_WHITESPACE
    from "3.IH"(3) [OF CAT_WHITESPACE] "3.prems" CAT_WHITESPACE show ?thesis by simp
  qed
next
  case (4 cat w t b bs)
  obtain v u where a: "tokenize cat [] None bs = (v, u)" by fastforce
  obtain v' u' where o: "tokenize cat [b] None bs = (v', u')" by fastforce
  show ?case
  proof (cases "cat b")
    case CAT_OTHER
    from "4.IH"(1) [OF CAT_OTHER] "4.prems" CAT_OTHER show ?thesis by simp
  next
    case CAT_DELIMITER
    from "4.IH"(2) [OF CAT_DELIMITER a] "4.prems" CAT_DELIMITER a show ?thesis by fastforce
  next
    case CAT_WHITESPACE
    from "4.IH"(3) [OF CAT_WHITESPACE o] "4.prems" CAT_WHITESPACE o show ?thesis by fastforce
  qed
qed auto

lemma tokens_text:
  "length (spaces_of cat bs) = Suc (length (words_of cat bs))"
  "interleave (spaces_of cat bs) (words_of cat bs) @ last (spaces_of cat bs) = bs"
  using tokenize_text [of cat "[]" None bs "spaces_of cat bs" "words_of cat bs"] by (simp_all add: spaces_of_def words_of_def)

text \<open>White space consists of white space, and words of other characters or of one delimiter.\<close>

lemma tokenize_space:
  "set w \<subseteq> {b. cat b = CAT_WHITESPACE} \<Longrightarrow> set (concat (fst (tokenize cat w t bs))) \<subseteq> {b. cat b = CAT_WHITESPACE}"
proof (induction cat w t bs rule: tokenize.induct)
  case (3 cat w b bs)
  show ?case using "3.IH" "3.prems" by (cases "cat b") (simp_all add: case_prod_beta)
next
  case (4 cat w t b bs)
  show ?case using "4.IH" "4.prems" by (cases "cat b") (simp_all add: case_prod_beta)
qed simp_all

definition word_shape :: "(byte \<Rightarrow> category) \<Rightarrow> byte list \<Rightarrow> bool" where
  "word_shape cat u \<longleftrightarrow> u \<noteq> [] \<and> (set u \<subseteq> {b. cat b = CAT_OTHER} \<or> (\<exists>b. u = [b] \<and> cat b = CAT_DELIMITER))"

lemma tokenize_words:
  "(\<And>u. t = Some u \<Longrightarrow> u \<noteq> [] \<and> set u \<subseteq> {b. cat b = CAT_OTHER}) \<Longrightarrow> set (snd (tokenize cat w t bs)) \<subseteq> {u. word_shape cat u}"
proof (induction cat w t bs rule: tokenize.induct)
  case (3 cat w b bs)
  then show ?case by (cases "cat b") (simp_all add: split_beta word_shape_def)
next
  case (4 cat w t b bs)
  then show ?case by (cases "cat b") (simp_all add: split_beta word_shape_def)
qed (simp_all add: word_shape_def)

section \<open>Temporary files being written\<close>

definition wstream :: "Stream \<Rightarrow> byte list \<Rightarrow> bool" where
  "wstream strm bs \<longleftrightarrow> (\<exists>f. sdata strm = FileData f \<and> writing f \<and> written f = bs)"

lemma sputc_ok: "wstream strm bs \<Longrightarrow> \<exists>strm'. sputc strm c = Inr (0, strm') \<and> wstream strm' (bs @ [word_of_int c])"
  using filePutcReal_ok [of _ c] by (fastforce simp: wstream_def sputc_def)

lemma swrite_ok: "wstream strm bs \<Longrightarrow> \<exists>strm'. swrite strm xs = Some (Inr (0, strm')) \<and> wstream strm' (bs @ xs)"
  using fileWriteReal_ok [of _ xs] by (fastforce simp: wstream_def swrite_def)

text \<open>An operating system without errors that delivers the bytes of a file.\<close>

definition os_ok :: "os \<Rightarrow> bool" where
  "os_ok w \<longleftrightarrow> os_seek w = 0 \<and> (\<forall>bs. no_fail (os_read w bs) \<and> incoming (os_read w bs) = bs)"

lemma finish_temp_ok:
  assumes "wstream strm bs" "os_ok w"
  shows "\<exists>strm'. finish_temp w strm = Inr strm' \<and> open_stream strm' bs \<and> isFileStream strm'"
proof -
  from assms(1) obtain f where f: "sdata strm = FileData f" "writing f" "written f = bs" by (auto simp: wstream_def)
  from fileFlushReal_ok [OF f(2)] obtain f1 where
    f1: "fileFlushReal f = Inr (0, f1)" "writing f1" "buffer f1 = []" "stored f1 = bs" using f(3) by blast
  let ?f2 = "f1\<lparr>eof := EOF_NO, fmode := FILE_READ, reads := os_read w bs\<rparr>"
  have "fileRewind 0 (os_read w bs) f1 FILE_READ = Inr (0, ?f2)"
    using f1(2,3) by (simp add: fileRewind_def flushBuffer_def writing_def)
  then have "finish_temp w strm = Inr (strm\<lparr>sdata := FileData ?f2\<rparr>)"
    using f(1) f1 assms(2) by (simp add: finish_temp_def sfflush_def srewind_def sferror_def fileError_def writing_def os_ok_def)
  moreover have "reading ?f2" "to_read ?f2 = bs"
    using f1(2,3) assms(2) by (simp_all add: reading_def to_read_def writing_def os_ok_def)
  ultimately show ?thesis
    by (auto simp: open_stream_def stream_ok_def stream_rest_def isFileStream_def at_eof_def fileEof_def)
qed

section \<open>What reading leaves alone\<close>

definition undisturbed :: "side \<Rightarrow> 'a progstate_scheme \<Rightarrow> 'a progstate_scheme \<Rightarrow> bool" where
  "undisturbed f s s' \<longleftrightarrow> stdout_bytes s' = stdout_bytes s \<and> oldLineNumber s' = oldLineNumber s \<and> newLineNumber s' = newLineNumber s \<and>
     lastWasDelete s' = lastWasDelete s \<and> statistics s' = statistics s \<and> differences s' = differences s \<and>
     temps s' = temps s \<and> mkstemps s' = mkstemps s \<and> (\<forall>g. g \<noteq> f \<longrightarrow> get_file g s' = get_file g s) \<and>
     whitespaceBufferUsed (get_file f s') = whitespaceBufferUsed (get_file f s) \<and>
     lookup_word (hash_table s) \<subseteq>\<^sub>m lookup_word (hash_table s')"

lemma undisturbed_refl [simp]: "undisturbed f s s"
  by (simp add: undisturbed_def)

lemma undisturbed_trans: "undisturbed f s s1 \<Longrightarrow> undisturbed f s1 s2 \<Longrightarrow> undisturbed f s s2"
  by (auto simp: undisturbed_def intro: map_le_trans)

lemma set_file_fields [simp]:
  "stdout_bytes (set_file f x s) = stdout_bytes s" "oldLineNumber (set_file f x s) = oldLineNumber s"
  "newLineNumber (set_file f x s) = newLineNumber s" "statistics (set_file f x s) = statistics s"
  "differences (set_file f x s) = differences s" "hash_table (set_file f x s) = hash_table s"
  "charData (set_file f x s) = charData s" "baseHashMax (set_file f x s) = baseHashMax s"
  by (cases f; simp add: set_file_def)+

lemma set_file_prog [simp]:
  "currentWord (set_file f x s) = currentWord s" "whitespaceBuffer (set_file f x s) = whitespaceBuffer s"
  "temps (set_file f x s) = temps s" "mkstemps (set_file f x s) = mkstemps s"
  by (cases f; simp add: set_file_def)+

lemma get_file_upd [simp]:
  "get_file f (s\<lparr>charData := c\<rparr>) = get_file f s" "get_file f (s\<lparr>hash_table := h\<rparr>) = get_file f s"
  "get_file f (s\<lparr>currentWord := v\<rparr>) = get_file f s" "get_file f (s\<lparr>whitespaceBuffer := v\<rparr>) = get_file f s"
  "get_file f (s\<lparr>tokenWritten := b\<rparr>) = get_file f s" "get_file f (s\<lparr>temps := t\<rparr>) = get_file f s"
  "get_file f (s\<lparr>mkstemps := m\<rparr>) = get_file f s"
  by (cases f; simp add: get_file_def)+

section \<open>The state while reading\<close>

text \<open>A character of a word as it is compared.\<close>

definition low :: "env \<Rightarrow> option_t \<Rightarrow> byte \<Rightarrow> byte" where
  "low e opt b = word_of_int (if ignoreCase opt then tolower e (uint b) else uint b)"

text \<open>
  The white space \<open>w\<close> and the word \<open>t\<close> are being read; the pieces \<open>ws\<close> and the words \<open>ts\<close> are
  in the temporary files and the words are numbered.
\<close>

definition scanned :: "env \<Rightarrow> option_t \<Rightarrow> side \<Rightarrow> byte list \<Rightarrow> byte list \<Rightarrow> byte list list \<Rightarrow> byte list list \<Rightarrow>
    'a progstate_scheme \<Rightarrow> bool" where
  "scanned e opt f w t ws ts s \<longleftrightarrow>
     wstream (itokens (get_file f s)) (pieces ts @ esc t) \<and> wstream (iwhitespace (get_file f s)) (pieces ws) \<and>
     vdata (whitespaceBuffer s) = esc w \<and> vdata (currentWord s) = map (low e opt) t \<and>
     hash_wf (hash_table s) \<and>
     map Some (vdata (diffTokens (get_file f s))) = map (lookup_word (hash_table s)) (map (map (low e opt)) ts)"

lemma put_token_byte_ok:
  assumes "wstream (itokens (get_file f s)) bs"
  shows "\<exists>strm. put_token_byte f c s = Inr (set_file f ((get_file f s)\<lparr>itokens := strm\<rparr>) s) \<and> wstream strm (bs @ [word_of_int c])"
  using sputc_ok [OF assms, of c] by (auto simp: put_token_byte_def)

lemma esc_append [simp]: "esc (xs @ ys) = esc xs @ esc ys"
  by (induction xs) auto

lemma writeTokenChar_ok:
  assumes "\<not> UTF8Mode e" "scanned e opt f w t ws ts s" "singleChar (charData s) = uint b"
  shows "\<exists>s'. writeTokenChar e opt f s = Some (Inr s') \<and> scanned e opt f w (t @ [b]) ws ts s' \<and> undisturbed f s s' \<and>
    singleChar (charData s') = uint b \<and> nextValue (hash_table s') = nextValue (hash_table s)"
proof -
  define s1 where "s1 = s\<lparr>currentWord := VECTOR_APPEND (currentWord s) (low e opt b)\<rparr>"
  have w1: "wstream (itokens (get_file f s1)) (pieces ts @ esc t)" using assms(2) by (simp add: scanned_def s1_def)
  have cw: "vdata (currentWord s1) = map (low e opt) (t @ [b])" using assms(2) by (simp add: scanned_def s1_def)
  obtain strm1 where strm1: "(if b = 0 \<or> b = 1 then put_token_byte f 1 s1 else Inr s1) =
      Inr (set_file f ((get_file f s1)\<lparr>itokens := strm1\<rparr>) s1)" "wstream strm1 (pieces ts @ esc t @ (if b = 0 \<or> b = 1 then [1] else []))"
  proof (cases "b = 0 \<or> b = 1")
    case True
    with put_token_byte_ok [OF w1, of 1] that show ?thesis by auto
  next
    case False
    have "set_file f ((get_file f s1)\<lparr>itokens := itokens (get_file f s1)\<rparr>) s1 = s1"
      by (cases f) (simp_all add: set_file_def get_file_def)
    with False w1 that [of "itokens (get_file f s1)"] show ?thesis by simp
  qed
  let ?s2 = "set_file f ((get_file f s1)\<lparr>itokens := strm1\<rparr>) s1"
  have "wstream (itokens (get_file f ?s2)) (pieces ts @ esc t @ (if b = 0 \<or> b = 1 then [1] else []))" using strm1(2) by simp
  note put = put_token_byte_ok [OF this, of "uint b"]
  have "(pieces ts @ esc t @ (if b = 0 \<or> b = 1 then [1] else [])) @ [word_of_int (uint b)] = pieces ts @ esc (t @ [b])" by simp
  from put [unfolded this] obtain strm2 where
    strm2: "put_token_byte f (uint b) ?s2 = Inr (set_file f ((get_file f ?s2)\<lparr>itokens := strm2\<rparr>) ?s2)"
      "wstream strm2 (pieces ts @ esc (t @ [b]))" by blast
  let ?s3 = "set_file f ((get_file f ?s2)\<lparr>itokens := strm2\<rparr>) ?s2"
  have "uint b = 0 \<or> uint b = 1 \<longleftrightarrow> b = 0 \<or> b = 1" by (simp add: uint_0_iff)
  then have "writeTokenCharSC e opt f s =
      bind_res (if b = 0 \<or> b = 1 then put_token_byte f 1 s1 else Inr s1) (put_token_byte f (uint b))"
    unfolding writeTokenCharSC_def Let_def assms(3) low_def s1_def by simp
  then have "writeTokenChar e opt f s = Some (Inr ?s3)"
    using assms(1) strm1(1) strm2(1) by (simp add: writeTokenChar_def)
  moreover have "scanned e opt f w (t @ [b]) ws ts ?s3" using assms(2) strm2(2) cw by (simp add: scanned_def s1_def)
  moreover have "undisturbed f s ?s3" by (auto simp: undisturbed_def s1_def)
  ultimately show ?thesis using assms(3) by (auto simp: s1_def)
qed

lemma lookup_mono: "map Some vs = map (lookup_word h) ks \<Longrightarrow> lookup_word h \<subseteq>\<^sub>m lookup_word h' \<Longrightarrow> map Some vs = map (lookup_word h') ks"
proof (induction ks arbitrary: vs)
  case (Cons k ks)
  then obtain v vs' where "vs = v # vs'" by (cases vs) auto
  with Cons.prems have "lookup_word h k = Some v" "map Some vs' = map (lookup_word h) ks" by auto
  moreover from this Cons.prems(2) have "lookup_word h' k = Some v" by (metis domI map_le_def)
  ultimately show ?case using Cons.IH [OF _ Cons.prems(2)] \<open>vs = v # vs'\<close> by simp
qed simp

lemma writeEndOfToken_ok:
  assumes "scanned e opt f w t ws ts s" "nextValue (hash_table s) < VALUE_MAX"
  shows "\<exists>s'. writeEndOfToken f s = Inr s' \<and> scanned e opt f w [] ws (ts @ [t]) s' \<and> undisturbed f s s' \<and>
    singleChar (charData s') = singleChar (charData s) \<and> nextValue (hash_table s') \<le> nextValue (hash_table s) + 1"
proof -
  have "wstream (itokens (get_file f s)) (pieces ts @ esc t)" using assms(1) by (simp add: scanned_def)
  from put_token_byte_ok [OF this, of 0] obtain strm where
    strm: "put_token_byte f 0 s = Inr (set_file f ((get_file f s)\<lparr>itokens := strm\<rparr>) s)" "wstream strm (pieces (ts @ [t]))"
    by (auto simp: pieces_def)
  let ?s1 = "set_file f ((get_file f s)\<lparr>itokens := strm\<rparr>) s"
  have "hash_wf (hash_table s)" using assms(1) by (simp add: scanned_def)
  from words.get_step [OF this assms(2), of "map (low e opt) t"] obtain v h where
    h: "getValue (map (low e opt) t) (hash_table s) = Inr (v, h)" "hash_wf h" "lookup_word h (map (low e opt) t) = Some v"
      "nextValue h \<le> nextValue (hash_table s) + 1" "lookup_word (hash_table s) \<subseteq>\<^sub>m lookup_word h" by blast
  let ?s2 = "?s1\<lparr>hash_table := h, tokenWritten := True, currentWord := vector_clear (currentWord ?s1)\<rparr>"
  let ?x = "(get_file f ?s1)\<lparr>diffTokens := VECTOR_APPEND (diffTokens (get_file f ?s1)) v\<rparr>"
  have "writeEndOfToken f s = Inr (set_file f ?x ?s2)"
    using strm(1) h(1) assms(1) by (simp add: writeEndOfToken_def scanned_def)
  moreover have "map Some (vdata (diffTokens (get_file f s))) = map (lookup_word h) (map (map (low e opt)) ts)"
    using lookup_mono [OF _ h(5)] assms(1) unfolding scanned_def by blast
  then have "scanned e opt f w [] ws (ts @ [t]) (set_file f ?x ?s2)"
    using assms(1) strm(2) h(2,3) by (simp add: scanned_def vector_clear_def)
  moreover have "undisturbed f s (set_file f ?x ?s2)" using h(5) by (auto simp: undisturbed_def)
  ultimately show ?thesis using h(4) by auto
qed

lemma writeWhitespaceChar_ok:
  assumes "\<not> UTF8Mode e" "scanned e opt f w t ws ts s" "singleChar (charData s) = uint b"
  shows "\<exists>s'. writeWhitespaceChar e s = Inr s' \<and> scanned e opt f (w @ [b]) t ws ts s' \<and> undisturbed f s s' \<and>
    singleChar (charData s') = uint b \<and> hash_table s' = hash_table s"
proof -
  have "uint b = 0 \<or> uint b = 1 \<longleftrightarrow> b = 0 \<or> b = 1" by (simp add: uint_0_iff)
  with assms show ?thesis
    by (auto simp: writeWhitespaceChar_def writeWhitespaceCharSC_def scanned_def undisturbed_def Let_def)
qed

lemma handleWhitespaceEnd_ok:
  assumes "\<not> UTF8Mode e" "\<not> paraDelim opt" "scanned e opt f w t ws ts s"
  shows "\<exists>s'. handleWhitespaceEnd e opt f s = Some (Inr s') \<and> scanned e opt f [] t (ws @ [w]) ts s' \<and> undisturbed f s s' \<and>
    singleChar (charData s') = singleChar (charData s) \<and> hash_table s' = hash_table s"
proof -
  have "wstream (iwhitespace (get_file f s)) (pieces ws)" using assms(3) by (simp add: scanned_def)
  from swrite_ok [OF this, of "esc w"] obtain strm1 where
    strm1: "swrite (iwhitespace (get_file f s)) (esc w) = Some (Inr (0, strm1))" "wstream strm1 (pieces ws @ esc w)" by blast
  from sputc_ok [OF strm1(2), of 0] obtain strm2 where
    strm2: "sputc strm1 0 = Inr (0, strm2)" "wstream strm2 (pieces (ws @ [w]))" by (auto simp: pieces_def)
  let ?s1 = "set_file f ((get_file f s)\<lparr>iwhitespace := strm1\<rparr>) s"
  let ?s2 = "set_file f ((get_file f ?s1)\<lparr>iwhitespace := strm2\<rparr>) ?s1"
  let ?s3 = "?s2\<lparr>whitespaceBuffer := vector_clear (whitespaceBuffer ?s2)\<rparr>"
  have "vdata (whitespaceBuffer s) = esc w" using assms(3) by (simp add: scanned_def)
  then have "handleWhitespaceEnd e opt f s = Some (Inr ?s3)"
    using assms(1,2) strm1(1) strm2(1)
    by (simp add: handleWhitespaceEnd_def write_whitespace_def writeWhitespaceDelimiter_def writeWhitespaceDelimiterSC_def split_beta)
  moreover have "scanned e opt f [] t (ws @ [w]) ts ?s3"
    using assms(3) strm2(2) by (simp add: scanned_def vector_clear_def)
  moreover have "undisturbed f s ?s3" by (auto simp: undisturbed_def)
  ultimately show ?thesis by auto
qed

section \<open>One character\<close>

definition byte_category :: "option_t \<Rightarrow> byte \<Rightarrow> category" where
  "byte_category opt b =
     (if TEST_BIT (delimiters opt) (uint b) = Some True then CAT_DELIMITER
      else if TEST_BIT (whitespace opt) (uint b) = Some True then CAT_WHITESPACE else CAT_OTHER)"

lemma classifyChar_byte:
  "\<not> UTF8Mode e \<Longrightarrow> singleChar c = uint b \<Longrightarrow> classifyChar e opt c = Inr (byte_category opt b)"
  by (simp add: classifyChar_def isDelimiter_def isWhitespace_def isDelimiterSC_def isWhitespaceSC_def byte_category_def)

definition word_so_far :: "byte list option \<Rightarrow> byte list" where
  "word_so_far t = (case t of None \<Rightarrow> [] | Some u \<Rightarrow> u)"

definition pending :: "byte list option \<Rightarrow> int" where
  "pending t = (case t of None \<Rightarrow> 0 | Some _ \<Rightarrow> 1)"

text \<open>The state reached by one step of the reference: what is being read, and what is completed.\<close>

definition stepped :: "env \<Rightarrow> option_t \<Rightarrow> side \<Rightarrow> byte list \<Rightarrow> byte list option \<Rightarrow> byte \<Rightarrow> byte list list \<Rightarrow> byte list list \<Rightarrow>
    'a progstate_scheme \<Rightarrow> MatchState \<Rightarrow> int \<Rightarrow> 'a progstate_scheme \<Rightarrow> bool" where
  "stepped e opt f w t b ws ts s st' added s' \<longleftrightarrow>
     (\<exists>w' t' nw nt. scanned e opt f w' (word_so_far t') (ws @ nw) (ts @ nt) s' \<and>
        st' = (if t' = None then WHITESPACE else WORD) \<and> (t' \<noteq> None \<longrightarrow> w' = []) \<and> undisturbed f s s' \<and>
        nextValue (hash_table s') + pending t' \<le> nextValue (hash_table s) + pending t + 1 \<and>
        added = int (length nt) \<and>
        (\<forall>bs. tokenize (byte_category opt) w t (b # bs) =
           (nw @ fst (tokenize (byte_category opt) w' t' bs), nt @ snd (tokenize (byte_category opt) w' t' bs))))"

lemma space_end_word:
  assumes sc: "\<not> UTF8Mode e" and np: "\<not> paraDelim opt" and s: "scanned e opt f w [] ws ts s" "singleChar (charData s) = uint b"
  shows "\<exists>s'. bind_run (handleWhitespaceEnd e opt f s) (writeTokenChar e opt f) = Some (Inr s') \<and>
    scanned e opt f [] [b] (ws @ [w]) ts s' \<and> undisturbed f s s' \<and> nextValue (hash_table s') = nextValue (hash_table s) \<and>
    singleChar (charData s') = uint b"
proof -
  from handleWhitespaceEnd_ok [OF sc np s(1)] obtain s1 where
    s1: "handleWhitespaceEnd e opt f s = Some (Inr s1)" "scanned e opt f [] [] (ws @ [w]) ts s1" "undisturbed f s s1"
      "singleChar (charData s1) = singleChar (charData s)" "hash_table s1 = hash_table s" by blast
  from writeTokenChar_ok [OF sc s1(2), of b] s1(4) s(2) obtain s2 where
    s2: "writeTokenChar e opt f s1 = Some (Inr s2)" "scanned e opt f [] [b] (ws @ [w]) ts s2" "undisturbed f s1 s2"
      "nextValue (hash_table s2) = nextValue (hash_table s1)" "singleChar (charData s2) = uint b" by auto
  from s1 s2 undisturbed_trans [OF s1(3) s2(3)] show ?thesis by auto
qed

lemma delimiter_word:
  assumes sc: "\<not> UTF8Mode e" and np: "\<not> paraDelim opt" and s: "scanned e opt f w [] ws ts s" "singleChar (charData s) = uint b"
    and v: "nextValue (hash_table s) < VALUE_MAX"
  shows "\<exists>s'. bind_run (writeTokenChar e opt f s) (\<lambda>s1. bind_run (Some (writeEndOfToken f s1)) (handleWhitespaceEnd e opt f)) = Some (Inr s') \<and>
    scanned e opt f [] [] (ws @ [w]) (ts @ [[b]]) s' \<and> undisturbed f s s' \<and> nextValue (hash_table s') \<le> nextValue (hash_table s) + 1"
proof -
  from writeTokenChar_ok [OF sc s] obtain s1 where
    s1: "writeTokenChar e opt f s = Some (Inr s1)" "scanned e opt f w [b] ws ts s1" "undisturbed f s s1"
      "nextValue (hash_table s1) = nextValue (hash_table s)" by auto
  from writeEndOfToken_ok [OF s1(2)] s1(4) v obtain s2 where
    s2: "writeEndOfToken f s1 = Inr s2" "scanned e opt f w [] ws (ts @ [[b]]) s2" "undisturbed f s1 s2"
      "nextValue (hash_table s2) \<le> nextValue (hash_table s1) + 1" by auto
  from handleWhitespaceEnd_ok [OF sc np s2(2)] obtain s3 where
    s3: "handleWhitespaceEnd e opt f s2 = Some (Inr s3)" "scanned e opt f [] [] (ws @ [w]) (ts @ [[b]]) s3" "undisturbed f s2 s3"
      "hash_table s3 = hash_table s2" by blast
  from s1 s2 s3 undisturbed_trans [OF undisturbed_trans [OF s1(3) s2(3)] s3(3)] show ?thesis by auto
qed

lemma read_step_between:
  assumes sc: "\<not> UTF8Mode e" and np: "\<not> paraDelim opt" and s: "scanned e opt f w [] ws ts s" "singleChar (charData s) = uint b"
    and v: "nextValue (hash_table s) < VALUE_MAX" and st: "st \<noteq> WORD"
  shows "\<exists>st' wc' s'. read_step e opt f (byte_category opt b) st wc s = Some (Inr (st', wc', s')) \<and>
    stepped e opt f w None b ws ts s st' (wc' - wc + (if st = NONE \<and> byte_category opt b = CAT_DELIMITER then 1 else 0)) s'"
proof (cases "byte_category opt b")
  case CAT_WHITESPACE
  from writeWhitespaceChar_ok [OF sc s] obtain s1 where
    s1: "writeWhitespaceChar e s = Inr s1" "scanned e opt f (w @ [b]) [] ws ts s1" "undisturbed f s s1" "hash_table s1 = hash_table s" by blast
  have "stepped e opt f w None b ws ts s WHITESPACE 0 s1"
    unfolding stepped_def using s1(2-4) CAT_WHITESPACE
    by (intro exI [of _ "w @ [b]"] exI [of _ None] exI [of _ "[]"]) (simp add: word_so_far_def pending_def)
  with s1(1) st CAT_WHITESPACE show ?thesis by (cases st) (auto simp: read_step_def)
next
  case CAT_OTHER
  from space_end_word [OF sc np s] obtain s1 where
    s1: "bind_run (handleWhitespaceEnd e opt f s) (writeTokenChar e opt f) = Some (Inr s1)"
      "scanned e opt f [] [b] (ws @ [w]) ts s1" "undisturbed f s s1" "nextValue (hash_table s1) = nextValue (hash_table s)" by blast
  have "stepped e opt f w None b ws ts s WORD 0 s1"
    unfolding stepped_def using s1(2-4) CAT_OTHER
    by (intro exI [of _ "[]"] exI [of _ "Some [b]"] exI [of _ "[w]"] exI [of _ "[]"]) (simp add: word_so_far_def pending_def split_beta)
  moreover have "read_step e opt f CAT_OTHER st wc s =
      bind_run (bind_run (handleWhitespaceEnd e opt f s) (writeTokenChar e opt f)) (\<lambda>s1. Some (Inr (WORD, wc, s1)))"
    using st by (cases st) (simp_all add: read_step_def bind_run_assoc)
  ultimately show ?thesis using s1(1) CAT_OTHER by auto
next
  case CAT_DELIMITER
  let ?P = "\<lambda>s'. scanned e opt f [] [] (ws @ [w]) (ts @ [[b]]) s' \<and> undisturbed f s s' \<and> nextValue (hash_table s') \<le> nextValue (hash_table s) + 1"
  have step: "stepped e opt f w None b ws ts s WHITESPACE 1 s'" if "?P s'" for s'
    unfolding stepped_def using that CAT_DELIMITER
    by (intro exI [of _ "[]"] exI [of _ None] exI [of _ "[w]"] exI [of _ "[[b]]"]) (simp add: word_so_far_def pending_def split_beta)
  show ?thesis
  proof (cases "st = NONE")
    case True
    from space_end_word [OF sc np s] obtain s1 where
      s1: "bind_run (handleWhitespaceEnd e opt f s) (writeTokenChar e opt f) = Some (Inr s1)"
        "scanned e opt f [] [b] (ws @ [w]) ts s1" "undisturbed f s s1" "nextValue (hash_table s1) = nextValue (hash_table s)" by blast
    from writeEndOfToken_ok [OF s1(2)] s1(4) v obtain s2 where
      s2: "writeEndOfToken f s1 = Inr s2" "scanned e opt f [] [] (ws @ [w]) (ts @ [[b]]) s2" "undisturbed f s1 s2"
        "nextValue (hash_table s2) \<le> nextValue (hash_table s1) + 1" by auto
    have "read_step e opt f CAT_DELIMITER NONE wc s =
        bind_run (bind_run (handleWhitespaceEnd e opt f s) (writeTokenChar e opt f)) (\<lambda>s1.
          bind_run (Some (writeEndOfToken f s1)) (\<lambda>s2. Some (Inr (WHITESPACE, wc, s2))))"
      by (simp add: read_step_def bind_run_assoc)
    with True CAT_DELIMITER s1 s2 step [of s2] undisturbed_trans [OF s1(3) s2(3)] show ?thesis by auto
  next
    case False
    from delimiter_word [OF sc np s v] obtain s1 where
      s1: "bind_run (writeTokenChar e opt f s) (\<lambda>s1. bind_run (Some (writeEndOfToken f s1)) (handleWhitespaceEnd e opt f)) = Some (Inr s1)" "?P s1"
      by blast
    have "read_step e opt f CAT_DELIMITER WHITESPACE wc s =
        bind_run (bind_run (writeTokenChar e opt f s) (\<lambda>s1. bind_run (Some (writeEndOfToken f s1)) (handleWhitespaceEnd e opt f)))
          (\<lambda>s3. Some (Inr (WHITESPACE, wc + 1, s3)))"
      by (simp add: read_step_def bind_run_assoc)
    with False st CAT_DELIMITER s1 step [of s1] show ?thesis by (cases st) auto
  qed
qed

lemma read_step_word:
  assumes sc: "\<not> UTF8Mode e" and np: "\<not> paraDelim opt" and s: "scanned e opt f [] t ws ts s" "singleChar (charData s) = uint b"
    and v: "nextValue (hash_table s) + 1 < VALUE_MAX"
  shows "\<exists>st' wc' s'. read_step e opt f (byte_category opt b) WORD wc s = Some (Inr (st', wc', s')) \<and>
    stepped e opt f [] (Some t) b ws ts s st' (wc' - wc) s'"
proof (cases "byte_category opt b")
  case CAT_OTHER
  from writeTokenChar_ok [OF sc s] obtain s1 where
    s1: "writeTokenChar e opt f s = Some (Inr s1)" "scanned e opt f [] (t @ [b]) ws ts s1" "undisturbed f s s1"
      "nextValue (hash_table s1) = nextValue (hash_table s)" by auto
  have "stepped e opt f [] (Some t) b ws ts s WORD 0 s1"
    unfolding stepped_def using s1(2-4) CAT_OTHER
    by (intro exI [of _ "[]"] exI [of _ "Some (t @ [b])"] exI [of _ "[]"]) (simp add: word_so_far_def pending_def)
  with s1(1) CAT_OTHER show ?thesis by (auto simp: read_step_def)
next
  case CAT_WHITESPACE
  from writeEndOfToken_ok [OF s(1)] v obtain s1 where
    s1: "writeEndOfToken f s = Inr s1" "scanned e opt f [] [] ws (ts @ [t]) s1" "undisturbed f s s1"
      "singleChar (charData s1) = singleChar (charData s)" "nextValue (hash_table s1) \<le> nextValue (hash_table s) + 1" by auto
  from writeWhitespaceChar_ok [OF sc s1(2), of b] s1(4) s(2) obtain s2 where
    s2: "writeWhitespaceChar e s1 = Inr s2" "scanned e opt f [b] [] ws (ts @ [t]) s2" "undisturbed f s1 s2" "hash_table s2 = hash_table s1"
    by auto
  have "stepped e opt f [] (Some t) b ws ts s WHITESPACE 1 s2"
    unfolding stepped_def using s1(5) s2(2-4) CAT_WHITESPACE undisturbed_trans [OF s1(3) s2(3)]
    by (intro exI [of _ "[b]"] exI [of _ None] exI [of _ "[]"] exI [of _ "[t]"]) (simp add: word_so_far_def pending_def split_beta)
  with s1(1) s2(1) CAT_WHITESPACE show ?thesis by (auto simp: read_step_def)
next
  case CAT_DELIMITER
  from writeEndOfToken_ok [OF s(1)] v obtain s1 where
    s1: "writeEndOfToken f s = Inr s1" "scanned e opt f [] [] ws (ts @ [t]) s1" "undisturbed f s s1"
      "singleChar (charData s1) = singleChar (charData s)" "nextValue (hash_table s1) \<le> nextValue (hash_table s) + 1" by auto
  from delimiter_word [OF sc np s1(2), of b] s1(4,5) s(2) v obtain s2 where
    s2: "bind_run (writeTokenChar e opt f s1) (\<lambda>s1. bind_run (Some (writeEndOfToken f s1)) (handleWhitespaceEnd e opt f)) = Some (Inr s2)"
      "scanned e opt f [] [] (ws @ [[]]) ((ts @ [t]) @ [[b]]) s2" "undisturbed f s1 s2" "nextValue (hash_table s2) \<le> nextValue (hash_table s1) + 1"
    by auto
  have "stepped e opt f [] (Some t) b ws ts s WHITESPACE 2 s2"
    unfolding stepped_def using s1(5) s2(2-4) CAT_DELIMITER undisturbed_trans [OF s1(3) s2(3)]
    by (intro exI [of _ "[]"] exI [of _ None] exI [of _ "[[]]"] exI [of _ "[t, [b]]"]) (simp add: word_so_far_def pending_def split_beta)
  moreover have "read_step e opt f CAT_DELIMITER WORD wc s =
      bind_run (Some (writeEndOfToken f s)) (\<lambda>s1.
        bind_run (bind_run (writeTokenChar e opt f s1) (\<lambda>s2. bind_run (Some (writeEndOfToken f s2)) (handleWhitespaceEnd e opt f)))
          (\<lambda>s4. Some (Inr (WHITESPACE, wc + 2, s4))))"
    by (simp add: read_step_def bind_run_assoc)
  ultimately show ?thesis using s1(1) s2(1) CAT_DELIMITER by auto
qed

section \<open>The whole file\<close>

definition in_stream :: "Stream \<Rightarrow> byte list \<Rightarrow> bool" where
  "in_stream strm bs \<longleftrightarrow> (\<exists>f. sdata strm = FileData f \<and> reading f \<and> to_read f = bs)"

lemma getNextChar_byte:
  assumes "\<not> UTF8Mode e" "in_stream strm (b # bs)"
  shows "\<exists>strm'. getNextChar e opt strm s = Some (Inr (True, strm', s\<lparr>charData := (charData s)\<lparr>singleChar := uint b\<rparr>\<rparr>)) \<and> in_stream strm' bs"
proof -
  from assms(2) obtain f where f: "sdata strm = FileData f" "reading f" "to_read f = b # bs" by (auto simp: in_stream_def)
  from fileGetc_byte [OF f(2,3)] f(1) assms(1) show ?thesis
    by (auto simp: getNextChar_def getNextCharSC_def sgetc_def in_stream_def)
qed

lemma getNextChar_end:
  assumes "\<not> UTF8Mode e" "in_stream strm []"
  shows "\<exists>strm'. getNextChar e opt strm s = Some (Inr (False, strm', s\<lparr>charData := (charData s)\<lparr>singleChar := EOF\<rparr>\<rparr>)) \<and> in_stream strm' []"
proof -
  from assms(2) obtain f where f: "sdata strm = FileData f" "reading f" "to_read f = []" by (auto simp: in_stream_def)
  from fileGetc_eof [OF f(2,3)] f(1) assms(1) show ?thesis
    by (auto simp: getNextChar_def getNextCharSC_def sgetc_def in_stream_def)
qed

lemma scanned_char [simp]: "scanned e opt f w t ws ts (s\<lparr>charData := c\<rparr>) = scanned e opt f w t ws ts s"
  by (simp add: scanned_def)

lemma undisturbed_char [simp]: "undisturbed f s (s'\<lparr>charData := c\<rparr>) = undisturbed f s s'"
  "undisturbed f (s\<lparr>charData := c\<rparr>) s' = undisturbed f s s'"
  by (simp_all add: undisturbed_def)

definition first_delimiter :: "option_t \<Rightarrow> MatchState \<Rightarrow> byte list \<Rightarrow> int" where
  "first_delimiter opt st bs = (if st = NONE \<and> bs \<noteq> [] \<and> byte_category opt (hd bs) = CAT_DELIMITER then 1 else 0)"

lemma read_loop_ok:
  assumes sc: "\<not> UTF8Mode e" and np: "\<not> paraDelim opt"
  shows "in_stream input bs \<Longrightarrow> scanned e opt f w (word_so_far t) ws ts s \<Longrightarrow> (st = WORD) = (t \<noteq> None) \<Longrightarrow> (t \<noteq> None \<longrightarrow> w = []) \<Longrightarrow>
    nextValue (hash_table s) + pending t + int (length bs) < VALUE_MAX \<Longrightarrow>
    \<exists>st' wc' input' s' w' t' ws' ts'. read_loop e opt f st wc input s = Some (Inr (st', wc', input', s')) \<and>
      in_stream input' [] \<and> scanned e opt f w' (word_so_far t') ws' ts' s' \<and> (st' = WORD) = (t' \<noteq> None) \<and> undisturbed f s s' \<and>
      nextValue (hash_table s') + pending t' \<le> nextValue (hash_table s) + pending t + int (length bs) \<and>
      ws' @ [w'] = ws @ fst (tokenize (byte_category opt) w t bs) \<and>
      ts' @ (case t' of None \<Rightarrow> [] | Some u \<Rightarrow> [u]) = ts @ snd (tokenize (byte_category opt) w t bs) \<and>
      wc' + pending t' = wc + int (length (snd (tokenize (byte_category opt) w t bs))) - first_delimiter opt st bs"
proof (induction bs arbitrary: st wc input s w t ws ts)
  case Nil
  from getNextChar_end [OF sc Nil(1), of opt s] obtain strm' where
    g: "getNextChar e opt input s = Some (Inr (False, strm', s\<lparr>charData := (charData s)\<lparr>singleChar := EOF\<rparr>\<rparr>))" "in_stream strm' []"
    by blast
  let ?s = "s\<lparr>charData := (charData s)\<lparr>singleChar := EOF\<rparr>\<rparr>"
  have "read_loop e opt f st wc input s = Some (Inr (st, wc, strm', ?s))" by (subst read_loop.simps) (simp add: g(1))
  with g(2) Nil show ?case
    by (intro exI [of _ st] exI [of _ wc] exI [of _ strm'] exI [of _ ?s] exI [of _ w] exI [of _ t] exI [of _ ws] exI [of _ ts])
      (cases t; simp add: pending_def first_delimiter_def)
next
  case (Cons b bs)
  let ?cat = "byte_category opt"
  from getNextChar_byte [OF sc Cons.prems(1), of opt s] obtain strm1 where
    g: "getNextChar e opt input s = Some (Inr (True, strm1, s\<lparr>charData := (charData s)\<lparr>singleChar := uint b\<rparr>\<rparr>))" "in_stream strm1 bs"
    by blast
  define s1 where "s1 = s\<lparr>charData := (charData s)\<lparr>singleChar := uint b\<rparr>\<rparr>"
  have s1: "scanned e opt f w (word_so_far t) ws ts s1" "singleChar (charData s1) = uint b" "hash_table s1 = hash_table s"
    using Cons.prems(2) by (simp_all add: s1_def)
  have "\<exists>st' wc' s'. read_step e opt f (?cat b) st wc s1 = Some (Inr (st', wc', s')) \<and>
      stepped e opt f w t b ws ts s1 st' (wc' - wc + first_delimiter opt st (b # bs)) s'"
  proof (cases t)
    case None
    have "nextValue (hash_table s1) < VALUE_MAX" using Cons.prems(5) s1(3) None by (simp add: pending_def)
    with read_step_between [OF sc np _ s1(2), of f w ws ts st wc] None s1(1) Cons.prems(3) show ?thesis
      by (simp add: word_so_far_def first_delimiter_def)
  next
    case (Some u)
    then have "st = WORD" "w = []" using Cons.prems(3,4) by auto
    have "nextValue (hash_table s1) + 1 < VALUE_MAX" using Cons.prems(5) s1(3) Some by (simp add: pending_def)
    with read_step_word [OF sc np _ s1(2), of f u ws ts wc] Some s1(1) \<open>st = WORD\<close> \<open>w = []\<close> show ?thesis
      by (simp add: word_so_far_def first_delimiter_def)
  qed
  then obtain st1 wc1 s2 w1 t1 nw nt where
    r: "read_step e opt f (?cat b) st wc s1 = Some (Inr (st1, wc1, s2))"
      "scanned e opt f w1 (word_so_far t1) (ws @ nw) (ts @ nt) s2" "st1 = (if t1 = None then WHITESPACE else WORD)"
      "t1 \<noteq> None \<longrightarrow> w1 = []" "undisturbed f s1 s2"
      "nextValue (hash_table s2) + pending t1 \<le> nextValue (hash_table s1) + pending t + 1"
      "wc1 - wc + first_delimiter opt st (b # bs) = int (length nt)"
      "\<And>bs. tokenize ?cat w t (b # bs) = (nw @ fst (tokenize ?cat w1 t1 bs), nt @ snd (tokenize ?cat w1 t1 bs))"
    unfolding stepped_def by blast
  have "nextValue (hash_table s2) + pending t1 + int (length bs) < VALUE_MAX" using r(6) s1(3) Cons.prems(5) by simp
  moreover have "(st1 = WORD) = (t1 \<noteq> None)" using r(3) by simp
  ultimately obtain st' wc' input' s' w' t' ws' ts' where
    i: "read_loop e opt f st1 wc1 strm1 s2 = Some (Inr (st', wc', input', s'))" "in_stream input' []"
      "scanned e opt f w' (word_so_far t') ws' ts' s'" "(st' = WORD) = (t' \<noteq> None)" "undisturbed f s2 s'"
      "nextValue (hash_table s') + pending t' \<le> nextValue (hash_table s2) + pending t1 + int (length bs)"
      "ws' @ [w'] = (ws @ nw) @ fst (tokenize ?cat w1 t1 bs)"
      "ts' @ (case t' of None \<Rightarrow> [] | Some u \<Rightarrow> [u]) = (ts @ nt) @ snd (tokenize ?cat w1 t1 bs)"
      "wc' + pending t' = wc1 + int (length (snd (tokenize ?cat w1 t1 bs))) - first_delimiter opt st1 bs"
    using Cons.IH [OF g(2) r(2) _ r(4), of st1 wc1] by blast
  have "first_delimiter opt st1 bs = 0" using r(3) by (simp add: first_delimiter_def)
  moreover have "read_loop e opt f st wc input s = Some (Inr (st', wc', input', s'))"
    by (subst read_loop.simps) (use g(1) r(1) i(1) s1(2) in \<open>simp add: classifyChar_byte [OF sc] flip: s1_def\<close>)
  moreover have "undisturbed f s s'" using undisturbed_trans [OF r(5) i(5)] by (simp add: s1_def)
  ultimately show ?case
    using i(2-4,6-9) r(6,7) s1(3)
    by (intro exI [of _ st'] exI [of _ wc'] exI [of _ input'] exI [of _ s'] exI [of _ w'] exI [of _ t'] exI [of _ ws'] exI [of _ ts'] conjI)
      (simp_all add: r(8))
qed

lemma next_temp_ok:
  assumes "mkstemps s = Some (n, ws) # ms" "openIndex (temps s) < length (files (temps s))" "writes_ok ws"
  shows "\<exists>t strm i. next_temp s = Inr (Some (i, strm), s\<lparr>temps := t, mkstemps := ms\<rparr>) \<and> wstream strm [] \<and>
    openIndex t = openIndex (temps s) + 1 \<and> length (files t) = length (files (temps s)) \<and> disk t = (disk (temps s))(n \<mapsto> [])"
proof -
  let ?i = "openIndex (temps s)"
  let ?t = "(temps s)\<lparr>inited := True, files := (files (temps s))[?i := (files (temps s) ! ?i)\<lparr>tname := n\<rparr>],
    openIndex := Suc ?i, disk := (disk (temps s))(n \<mapsto> [])\<rparr>"
  show ?thesis
    using assms
    by (intro exI [of _ ?t] exI [of _ "initStreamDefault (FileData (fileWrapFD [] ws FILE_WRITE))"] exI [of _ ?i])
      (simp add: next_temp_def tempFile_def Let_def wstream_def initStreamDefault_def fileWrapFD_def writing_def written_def)
qed

text \<open>The state before a file is read.\<close>

definition readable :: "side \<Rightarrow> byte list \<Rightarrow> byte list \<Rightarrow> 'a progstate_scheme \<Rightarrow> bool" where
  "readable f name bs s \<longleftrightarrow> iname (get_file f s) = Some name \<and> disk (temps s) name = Some bs \<and>
     \<not> whitespaceBufferUsed (get_file f s)"

definition temps_left :: "nat \<Rightarrow> 'a progstate_scheme \<Rightarrow> bool" where
  "temps_left n s \<longleftrightarrow> openIndex (temps s) + n \<le> length (files (temps s)) \<and> n \<le> length (mkstemps s) \<and>
     (\<forall>m \<in> set (take n (mkstemps s)). \<exists>name ws. m = Some (name, ws) \<and> writes_ok ws)"

definition temp_names :: "nat \<Rightarrow> 'a progstate_scheme \<Rightarrow> byte list set" where
  "temp_names n s = {name. \<exists>ws. Some (name, ws) \<in> set (take n (mkstemps s))}"

definition fresh_buffers :: "'a progstate_scheme \<Rightarrow> bool" where
  "fresh_buffers s \<longleftrightarrow> vdata (whitespaceBuffer s) = [] \<and> vdata (currentWord s) = [] \<and> hash_wf (hash_table s)"

lemma open_input_ok:
  assumes "readable f name bs s" "os_ok w"
  shows "\<exists>strm. open_input w (disk (temps s)) (get_file f s) = Inr strm \<and> in_stream strm bs"
  using assms
  by (auto simp: readable_def open_input_def fileOpen_def newFileStream_def in_stream_def initStreamDefault_def
      os_ok_def reading_def to_read_def fileWrapFD_def)

text \<open>What two calls of \<open>tempFile\<close> leave.\<close>

lemma two_temps_ok:
  assumes "temps_left (2 + n) s"
  shows "\<exists>t1 i1 strm1 ms1 t2 i2 strm2. next_temp s = Inr (Some (i1, strm1), s\<lparr>temps := t1, mkstemps := ms1\<rparr>) \<and> wstream strm1 [] \<and>
    next_temp (s\<lparr>temps := t1, mkstemps := ms1\<rparr>) = Inr (Some (i2, strm2), s\<lparr>temps := t2, mkstemps := drop 2 (mkstemps s)\<rparr>) \<and>
    wstream strm2 [] \<and> temps_left n (s\<lparr>temps := t2, mkstemps := drop 2 (mkstemps s)\<rparr>) \<and>
    (\<forall>x. x \<notin> temp_names 2 s \<longrightarrow> disk t2 x = disk (temps s) x)"
proof -
  from assms have "2 \<le> length (mkstemps s)" by (simp add: temps_left_def)
  then obtain m1 m2 ms where m: "mkstemps s = m1 # m2 # ms" by (cases "mkstemps s"; cases "tl (mkstemps s)") auto
  from assms m obtain n1 e1 n2 e2 where nn: "m1 = Some (n1, e1)" "m2 = Some (n2, e2)" "writes_ok e1" "writes_ok e2"
    by (auto simp: temps_left_def)
  have l: "openIndex (temps s) + 2 \<le> length (files (temps s))" using assms by (simp add: temps_left_def)
  from next_temp_ok [of s n1 e1 "m2 # ms"] m nn l obtain t1 strm1 i1 where
    t1: "next_temp s = Inr (Some (i1, strm1), s\<lparr>temps := t1, mkstemps := m2 # ms\<rparr>)" "wstream strm1 []"
      "openIndex t1 = openIndex (temps s) + 1" "length (files t1) = length (files (temps s))" "disk t1 = (disk (temps s))(n1 \<mapsto> [])"
    by auto
  from next_temp_ok [of "s\<lparr>temps := t1, mkstemps := m2 # ms\<rparr>" n2 e2 ms] nn t1 l obtain t2 strm2 i2 where
    t2: "next_temp (s\<lparr>temps := t1, mkstemps := m2 # ms\<rparr>) = Inr (Some (i2, strm2), s\<lparr>temps := t2, mkstemps := ms\<rparr>)" "wstream strm2 []"
      "openIndex t2 = openIndex t1 + 1" "length (files t2) = length (files t1)" "disk t2 = (disk t1)(n2 \<mapsto> [])"
    by auto
  have "temps_left n (s\<lparr>temps := t2, mkstemps := ms\<rparr>)"
    using assms m t1(3,4) t2(3,4) by (auto simp: temps_left_def)
  moreover have "\<forall>x. x \<notin> temp_names 2 s \<longrightarrow> disk t2 x = disk (temps s) x"
    using m nn t1(5) t2(5) by (auto simp: temp_names_def numeral_2_eq_2)
  ultimately show ?thesis using t1(1,2) t2(1,2) m
    by (intro exI [of _ t1] exI [of _ i1] exI [of _ strm1] exI [of _ "m2 # ms"] exI [of _ t2] exI [of _ i2] exI [of _ strm2]) simp
qed

lemma readFile_ok:
  assumes sc: "\<not> UTF8Mode e" and np: "\<not> paraDelim opt" and os: "os_ok w"
    and r: "readable f name bs s" "temps_left (2 + n) s" "fresh_buffers s"
    and v: "nextValue (hash_table s) + int (length bs) < VALUE_MAX"
  defines "ts \<equiv> words_of (byte_category opt) bs"
  shows "\<exists>s'. readFile w e opt f s = Some (Inr (int (length ts) - first_delimiter opt NONE bs, s')) \<and>
    file_at (get_file f s') None (spaces_of (byte_category opt) bs) ts \<and>
    map Some (vdata (diffTokens (get_file f s'))) = map (lookup_word (hash_table s')) (map (map (low e opt)) ts) \<and>
    nextValue (hash_table s') \<le> nextValue (hash_table s) + int (length bs) \<and> fresh_buffers s' \<and> temps_left n s' \<and>
    mkstemps s' = drop 2 (mkstemps s) \<and> (\<forall>x. x \<notin> temp_names 2 s \<longrightarrow> disk (temps s') x = disk (temps s) x) \<and>
    undisturbed f (s\<lparr>temps := temps s', mkstemps := mkstemps s'\<rparr>) s'"
proof -
  from open_input_ok [OF r(1) os] obtain input where
    input: "open_input w (disk (temps s)) (get_file f s) = Inr input" "in_stream input bs" by blast
  from two_temps_ok [OF r(2)] obtain t1 i1 strm1 ms1 t2 i2 strm2 where
    tm: "next_temp s = Inr (Some (i1, strm1), s\<lparr>temps := t1, mkstemps := ms1\<rparr>)" "wstream strm1 []"
      "next_temp (s\<lparr>temps := t1, mkstemps := ms1\<rparr>) = Inr (Some (i2, strm2), s\<lparr>temps := t2, mkstemps := drop 2 (mkstemps s)\<rparr>)"
      "wstream strm2 []" "temps_left n (s\<lparr>temps := t2, mkstemps := drop 2 (mkstemps s)\<rparr>)"
      "\<And>x. x \<notin> temp_names 2 s \<Longrightarrow> disk t2 x = disk (temps s) x" by blast
  define s2 where "s2 = s\<lparr>temps := t2, mkstemps := drop 2 (mkstemps s)\<rparr>"
  define s3 where "s3 = set_file f ((get_file f s2)\<lparr>itokens := strm1, iwhitespace := strm2, diffTokens := VECTOR_INIT\<rparr>) s2\<lparr>tokenWritten := False\<rparr>"
  have s3: "scanned e opt f [] (word_so_far None) [] [] s3" "nextValue (hash_table s3) + pending None + int (length bs) < VALUE_MAX"
    "undisturbed f s2 s3" "hash_table s3 = hash_table s"
    using r(3) tm(2,4) v by (auto simp: scanned_def fresh_buffers_def s3_def s2_def word_so_far_def pending_def undisturbed_def)
  from read_loop_ok [OF sc np input(2) s3(1) _ _ s3(2), of NONE 0] obtain st' wc' input' s4 w' t' ws' ts' where
    l: "read_loop e opt f NONE 0 input s3 = Some (Inr (st', wc', input', s4))" "in_stream input' []"
      "scanned e opt f w' (word_so_far t') ws' ts' s4" "(st' = WORD) = (t' \<noteq> None)" "undisturbed f s3 s4"
      "nextValue (hash_table s4) + pending t' \<le> nextValue (hash_table s3) + int (length bs)"
      "ws' @ [w'] = spaces_of (byte_category opt) bs" "ts' @ (case t' of None \<Rightarrow> [] | Some u \<Rightarrow> [u]) = ts"
      "wc' + pending t' = int (length ts) - first_delimiter opt NONE bs"
    by (auto simp: ts_def spaces_of_def words_of_def pending_def)
  from handleWhitespaceEnd_ok [OF sc np l(3)] obtain s5 where
    s5: "handleWhitespaceEnd e opt f s4 = Some (Inr s5)" "scanned e opt f [] (word_so_far t') (ws' @ [w']) ts' s5" "undisturbed f s4 s5"
      "hash_table s5 = hash_table s4" by blast
  obtain s6 where s6: "(if st' = WORD then bind_res (writeEndOfToken f s5) (\<lambda>s'. Inr (wc' + 1, s')) else Inr (wc', s5)) = Inr (wc' + pending t', s6)"
    "scanned e opt f [] [] (ws' @ [w']) ts s6" "undisturbed f s5 s6" "nextValue (hash_table s6) \<le> nextValue (hash_table s5) + pending t'"
  proof (cases t')
    case None
    with that [of s5] s5(2) l(4,8) show ?thesis by (simp add: word_so_far_def pending_def)
  next
    case (Some u)
    have "nextValue (hash_table s5) < VALUE_MAX" using l(6) s3(4) s5(4) v Some by (simp add: pending_def)
    from writeEndOfToken_ok [OF s5(2) this] that l(4,8) Some show ?thesis by (auto simp: word_so_far_def pending_def)
  qed
  from s6(2) have fin: "wstream (iwhitespace (get_file f s6)) (pieces (ws' @ [w']))" "wstream (itokens (get_file f s6)) (pieces ts)"
    by (simp_all add: scanned_def)
  from finish_temp_ok [OF fin(1) os] finish_temp_ok [OF fin(2) os] obtain wstrm tstrm where
    fs: "finish_temp w (iwhitespace (get_file f s6)) = Inr wstrm" "open_stream wstrm (pieces (ws' @ [w']))" "isFileStream wstrm"
      "finish_temp w (itokens (get_file f s6)) = Inr tstrm" "open_stream tstrm (pieces ts)" "isFileStream tstrm" by blast
  define s7 where "s7 = set_file f ((get_file f s6)\<lparr>iinput := None, iwhitespace := wstrm, itokens := tstrm\<rparr>) s6"
  have un: "undisturbed f s2 s7"
    using undisturbed_trans [OF undisturbed_trans [OF undisturbed_trans [OF s3(3) l(5)] s5(3)] s6(3)]
    by (simp add: undisturbed_def s7_def)
  have cl: "\<not> sferror input'" "\<exists>x. sfclose (os_close w) input' = Inr x"
    using l(2) by (auto simp: in_stream_def sferror_def fileError_def reading_def sfclose_def fileClose_def flushBuffer_def)
  have "readFile w e opt f s = Some (Inr (wc' + pending t', s7))"
    using input(1) tm(1,3) l(1) s5(1) s6(1) cl fs(1,4)
    by (auto simp: readFile_def fatal_temp_def s7_def s3_def s2_def Let_def)
  moreover have "file_at (get_file f s7) None (spaces_of (byte_category opt) bs) ts"
    using fs un r(1) l(7) by (simp add: file_at_def s7_def undisturbed_def s2_def readable_def)
  moreover have "map Some (vdata (diffTokens (get_file f s7))) = map (lookup_word (hash_table s7)) (map (map (low e opt)) ts)"
    "fresh_buffers s7" using s6(2) by (simp_all add: scanned_def s7_def fresh_buffers_def)
  moreover have "nextValue (hash_table s7) \<le> nextValue (hash_table s) + int (length bs)"
    using s6(4) s5(4) l(6) s3(4) by (simp add: s7_def)
  moreover have "temps s7 = t2" "mkstemps s7 = drop 2 (mkstemps s)" using un by (simp_all add: undisturbed_def s2_def)
  moreover from this have "temps_left n s7" using tm(5) by (simp add: temps_left_def)
  ultimately show ?thesis using tm(6) un l(9) by (auto simp: s2_def)
qed

end
