(* ===== verification/Program.thy ===== *)
theory Program
  imports Reading
begin

text \<open>
  The whole program on two files of single bytes, from the state in which the options have been
  read: the files are split into words and white space, the numbers of the words are compared,
  and the script is rendered. The parameters are the file system, the results of \<open>mkstemp\<close> and
  the operating system's behaviour when it reads and writes.
\<close>

section \<open>The initial state\<close>

text \<open>The static variables; the streams of the files are null pointers until they are set.\<close>

definition initial_file :: "byte list \<Rightarrow> InputFile" where
  "initial_file name =
     \<lparr>iname = Some name, iinput = None, diffTokens = VECTOR_INIT, itokens = newStringStream [],
      iwhitespace = newStringStream [], lastPrinted = 0, iwhitespaceBuffer = VECTOR_INIT, whitespaceBufferUsed = False\<rparr>"

definition initial_state :: "disk \<Rightarrow> mkstemp_result list \<Rightarrow> byte list \<Rightarrow> byte list \<Rightarrow> progstate" where
  "initial_state d ms name0 name1 =
     \<lparr>contextBuffers = [], pstate = PRE_BUFFERING_INITIAL, ring_index = 0, afterContextLines = 0,
      stdout_bytes = [], outfile_bytes = [], oldLineNumber = 1, newLineNumber = 1,
      lastWasLinefeed = True, lastWasDelete = False, lastWasCarriageReturn = False,
      charData = \<lparr>singleChar = 0, original = VECTOR_INIT, converted = VECTOR_INIT, casefolded = VECTOR_INIT\<rparr>,
      oldFile = initial_file name0, newFile = initial_file name1,
      statistics = \<lparr>stat_added = 0, stat_deleted = 0, oldChanged = 0, newChanged = 0, oldTotal = 0, newTotal = 0\<rparr>,
      differences = 0, hash_table = init_hash, baseHashMax = 0,
      currentWord = VECTOR_INIT, whitespaceBuffer = VECTOR_INIT, tokenWritten = False,
      temps = init_temps d, mkstemps = ms\<rparr>"

text \<open>
  Four temporary files can be created and written; \<open>mkstemp\<close> creates a file that did not exist.
\<close>

definition mkstemp_ok :: "disk \<Rightarrow> mkstemp_result list \<Rightarrow> bool" where
  "mkstemp_ok d ms \<longleftrightarrow> length ms = 4 \<and> (\<forall>m \<in> set ms. \<exists>name ws. m = Some (name, ws) \<and> writes_ok ws \<and> d name = None)"

section \<open>Scripts on numbers and on words\<close>

lemma slice_map: "slice i j (map g xs) = map g (slice i j xs)"
  by (simp add: slice_def take_map drop_map)

lemma set_slice: "set (slice i j xs) \<subseteq> set xs"
  unfolding slice_def by (meson order_trans set_drop_subset set_take_subset)

lemma script_ok_map:
  "inj_on g (set xs \<union> set ys) \<Longrightarrow> script_ok n0 n1 chs (map g xs) (map g ys) \<longleftrightarrow> script_ok n0 n1 chs xs ys"
proof (induction chs arbitrary: n0 n1)
  have eq: "map g (slice i j xs) = map g (slice k l ys) \<longleftrightarrow> slice i j xs = slice k l ys"
    if "inj_on g (set xs \<union> set ys)" for i j k l
    by (rule inj_on_map_eq_map [OF inj_on_subset [OF that]]) (use set_slice in fast)
  case Nil
  then show ?case using eq by (simp add: slice_map)
next
  have eq: "map g (slice i j xs) = map g (slice k l ys) \<longleftrightarrow> slice i j xs = slice k l ys"
    if "inj_on g (set xs \<union> set ys)" for i j k l
    by (rule inj_on_map_eq_map [OF inj_on_subset [OF that]]) (use set_slice in fast)
  case (Cons c chs)
  then show ?case using eq by (simp add: slice_map)
qed

lemma numbers_of_words:
  assumes "hash_wf h" "map Some vs = map (lookup_word h) ks" "map Some us = map (lookup_word h) js"
  shows "script_ok n0 n1 chs vs us \<longleftrightarrow> script_ok n0 n1 chs ks js" "vs = us \<longleftrightarrow> ks = js"
    "\<forall>v \<in> set vs \<union> set us. 0 \<le> v \<and> v < nextValue h"
proof -
  let ?g = "\<lambda>k. the (lookup_word h k)"
  have d: "lookup_word h k = Some (?g k)" if "k \<in> set ks \<union> set js" for k
  proof -
    have "lookup_word h k \<in> set (map Some vs) \<union> set (map Some us)" using that assms(2,3) by auto
    then show ?thesis by auto
  qed
  have g: "vs = map ?g ks" "us = map ?g js"
    using arg_cong [OF assms(2), of "map the"] arg_cong [OF assms(3), of "map the"] by (simp_all add: comp_def)
  have inj: "inj_on ?g (set ks \<union> set js)"
    by (rule inj_onI) (metis d hash_wf_injective [OF assms(1)])
  show "script_ok n0 n1 chs vs us \<longleftrightarrow> script_ok n0 n1 chs ks js" unfolding g by (rule script_ok_map [OF inj])
  show "vs = us \<longleftrightarrow> ks = js" unfolding g by (rule inj_on_map_eq_map [OF inj])
  show "\<forall>v \<in> set vs \<union> set us. 0 \<le> v \<and> v < nextValue h"
    unfolding g using d hash_wf_bounded [OF assms(1)] by fastforce
qed

text \<open>The words of a text as they are compared.\<close>

definition keys :: "env \<Rightarrow> option_t \<Rightarrow> byte list \<Rightarrow> byte list list" where
  "keys e opt bs = map (map (low e opt)) (words_of (byte_category opt) bs)"

lemma length_keys: "length (keys e opt bs) \<le> length bs"
proof -
  have "length ts \<le> length (interleave ws ts)" if "\<forall>t \<in> set ts. t \<noteq> []" "length ts \<le> length ws" for ws ts
    using that
  proof (induction ts arbitrary: ws)
    case (Cons t ts)
    then obtain w v where ws: "ws = w # v" "length ts \<le> length v" by (cases ws) auto
    from Cons.IH [OF _ ws(2)] Cons.prems(1) have "length ts \<le> length (interleave v ts)" "0 < length t" by auto
    with ws show ?case by (cases t) simp_all
  qed simp
  moreover have "\<forall>t \<in> set (words_of (byte_category opt) bs). t \<noteq> []"
    using tokenize_words [of None "byte_category opt" "[]" bs] by (auto simp: words_of_def word_shape_def)
  ultimately have "length (words_of (byte_category opt) bs) \<le>
      length (interleave (spaces_of (byte_category opt) bs) (words_of (byte_category opt) bs))"
    using tokens_text(1) [of "byte_category opt" bs] by simp
  also have "\<dots> \<le> length bs"
    using arg_cong [OF tokens_text(2) [of "byte_category opt" bs], of length] by simp
  finally show ?thesis by (simp add: keys_def)
qed

section \<open>The program\<close>

lemma esc_clean: "0 \<notin> set w \<Longrightarrow> 1 \<notin> set w \<Longrightarrow> esc w = w"
  by (induction w) auto

lemma spaces_clean:
  assumes "byte_category opt 0 \<noteq> CAT_WHITESPACE" "byte_category opt 1 \<noteq> CAT_WHITESPACE" "w \<in> set (spaces_of (byte_category opt) bs)"
  shows "esc w = w"
proof (rule esc_clean)
  have "set w \<subseteq> {b. byte_category opt b = CAT_WHITESPACE}"
    using tokenize_space [of "[]" "byte_category opt" None bs] assms(3) by (auto simp: spaces_of_def)
  with assms(1,2) show "0 \<notin> set w" "1 \<notin> set w" by auto
qed

text \<open>The situation of the program when it starts on two files.\<close>

definition start_ok :: "os \<Rightarrow> env \<Rightarrow> option_t \<Rightarrow> disk \<Rightarrow> mkstemp_result list \<Rightarrow> byte list \<Rightarrow> byte list \<Rightarrow> byte list \<Rightarrow> byte list \<Rightarrow> bool" where
  "start_ok w e opt d ms name0 bs0 name1 bs1 \<longleftrightarrow>
     \<not> UTF8Mode e \<and> \<not> paraDelim opt \<and> matchContext opt = 0 \<and> \<not> diffInput opt \<and> os_ok w \<and> mkstemp_ok d ms \<and>
     d name0 = Some bs0 \<and> d name1 = Some bs1 \<and> int (length bs0) + int (length bs1) < OFFSET_MAX \<and>
     byte_category opt 0 \<noteq> CAT_WHITESPACE \<and> byte_category opt 1 \<noteq> CAT_WHITESPACE"

text \<open>After both files have been read.\<close>

lemma both_files_read:
  assumes "start_ok w e opt d ms name0 bs0 name1 bs1"
  defines "cat \<equiv> byte_category opt"
  shows "\<exists>s2 h. prepareAndExecuteDiff w mem e opt (initial_state d ms name0 name1) = doDiff mem e opt s2 \<and>
    file_at (oldFile s2) None (spaces_of cat bs0) (words_of cat bs0) \<and> file_at (newFile s2) None (spaces_of cat bs1) (words_of cat bs1) \<and>
    map Some (vdata (diffTokens (oldFile s2))) = map (lookup_word h) (keys e opt bs0) \<and>
    map Some (vdata (diffTokens (newFile s2))) = map (lookup_word h) (keys e opt bs1) \<and> hash_wf h \<and> baseHashMax s2 = nextValue h \<and>
    stdout_bytes s2 = [] \<and> oldLineNumber s2 = 1 \<and> newLineNumber s2 = 1 \<and> \<not> lastWasDelete s2 \<and> differences s2 = 0 \<and>
    statistics s2 = \<lparr>stat_added = 0, stat_deleted = 0, oldChanged = 0, newChanged = 0,
      oldTotal = int (length (words_of cat bs0)) - first_delimiter opt NONE bs0,
      newTotal = int (length (words_of cat bs1)) - first_delimiter opt NONE bs1\<rparr>"
proof -
  let ?s = "initial_state d ms name0 name1"
  from assms(1) have a: "\<not> UTF8Mode e" "\<not> paraDelim opt" "os_ok w" "mkstemp_ok d ms" "d name0 = Some bs0" "d name1 = Some bs1"
    "int (length bs0) + int (length bs1) < OFFSET_MAX" by (simp_all add: start_ok_def)
  have ms: "length ms = 4" "\<And>m. m \<in> set ms \<Longrightarrow> \<exists>name ws. m = Some (name, ws) \<and> writes_ok ws \<and> d name = None"
    using a(4) by (auto simp: mkstemp_ok_def)
  have ex_writes: "\<exists>name ws. m = Some (name, ws) \<and> writes_ok ws \<and> d name = None \<Longrightarrow> \<exists>name ws. m = Some (name, ws) \<and> writes_ok ws" for m
    by blast
  have r0: "readable Old name0 bs0 ?s" "temps_left (2 + 2) ?s" "fresh_buffers ?s"
    using a(5) ms(1) ms(2) [THEN ex_writes]
    by (auto simp: readable_def initial_state_def initial_file_def get_file_def init_temps_def temps_left_def fresh_buffers_def hash_wf_init)
  have v0: "nextValue (hash_table ?s) + int (length bs0) < VALUE_MAX"
    using a(7) by (simp add: initial_state_def init_hash_def VALUE_MAX_def OFFSET_MAX_def)
  from readFile_ok [OF a(1-3) r0 v0] obtain s1 where
    s1: "readFile w e opt Old ?s = Some (Inr (int (length (words_of cat bs0)) - first_delimiter opt NONE bs0, s1))"
      "file_at (get_file Old s1) None (spaces_of cat bs0) (words_of cat bs0)"
      "map Some (vdata (diffTokens (get_file Old s1))) = map (lookup_word (hash_table s1)) (keys e opt bs0)"
      "nextValue (hash_table s1) \<le> nextValue (hash_table ?s) + int (length bs0)" "fresh_buffers s1" "temps_left 2 s1"
      "\<And>x. x \<notin> temp_names 2 ?s \<Longrightarrow> disk (temps s1) x = d x"
      "undisturbed Old (?s\<lparr>temps := temps s1, mkstemps := mkstemps s1\<rparr>) s1"
    unfolding cat_def keys_def by (auto simp: initial_state_def init_temps_def)
  define s1' where "s1' = s1\<lparr>statistics := (statistics s1)\<lparr>oldTotal := int (length (words_of cat bs0)) - first_delimiter opt NONE bs0\<rparr>\<rparr>"
  have g: "get_file f s1' = get_file f s1" for f by (cases f) (simp_all add: s1'_def get_file_def)
  have "name1 \<notin> temp_names 2 ?s"
  proof
    assume "name1 \<in> temp_names 2 ?s"
    then obtain ws where "Some (name1, ws) \<in> set ms" by (auto simp: temp_names_def initial_state_def dest!: in_set_takeD)
    from ms(2) [OF this] a(6) show False by simp
  qed
  then have "disk (temps s1) name1 = Some bs1" using s1(7) a(6) by simp
  moreover have "get_file New s1 = get_file New (?s\<lparr>temps := temps s1, mkstemps := mkstemps s1\<rparr>)"
    using s1(8) unfolding undisturbed_def by blast
  then have "get_file New s1 = initial_file name1" by (simp add: initial_state_def get_file_def)
  ultimately have r1: "readable New name1 bs1 s1'" "temps_left (2 + 0) s1'" "fresh_buffers s1'"
    using s1(5,6) by (simp_all add: readable_def g initial_file_def temps_left_def fresh_buffers_def, simp_all add: s1'_def)
  have v1: "nextValue (hash_table s1') + int (length bs1) < VALUE_MAX"
    using s1(4) a(7) by (simp add: s1'_def initial_state_def init_hash_def VALUE_MAX_def OFFSET_MAX_def)
  from readFile_ok [OF a(1-3) r1 v1] obtain s2 where
    s2: "readFile w e opt New s1' = Some (Inr (int (length (words_of cat bs1)) - first_delimiter opt NONE bs1, s2))"
      "file_at (get_file New s2) None (spaces_of cat bs1) (words_of cat bs1)"
      "map Some (vdata (diffTokens (get_file New s2))) = map (lookup_word (hash_table s2)) (keys e opt bs1)"
      "fresh_buffers s2" "undisturbed New (s1'\<lparr>temps := temps s2, mkstemps := mkstemps s2\<rparr>) s2"
    unfolding cat_def keys_def by auto
  have un: "get_file Old s2 = get_file Old s1" "lookup_word (hash_table s1) \<subseteq>\<^sub>m lookup_word (hash_table s2)"
    using s2(5) g by (simp_all add: undisturbed_def s1'_def)
  have old: "map Some (vdata (diffTokens (get_file Old s2))) = map (lookup_word (hash_table s2)) (keys e opt bs0)"
    using lookup_mono [OF s1(3) un(2)] un(1) by simp
  let ?s3 = "s2\<lparr>statistics := (statistics s2)\<lparr>newTotal := int (length (words_of cat bs1)) - first_delimiter opt NONE bs1\<rparr>,
    baseHashMax := nextValue (hash_table s2), hash_table := snd (getHashMax (hash_table s2)),
    currentWord := VECTOR_FREE (currentWord s2), whitespaceBuffer := VECTOR_FREE (whitespaceBuffer s2)\<rparr>"
  have "prepareAndExecuteDiff w mem e opt ?s = doDiff mem e opt ?s3"
    using s1(1) s2(1) by (simp add: prepareAndExecuteDiff_def s1'_def getHashMax_def)
  moreover have "statistics s2 = (statistics ?s)\<lparr>oldTotal := int (length (words_of cat bs0)) - first_delimiter opt NONE bs0\<rparr>"
    "stdout_bytes s2 = []" "oldLineNumber s2 = 1" "newLineNumber s2 = 1" "\<not> lastWasDelete s2" "differences s2 = 0"
    using s1(8) s2(5) by (simp_all add: undisturbed_def s1'_def initial_state_def)
  ultimately show ?thesis
    using s1(2) s2(2,3,4) un(1) old
    by (intro exI [of _ ?s3] exI [of _ "hash_table s2"] conjI) (simp_all add: get_file_def fresh_buffers_def initial_state_def)
qed

lemma run_program_ok:
  assumes st: "start_ok w e opt d ms name0 bs0 name1 bs1"
  defines "cat \<equiv> byte_category opt"
  shows "\<exists>script s' i j. run_program w mem e opt (initial_state d ms name0 name1) = Some (Inr (differences s', s')) \<and>
    script_ok 0 0 script (keys e opt bs0) (keys e opt bs1) \<and> (script = [] \<longleftrightarrow> keys e opt bs0 = keys e opt bs1) \<and>
    (plain opt \<longrightarrow> stdout_bytes s' = (if needMarkers opt then marker_line else []) @
       render opt False 0 0 script (spaces_of cat bs0) (words_of cat bs0) (spaces_of cat bs1) (words_of cat bs1)) \<and>
    differences s' = (if keys e opt bs0 = keys e opt bs1 then 0 else 1) \<and>
    oldLineNumber s' = 1 + of_nat i \<and> newLineNumber s' = 1 + of_nat j \<and>
    (printCommon opt \<longrightarrow> cat 10 = CAT_WHITESPACE \<longrightarrow> i = nl bs0 \<and> j = nl bs1) \<and>
    statistics s' = script_statistics script \<lparr>stat_added = 0, stat_deleted = 0, oldChanged = 0, newChanged = 0,
      oldTotal = int (length (words_of cat bs0)) - first_delimiter opt NONE bs0,
      newTotal = int (length (words_of cat bs1)) - first_delimiter opt NONE bs1\<rparr>"
proof -
  from st have a: "\<not> UTF8Mode e" "\<not> paraDelim opt" "matchContext opt = 0" "\<not> diffInput opt"
    "int (length bs0) + int (length bs1) < OFFSET_MAX" "byte_category opt 0 \<noteq> CAT_WHITESPACE" "byte_category opt 1 \<noteq> CAT_WHITESPACE"
    by (simp_all add: start_ok_def)
  let ?k0 = "keys e opt bs0" and ?k1 = "keys e opt bs1"
  from both_files_read [OF st, of mem, folded cat_def] obtain s2 h where
    s2: "prepareAndExecuteDiff w mem e opt (initial_state d ms name0 name1) = doDiff mem e opt s2"
      "file_at (oldFile s2) None (spaces_of cat bs0) (words_of cat bs0)" "file_at (newFile s2) None (spaces_of cat bs1) (words_of cat bs1)"
      "map Some (vdata (diffTokens (oldFile s2))) = map (lookup_word h) ?k0"
      "map Some (vdata (diffTokens (newFile s2))) = map (lookup_word h) ?k1" "hash_wf h" "baseHashMax s2 = nextValue h"
      "stdout_bytes s2 = []" "oldLineNumber s2 = 1" "newLineNumber s2 = 1" "\<not> lastWasDelete s2" "differences s2 = 0"
      "statistics s2 = \<lparr>stat_added = 0, stat_deleted = 0, oldChanged = 0, newChanged = 0,
        oldTotal = int (length (words_of cat bs0)) - first_delimiter opt NONE bs0,
        newTotal = int (length (words_of cat bs1)) - first_delimiter opt NONE bs1\<rparr>" by blast
  let ?v0 = "vdata (diffTokens (oldFile s2))" and ?v1 = "vdata (diffTokens (newFile s2))"
  note nw = numbers_of_words [OF s2(6,4,5)]
  have len: "length ?v0 = length ?k0" "length ?v1 = length ?k1" using s2(4,5) by (metis length_map)+
  have ok: "equivs_ok (baseHashMax s2) ?v0 ?v1"
    using nw(3) s2(7) len length_keys [of e opt bs0] length_keys [of e opt bs1] a(5) by (auto simp: equivs_ok_def)
  have clean: "\<forall>w \<in> set (spaces_of cat bs0) \<union> set (spaces_of cat bs1). esc w = w"
    using spaces_clean [OF a(6,7)] by (auto simp: cat_def)
  have len': "length ?v0 = length (words_of cat bs0)" "length ?v1 = length (words_of cat bs1)" using len by (simp_all add: keys_def cat_def)
  from doDiff_rendered [OF a(1-3) s2(2,3) tokens_text(1) tokens_text(1) clean len' ok, of mem] obtain script s' i j where
    r: "doDiff mem e opt s2 = Some (Inr s')" "compare_tokens mem opt (baseHashMax s2) ?v0 ?v1 = Some script" "script_ok 0 0 script ?v0 ?v1"
      "shown opt ((if needMarkers opt then marker_line else []) @
        render opt (lastWasDelete s2) 0 0 script (spaces_of cat bs0) (words_of cat bs0) (spaces_of cat bs1) (words_of cat bs1)) i j
        (recorded script s2) s'"
      "printCommon opt \<longrightarrow> (\<forall>w \<in> set (words_of cat bs0) \<union> set (words_of cat bs1). 10 \<notin> set w) \<longrightarrow>
        i = nl (concat (spaces_of cat bs0)) \<and> j = nl (concat (spaces_of cat bs1))" by blast
  have e: "script = [] \<longleftrightarrow> ?k0 = ?k1"
  proof
    assume "script = []"
    with r(3) nw(2) show "?k0 = ?k1" by (simp add: slice_to_end)
  next
    assume "?k0 = ?k1"
    with nw(2) have "?v0 = ?v1" by blast
    with r(2) diff_2_files_same [of "baseHashMax s2" ?v0] ok show "script = []" by (auto simp: compare_tokens_def)
  qed
  have one: "10 \<notin> set u" if "cat 10 = CAT_WHITESPACE" "u \<in> set (words_of cat bs)" for u bs
    using tokenize_words [of None cat "[]" bs] that by (fastforce simp: words_of_def word_shape_def)
  have lines: "nl (concat (spaces_of cat bs)) = nl bs" if "cat 10 = CAT_WHITESPACE" for bs
    using one_line_all [of "words_of cat bs" "spaces_of cat bs"] one [OF that] tokens_text [of cat bs] by simp
  have "initial_state d ms name0 name1\<lparr>whitespaceBuffer := VECTOR_INIT\<rparr> = initial_state d ms name0 name1"
    by (simp add: initial_state_def)
  then have "run_program w mem e opt (initial_state d ms name0 name1) = Some (Inr (differences s', s'))"
    using s2(1) r(1) a(4) by (simp add: run_program_def)
  moreover have "(printCommon opt \<longrightarrow> cat 10 = CAT_WHITESPACE \<longrightarrow> i = nl bs0 \<and> j = nl bs1)"
    using r(5) one lines by auto
  ultimately show ?thesis
    using r(3,4) nw(1) e s2(8-13)
    by (intro exI [of _ script] exI [of _ s'] exI [of _ i] exI [of _ j] conjI)
      (simp_all add: shown_def recorded_def script_differences_def del: render.simps)
qed

section \<open>Output without the deleted words\<close>

text \<open>Options that print the common and the added words in order, with no or with empty markers.\<close>

definition new_only :: "option_t \<Rightarrow> bool" where
  "new_only opt \<longleftrightarrow> printCommon opt \<and> printAdded opt \<and> \<not> printDeleted opt \<and> wdiffOutput opt \<and> \<not> needMarkers opt \<and>
     start_text opt New = [] \<and> stop_text opt New = []"

lemma interleave_take_drop: "interleave (take n ws) (take n ts) @ interleave (drop n ws) (drop n ts) = interleave ws ts"
proof (induction n arbitrary: ws ts)
  case (Suc n)
  show ?case
  proof (cases ws)
    case Nil
    then show ?thesis by simp
  next
    case (Cons w v)
    with Suc show ?thesis by (cases ts) simp_all
  qed
qed simp

lemma add_text_new:
  assumes "new_only opt" "0 < k" "k \<le> length ts"
  shows "add_text opt w ws ts k = interleave (take k (w # ws)) (take k ts)"
proof -
  from assms obtain m t u where "k = Suc m" "ts = t # u" by (cases k; cases ts) auto
  with assms(1) show ?thesis by (simp add: add_text_def changed_text_def new_only_def)
qed

lemma emit_text_new:
  assumes n: "new_only opt" and ch: "0 \<le> deleted ch" "0 \<le> inserted ch" "0 < deleted ch + inserted ch"
    and l: "k = nat (inserted ch)" "c + k \<le> length ts1" "length ts1 < length ws1"
  shows "emit_text opt (change_command ch) False c d k ws0 ts0 ws1 ts1 = interleave (take (c + k) ws1) (take (c + k) ts1)"
proof -
  have e: "change_text opt (change_command ch) False (ws0 ! c) (drop (Suc c) ws0) (drop c ts0) d (ws1 ! c) (drop (Suc c) ws1) (drop c ts1) k =
      interleave (take k (drop c ws1)) (take k (drop c ts1))"
  proof (cases "k = 0")
    case True
    with ch l have "change_command ch = C_DEL" by (auto simp: change_command_def)
    with True n show ?thesis by (simp add: change_text_def del_text_def new_only_def)
  next
    case False
    then have "change_command ch \<noteq> C_DEL" using l by (auto simp: change_command_def)
    moreover have "ws1 ! c # drop (Suc c) ws1 = drop c ws1" using l by (simp add: Cons_nth_drop_Suc)
    ultimately show ?thesis
      using False n l add_text_new [OF n, of k "drop c ts1" "ws1 ! c" "drop (Suc c) ws1"]
      by (cases "change_command ch") (simp_all add: change_text_def del_text_def new_only_def)
  qed
  have "interleave (take c ws1) (take c ts1) @ interleave (take k (drop c ws1)) (take k (drop c ts1)) =
      interleave (take (c + k) ws1) (take (c + k) ts1)"
    using interleave_take_drop [of c "take (c + k) ws1" "take (c + k) ts1"] by (simp add: drop_take min_def)
  with e n show ?thesis by (simp add: emit_text_def common_ws_def new_only_def)
qed

lemma render_new:
  assumes n: "new_only opt"
  shows "fits n0 n1 chs (length ts0) (length ts1) \<Longrightarrow> length ws0 = Suc (length ts0) \<Longrightarrow> length ws1 = Suc (length ts1) \<Longrightarrow>
    render opt False n0 n1 chs ws0 ts0 ws1 ts1 = interleave ws1 ts1 @ last ws1"
proof (induction chs arbitrary: n0 n1 ws0 ts0 ws1 ts1)
  case Nil
  then show ?case using n by (simp add: common_ws_def new_only_def)
next
  case (Cons ch chs)
  define c d k where "c = nat (line1 ch - n1)" and "d = nat (deleted ch)" and "k = nat (inserted ch)"
  from Cons.prems(1) have f: "0 \<le> deleted ch" "0 \<le> inserted ch" "0 < deleted ch + inserted ch" "c + d \<le> length ts0" "c + k \<le> length ts1"
    "fits (line0 ch + deleted ch) (line1 ch + inserted ch) chs (length ts0 - (c + d)) (length ts1 - (c + k))"
    by (simp_all add: Let_def c_def d_def k_def)
  have fl: "delete_flag opt (change_command ch) False c = False" using n by (simp add: delete_flag_def new_only_def)
  have "render opt False (line0 ch + deleted ch) (line1 ch + inserted ch) chs (drop (c + d) ws0) (drop (c + d) ts0)
      (drop (c + k) ws1) (drop (c + k) ts1) = interleave (drop (c + k) ws1) (drop (c + k) ts1) @ last (drop (c + k) ws1)"
    using f Cons.prems(2,3) by (intro Cons.IH) simp_all
  moreover have "last (drop (c + k) ws1) = last ws1" using f(5) Cons.prems(3) by (simp add: last_drop)
  moreover have "emit_text opt (change_command ch) False c d k ws0 ts0 ws1 ts1 = interleave (take (c + k) ws1) (take (c + k) ts1)"
    using Cons.prems(3) f(5) by (intro emit_text_new [OF n f(1-3) k_def]) simp_all
  moreover have "render opt False n0 n1 (ch # chs) ws0 ts0 ws1 ts1 = emit_text opt (change_command ch) False c d k ws0 ts0 ws1 ts1 @
      render opt False (line0 ch + deleted ch) (line1 ch + inserted ch) chs (drop (c + d) ws0) (drop (c + d) ts0) (drop (c + k) ws1) (drop (c + k) ts1)"
    using fl by (simp add: Let_def flip: c_def d_def k_def)
  ultimately show ?case using interleave_take_drop [of "c + k" ws1 ts1] by (simp flip: append_assoc)
qed

section \<open>Statistics\<close>

definition sum_deleted :: "change list \<Rightarrow> int" where
  "sum_deleted chs = sum_list (map deleted chs)"

definition sum_inserted :: "change list \<Rightarrow> int" where
  "sum_inserted chs = sum_list (map inserted chs)"

lemma script_statistics_sums:
  assumes "\<forall>ch \<in> set chs. 0 \<le> deleted ch \<and> 0 \<le> inserted ch"
  shows "stat_deleted (script_statistics chs st) + oldChanged (script_statistics chs st) = stat_deleted st + oldChanged st + sum_deleted chs \<and>
    stat_added (script_statistics chs st) + newChanged (script_statistics chs st) = stat_added st + newChanged st + sum_inserted chs \<and>
    oldTotal (script_statistics chs st) = oldTotal st \<and> newTotal (script_statistics chs st) = newTotal st"
  using assms
proof (induction chs arbitrary: st)
  case (Cons ch chs)
  from Cons.IH [of "update_statistics (change_command ch) ch st"] Cons.prems show ?case
    by (auto simp: script_statistics_def sum_deleted_def sum_inserted_def update_statistics_def change_command_def split: command.splits)
qed (simp add: script_statistics_def sum_deleted_def sum_inserted_def)

lemma fits_sums:
  "fits n0 n1 chs m0 m1 \<Longrightarrow> int m0 - sum_deleted chs = int m1 - sum_inserted chs \<and> (\<forall>ch \<in> set chs. 0 \<le> deleted ch \<and> 0 \<le> inserted ch) \<and>
     sum_deleted chs \<le> int m0 \<and> 0 \<le> sum_deleted chs"
proof (induction chs arbitrary: n0 n1 m0 m1)
  case (Cons ch chs)
  define c d k where "c = nat (line1 ch - n1)" and "d = nat (deleted ch)" and "k = nat (inserted ch)"
  from Cons.prems have f: "0 \<le> deleted ch" "0 \<le> inserted ch" "c + d \<le> m0" "c + k \<le> m1"
    "fits (line0 ch + deleted ch) (line1 ch + inserted ch) chs (m0 - (c + d)) (m1 - (c + k))"
    by (simp_all add: Let_def c_def d_def k_def)
  from Cons.IH [OF f(5)] f(1-4) show ?case by (auto simp: sum_deleted_def sum_inserted_def d_def k_def of_nat_diff)
qed (simp add: sum_deleted_def sum_inserted_def)

end
