(* ===== verification/Arguments.thy ===== *)
theory Arguments
  imports Tokenizer
begin

text \<open>
  Strings and arguments of the command line: the comparison without case and the escape sequences
  of option.c, the numbers and the loop over the arguments of optionMacros.h. The macros are
  used by three parsers, so the loop has the table of options and the actions as arguments.

  A C string is the list of its bytes without the terminator. An argument vector is the list of its
  strings after the name of the program.
\<close>

definition str :: "string \<Rightarrow> byte list" where
  "str s = map of_char s"

section \<open>Comparison without case\<close>

fun strCaseCmp :: "(int \<Rightarrow> int) \<Rightarrow> byte list \<Rightarrow> byte list \<Rightarrow> int" where
  "strCaseCmp low [] [] = 0"
| "strCaseCmp low (a # as) (b # bs) =
     (let ca = low (sint a); cb = low (sint b)
      in if ca = cb \<and> ca \<noteq> 0 then strCaseCmp low as bs else if ca = cb then 0 else if ca < cb then - 1 else 1)"
| "strCaseCmp low [] (b # bs) =
     (let ca = low 0; cb = low (sint b) in if ca = cb then 0 else if ca < cb then - 1 else 1)"
| "strCaseCmp low (a # as) [] =
     (let ca = low (sint a); cb = low 0 in if ca = cb then 0 else if ca < cb then - 1 else 1)"

section \<open>Escape sequences\<close>

definition is_digit :: "byte \<Rightarrow> bool" where
  "is_digit b \<longleftrightarrow> 48 \<le> b \<and> b \<le> 57"

definition is_xdigit :: "byte \<Rightarrow> bool" where
  "is_xdigit b \<longleftrightarrow> is_digit b \<or> 65 \<le> b \<and> b \<le> 70 \<or> 97 \<le> b \<and> b \<le> 102"

definition is_octal :: "byte \<Rightarrow> bool" where
  "is_octal b \<longleftrightarrow> 48 \<le> b \<and> b \<le> 55"

text \<open>The value of a hexadecimal digit: \<open>tolower\<close> sets the bit 32 of a letter.\<close>

definition xdigit_value :: "byte \<Rightarrow> int" where
  "xdigit_value b = (if is_digit b then uint b - 48 else uint (b OR 32) - 97 + 10)"

text \<open>The single character after the backslash.\<close>

definition simple_escape :: "byte \<Rightarrow> byte option" where
  "simple_escape b =
     (if b = 110 then Some 10 else if b = 114 then Some 13 else if b = 39 then Some 39
      else if b = 92 then Some 92 else if b = 116 then Some 9 else if b = 98 then Some 8
      else if b = 102 then Some 12 else if b = 97 then Some 7 else if b = 118 then Some 11
      else if b = 63 then Some 63 else if b = 34 then Some 34 else if b = 101 then Some 27 else None)"

text \<open>The digits at the start of the text, at most \<open>n\<close>.\<close>

definition digits_upto :: "(byte \<Rightarrow> bool) \<Rightarrow> nat \<Rightarrow> byte list \<Rightarrow> byte list" where
  "digits_upto ok n s = take n (takeWhile ok s)"

text \<open>
  The value of hexadecimal digits in a variable of 32 bits. The shift of \<open>\U\<close> wraps for eight digits
  from 80000000 on.
\<close>

definition hex_value :: "byte list \<Rightarrow> int" where
  "hex_value ds = foldl (\<lambda>v d. signed_take_bit 31 (v * 16 + xdigit_value d)) 0 ds"

definition octal_value :: "byte list \<Rightarrow> int" where
  "octal_value ds = foldl (\<lambda>v d. v * 8 + (uint d - 48)) 0 ds"

text \<open>One escape sequence, after the backslash: the bytes written and the bytes read.\<close>

definition read_escape :: "byte list \<Rightarrow> (byte list \<times> nat) res" where
  "read_escape s =
     (case s of
        [] \<Rightarrow> Inl (Fatal ''Single backslash at end of argument'')
      | c # rest \<Rightarrow>
          (case simple_escape c of
             Some b \<Rightarrow> Inr ([b], 1)
           | None \<Rightarrow>
               if c = 120 then
                 let ds = digits_upto is_xdigit 2 rest
                 in if hex_value ds > 255 \<or> ds = [] then Inl (Fatal ''Invalid hexadecimal escape sequence'')
                    else Inr ([word_of_int (hex_value ds)], 1 + length ds)
               else if is_octal c then
                 let ds = digits_upto is_octal (if c < 52 then 2 else 1) rest
                 in Inr ([word_of_int (octal_value (c # ds))], 1 + length ds)
               else if c = 117 \<or> c = 85 then
                 let n = (if c = 85 then 8 else 4); ds = take n rest; value = hex_value ds
                 in if length rest < n \<or> \<not> list_all is_xdigit ds then Inl (Fatal ''Too short escape'')
                    else if value > 0x10FFFF then Inl (Fatal ''escape out of range'')
                    else if value AND 0xF800 = 0xD800 then Inl (Fatal ''escapes for surrogate codepoints are not allowed'')
                    else Inr (convertToUTF8 value, 1 + n)
               else Inr ([c], 1)))"

text \<open>The result is what is written to the string; its length is what the function returns.\<close>

function parseEscapes :: "byte list \<Rightarrow> byte list res" where
  "parseEscapes [] = Inr []"
| "parseEscapes (b # s) =
     (if b = 92 then
        bind_res (read_escape s) (\<lambda>(out, n). bind_res (parseEscapes (drop n s)) (\<lambda>t. Inr (out @ t)))
      else bind_res (parseEscapes s) (\<lambda>t. Inr (b # t)))"
  by pat_completeness auto
termination
  by (relation "measure length") auto

section \<open>Numbers\<close>

text \<open>
  \<open>strtol\<close> in base 10: the value, the text after the number and whether the value is out of the
  range of \<open>long\<close>. Without digits nothing is read.
\<close>

definition LONG_MAX :: int where
  "LONG_MAX = 2 ^ 63 - 1"

definition strtol :: "env \<Rightarrow> byte list \<Rightarrow> int \<times> byte list \<times> bool" where
  "strtol e s =
     (let s1 = dropWhile (\<lambda>b. isspace e (uint b)) s;
          neg = (s1 \<noteq> [] \<and> hd s1 = 45);
          s2 = (if s1 \<noteq> [] \<and> (hd s1 = 45 \<or> hd s1 = 43) then tl s1 else s1);
          ds = takeWhile is_digit s2;
          v = foldl (\<lambda>v d. v * 10 + (uint d - 48)) 0 ds;
          x = (if neg then - v else v)
      in if ds = [] then (0, s, False)
         else if x > LONG_MAX then (LONG_MAX, drop (length ds) s2, True)
         else if x < - LONG_MAX - 1 then (- LONG_MAX - 1, drop (length ds) s2, True)
         else (x, drop (length ds) s2, False))"

definition INT_MAX :: int where
  "INT_MAX = 2 ^ 31 - 1"

definition PARSE_INT :: "env \<Rightarrow> int \<Rightarrow> int \<Rightarrow> byte list \<Rightarrow> int res" where
  "PARSE_INT e lo hi s =
     (let (value, rest, erange) = strtol e s
      in if rest \<noteq> [] then Inl (Fatal ''Garbage after value for option'')
         else if erange \<or> value < lo \<or> value > hi then Inl (Fatal ''Value for option is out of range'')
         else Inr value)"

section \<open>The arguments\<close>

datatype arg_req = NO_ARG | OPTIONAL_ARG | REQUIRED_ARG

text \<open>
  An entry for \<open>OPTION\<close>, \<open>SHORT_OPTION\<close> or \<open>LONG_OPTION\<close>; \<open>SINGLE_DASH\<close> is the short option
  with a zero byte and \<open>DOUBLE_DASH\<close> the long option without a name.
\<close>

record 'k opt_entry =
  shortName :: "byte option"
  longName :: "byte list option"
  argReq :: arg_req
  okey :: 'k

definition OPTION :: "byte \<Rightarrow> string \<Rightarrow> arg_req \<Rightarrow> 'k \<Rightarrow> 'k opt_entry" where
  "OPTION c name req k = \<lparr>shortName = Some c, longName = Some (str name), argReq = req, okey = k\<rparr>"

definition LONG_OPTION :: "string \<Rightarrow> arg_req \<Rightarrow> 'k \<Rightarrow> 'k opt_entry" where
  "LONG_OPTION name req k = \<lparr>shortName = None, longName = Some (str name), argReq = req, okey = k\<rparr>"

definition SINGLE_DASH :: "'k \<Rightarrow> 'k opt_entry" where
  "SINGLE_DASH k = \<lparr>shortName = Some 0, longName = None, argReq = NO_ARG, okey = k\<rparr>"

definition DOUBLE_DASH :: "'k \<Rightarrow> 'k opt_entry" where
  "DOUBLE_DASH k = \<lparr>shortName = None, longName = Some [], argReq = NO_ARG, okey = k\<rparr>"

text \<open>
  What an action does next: go on, go on without options, leave the loop, or end the program
  with \<open>EXIT_SUCCESS\<close>.
\<close>

datatype 's flow = Next 's | NoMore 's | Stop 's | ExitSuccess 's

text \<open>
  An action gets the argument of the option, the index of the current argument, and whether the argument
  lies in the copy that \<open>OPTION_STRDUP\<close> made of a group of short options: that copy is freed
  when the group has been read.
\<close>

type_synonym ('k, 's) action = "'k \<Rightarrow> byte list option \<Rightarrow> bool \<Rightarrow> nat \<Rightarrow> 's \<Rightarrow> 's flow run"

definition find_short :: "'k opt_entry list \<Rightarrow> byte \<Rightarrow> 'k opt_entry option" where
  "find_short tbl c = find (\<lambda>o'. shortName o' = Some c) tbl"

definition find_long :: "'k opt_entry list \<Rightarrow> byte list \<Rightarrow> 'k opt_entry option" where
  "find_long tbl name = find (\<lambda>o'. longName o' = Some name) tbl"

text \<open>
  A group of short options: the bytes after the dash, the next argument if there is one. The
  result tells whether the next argument has been used. \<open>strict\<close> is the call of \<open>fatal\<close> after
  the last option, which only one of the parsers leaves out.
\<close>

fun short_options :: "bool \<Rightarrow> 'k opt_entry list \<Rightarrow> ('k, 's) action \<Rightarrow> byte list \<Rightarrow> byte list option \<Rightarrow> bool \<Rightarrow> nat \<Rightarrow> 's \<Rightarrow>
    (bool \<times> 's flow) run" where
  "short_options strict tbl act [] following copied ind s =
     (case find_short tbl 0 of
        None \<Rightarrow> if strict then Some (Inl (Fatal ''Option does not exist'')) else Some (Inr (False, Next s))
      | Some o' \<Rightarrow>
          (case argReq o' of
             REQUIRED_ARG \<Rightarrow>
               (case following of
                  None \<Rightarrow> Some (Inl (Fatal ''Option requires an argument''))
                | Some a \<Rightarrow> bind_run (act (okey o') (Some a) False (ind + 1) s) (\<lambda>fl. Some (Inr (True, fl))))
           | _ \<Rightarrow> bind_run (act (okey o') None False ind s) (\<lambda>fl. Some (Inr (False, fl)))))"
| "short_options strict tbl act (c # cs) following copied ind s =
     (case find_short tbl c of
        None \<Rightarrow> if strict then Some (Inl (Fatal ''Option does not exist'')) else Some (Inr (False, Next s))
      | Some o' \<Rightarrow>
          (case argReq o' of
             NO_ARG \<Rightarrow>
               bind_run (act (okey o') None False ind s) (\<lambda>fl.
                 case fl of
                   Next s1 \<Rightarrow> if cs = [] then Some (Inr (False, Next s1)) else short_options strict tbl act cs following True ind s1
                 | _ \<Rightarrow> Some (Inr (False, fl)))
           | OPTIONAL_ARG \<Rightarrow>
               bind_run (act (okey o') (if cs = [] then None else Some cs) copied ind s) (\<lambda>fl. Some (Inr (False, fl)))
           | REQUIRED_ARG \<Rightarrow>
               if cs \<noteq> [] then bind_run (act (okey o') (Some cs) copied ind s) (\<lambda>fl. Some (Inr (False, fl)))
               else (case following of
                       None \<Rightarrow> Some (Inl (Fatal ''Option requires an argument''))
                     | Some a \<Rightarrow> bind_run (act (okey o') (Some a) False (ind + 1) s) (\<lambda>fl. Some (Inr (True, fl))))))"

text \<open>A long option: the bytes after the two dashes.\<close>

definition long_option :: "bool \<Rightarrow> 'k opt_entry list \<Rightarrow> ('k, 's) action \<Rightarrow> byte list \<Rightarrow> byte list option \<Rightarrow> nat \<Rightarrow> 's \<Rightarrow>
    (bool \<times> 's flow) run" where
  "long_option strict tbl act cur following ind s =
     (let name = takeWhile (\<lambda>b. b \<noteq> 61) cur;
          optArg = (if length name < length cur then Some (drop (length name + 1) cur) else None)
      in case find_long tbl name of
           None \<Rightarrow> if strict then Some (Inl (Fatal ''Option does not exist'')) else Some (Inr (False, Next s))
         | Some o' \<Rightarrow>
             (case argReq o' of
                NO_ARG \<Rightarrow>
                  if optArg \<noteq> None then Some (Inl (Fatal ''Option does not take an argument''))
                  else bind_run (act (okey o') None False ind s) (\<lambda>fl. Some (Inr (False, fl)))
              | OPTIONAL_ARG \<Rightarrow> bind_run (act (okey o') optArg False ind s) (\<lambda>fl. Some (Inr (False, fl)))
              | REQUIRED_ARG \<Rightarrow>
                  (case optArg of
                     Some a \<Rightarrow> bind_run (act (okey o') (Some a) False ind s) (\<lambda>fl. Some (Inr (False, fl)))
                   | None \<Rightarrow>
                       (case following of
                          None \<Rightarrow> Some (Inl (Fatal ''Option requires an argument''))
                        | Some a \<Rightarrow> bind_run (act (okey o') (Some a) False (ind + 1) s) (\<lambda>fl. Some (Inr (True, fl)))))))"

definition first_of :: "'a list \<Rightarrow> 'a option" where
  "first_of xs = (case xs of [] \<Rightarrow> None | x # _ \<Rightarrow> Some x)"

text \<open>One argument: an option if it starts with a dash and options are still looked for.\<close>

definition one_argument :: "bool \<Rightarrow> 'k opt_entry list \<Rightarrow> ('k, 's) action \<Rightarrow> (byte list \<Rightarrow> nat \<Rightarrow> 's \<Rightarrow> 's flow run) \<Rightarrow> bool \<Rightarrow> nat \<Rightarrow>
    byte list \<Rightarrow> byte list option \<Rightarrow> 's \<Rightarrow> (bool \<times> 's flow) run" where
  "one_argument strict tbl act no_option optnomore ind cur following s =
     (if cur \<noteq> [] \<and> hd cur = 45 \<and> \<not> optnomore then
        if length cur > 1 \<and> cur ! 1 = 45 then long_option strict tbl act (drop 2 cur) following ind s
        else short_options strict tbl act (tl cur) following False ind s
      else bind_run (no_option cur ind s) (\<lambda>fl. Some (Inr (False, fl))))"

function scan_args :: "bool \<Rightarrow> 'k opt_entry list \<Rightarrow> ('k, 's) action \<Rightarrow> (byte list \<Rightarrow> nat \<Rightarrow> 's \<Rightarrow> 's flow run) \<Rightarrow> bool \<Rightarrow> nat \<Rightarrow>
    byte list list \<Rightarrow> 's \<Rightarrow> 's flow run" where
  "scan_args strict tbl act no_option optnomore ind [] s = Some (Inr (Next s))"
| "scan_args strict tbl act no_option optnomore ind (cur # rest) s =
     bind_run (one_argument strict tbl act no_option optnomore ind cur (first_of rest) s) (\<lambda>(consumed, fl).
       let ind' = (if consumed then ind + 2 else ind + 1); rest' = (if consumed then tl rest else rest)
       in case fl of
            Next s1 \<Rightarrow> scan_args strict tbl act no_option optnomore ind' rest' s1
          | NoMore s1 \<Rightarrow> scan_args strict tbl act no_option True ind' rest' s1
          | Stop s1 \<Rightarrow> Some (Inr (Stop s1))
          | ExitSuccess s1 \<Rightarrow> Some (Inr (ExitSuccess s1)))"
  by pat_completeness auto
termination
  by (relation "measure (\<lambda>(b, t, a, n, o', i, xs, s). length xs)") auto

end
