(* ===== verification/Profile.thy ===== *)
theory Profile
  imports Arguments
begin

text \<open>
  The configuration file of profile.c. The home directory and the contents of the file are
  parameters: no directory, a file that cannot be opened with its error number, or its bytes.
\<close>

definition ENOENT :: int where
  "ENOENT = 2"

definition SPACE :: "byte list" where
  "SPACE = [32, 9, 11, 12, 10, 13]"

definition is_space :: "byte \<Rightarrow> bool" where
  "is_space b \<longleftrightarrow> b \<in> set SPACE"

text \<open>The text between the first and the last character that is not a space.\<close>

definition stripSpaces :: "byte list \<Rightarrow> byte list" where
  "stripSpaces t = rev (dropWhile is_space (rev (dropWhile is_space t)))"

text \<open>
  The value of an option: quotes around it are removed. A single quotation mark is both the first
  and the last character, and the length wraps below zero: \<open>None\<close>.
\<close>

definition unquote :: "byte list \<Rightarrow> byte list option" where
  "unquote v =
     (if v \<noteq> [] \<and> hd v = last v \<and> (hd v = 34 \<or> hd v = 39) then
        if length v < 2 then None else Some (take (length v - 2) (tl v))
      else Some v)"

text \<open>The argument made from a line: a long option, with its value if there is one.\<close>

definition profile_argument :: "byte list \<Rightarrow> byte list option" where
  "profile_argument first =
     (let word = takeWhile (\<lambda>b. \<not> is_space b) first
      in if length word = length first then Some ([45, 45] @ word)
         else map_option (\<lambda>v. [45, 45] @ word @ [61] @ v) (unquote (stripSpaces (drop (length word) first))))"

record profile_state =
  saveProfile :: bool
  profileFound :: bool
  profileOptions :: "byte list list"

text \<open>One line of the file; the list of options is built in reverse.\<close>

definition profile_line :: "byte list \<Rightarrow> byte list \<Rightarrow> profile_state \<Rightarrow> profile_state option" where
  "profile_line wanted line s =
     (let first = stripSpaces line
      in if first = [] then Some s
         else if hd first = 35 then Some s
         else if hd first = 91 \<and> last first = 93 then
           let name = stripSpaces (take (length first - 2) (tl first))
           in if name = [] then Some (s\<lparr>saveProfile := False\<rparr>)
              else Some (s\<lparr>saveProfile := (wanted = name), profileFound := (profileFound s \<or> wanted = name)\<rparr>)
         else if \<not> saveProfile s then Some s
         else map_option (\<lambda>a. s\<lparr>profileOptions := a # profileOptions s\<rparr>) (profile_argument first))"

text \<open>\<open>getline\<close>: the lines with their newlines; a zero byte ends the string.\<close>

fun getlines :: "byte list \<Rightarrow> byte list \<Rightarrow> byte list list" where
  "getlines acc [] = (if acc = [] then [] else [acc])"
| "getlines acc (b # bs) = (if b = 10 then (acc @ [b]) # getlines [] bs else getlines (acc @ [b]) bs)"

definition c_string :: "byte list \<Rightarrow> byte list" where
  "c_string bs = takeWhile (\<lambda>b. b \<noteq> 0) bs"

fun profile_lines :: "byte list \<Rightarrow> byte list list \<Rightarrow> profile_state \<Rightarrow> profile_state option" where
  "profile_lines wanted [] s = Some s"
| "profile_lines wanted (l # ls) s =
     (case profile_line wanted (c_string l) s of None \<Rightarrow> None | Some s1 \<Rightarrow> profile_lines wanted ls s1)"

definition loadProfile :: "byte list option \<Rightarrow> (byte list \<Rightarrow> int + byte list) \<Rightarrow> byte list \<Rightarrow> byte list \<Rightarrow> byte list list run" where
  "loadProfile dir fopen name wanted =
     (case dir of
        None \<Rightarrow> Some (Inr [])
      | Some d \<Rightarrow>
          (case fopen (d @ [47] @ name) of
             Inl err \<Rightarrow>
               if err = ENOENT \<and> wanted = str ''default'' then Some (Inr [])
               else Some (Inl (Fatal ''Could not open configuration file''))
           | Inr contents \<Rightarrow>
               (case profile_lines wanted (getlines [] contents) \<lparr>saveProfile = False, profileFound = False, profileOptions = []\<rparr> of
                  None \<Rightarrow> None
                | Some s \<Rightarrow>
                    if \<not> profileFound s \<and> wanted \<noteq> str ''default'' then Some (Inl (Fatal ''Profile not found''))
                    else Some (Inr (rev (profileOptions s))))))"

text \<open>Every option is a command line of its own.\<close>

fun applyProfileOptions :: "(byte list list \<Rightarrow> 's \<Rightarrow> 's flow run) \<Rightarrow> byte list list \<Rightarrow> 's \<Rightarrow> 's flow run" where
  "applyProfileOptions parse [] s = Some (Inr (Next s))"
| "applyProfileOptions parse (a # as) s =
     bind_run (parse [a] s) (\<lambda>fl.
       case fl of
         ExitSuccess s1 \<Rightarrow> Some (Inr (ExitSuccess s1))
       | Next s1 \<Rightarrow> applyProfileOptions parse as s1
       | NoMore s1 \<Rightarrow> applyProfileOptions parse as s1
       | Stop s1 \<Rightarrow> applyProfileOptions parse as s1)"

section \<open>The argument of a line\<close>

lemma stripSpaces_length: "length (stripSpaces t) \<le> length t"
  unfolding stripSpaces_def by (metis length_dropWhile_le length_rev order_trans)

lemma stripSpaces_space: "is_space b \<Longrightarrow> stripSpaces (b # t) = stripSpaces t"
  by (simp add: stripSpaces_def)

lemma unquote_length: "unquote v = Some u \<Longrightarrow> length u \<le> length v"
  by (auto simp: unquote_def split: if_splits)

text \<open>
  C38: the argument made from a line and its terminator fit in the memory that \<open>loadProfile\<close>
  takes for it, three bytes more than the text of the line: the equals sign takes the place of a space.
\<close>

theorem profile_argument_fits:
  assumes "profile_argument first = Some a"
  shows "length a + 1 \<le> length first + 3"
proof -
  define w where "w = takeWhile (\<lambda>b. \<not> is_space b) first"
  have split: "first = w @ dropWhile (\<lambda>b. \<not> is_space b) first" by (simp add: w_def)
  show ?thesis
  proof (cases "length w = length first")
    case True
    with assms show ?thesis by (auto simp: profile_argument_def Let_def w_def)
  next
    case False
    with assms obtain v where v: "unquote (stripSpaces (drop (length w) first)) = Some v" "a = [45, 45] @ w @ [61] @ v"
      by (auto simp: profile_argument_def Let_def w_def)
    have d: "drop (length w) first = dropWhile (\<lambda>b. \<not> is_space b) first" by (simp add: w_def dropWhile_eq_drop)
    moreover have "dropWhile (\<lambda>b. \<not> is_space b) first \<noteq> []" using False split by (metis append_Nil2)
    ultimately obtain b r where r: "drop (length w) first = b # r" "is_space b"
      by (metis hd_dropWhile list.collapse)
    have "length v \<le> length r"
      using unquote_length [OF v(1)] stripSpaces_length [of r] r by (simp add: stripSpaces_space)
    moreover have "length first = length w + Suc (length r)"
      using arg_cong [OF r(1), of length] False split by (metis d length_Cons length_append r(1))
    ultimately show ?thesis using v(2) by simp
  qed
qed

theorem profile_argument_fits_witness:
  "length ([45, 45, 97, 61, 98] :: byte list) + 1 \<le> length ([97, 32, 34, 98, 34] :: byte list) + 3"
proof -
  have "profile_argument [97, 32, 34, 98, 34] = Some [45, 45, 97, 61, 98]" by code_simp
  from profile_argument_fits [OF this] show ?thesis .
qed

text \<open>
  C39: a value that is one quotation mark is taken for a text in quotes, and its length wraps
  below zero: there is no argument for such a line.
\<close>

theorem profile_single_quote:
  assumes "q = 34 \<or> q = 39" "list_all (\<lambda>b. \<not> is_space b) word" "list_all is_space gap" "gap \<noteq> []"
  shows "profile_argument (word @ gap @ [q]) = None"
proof -
  obtain b r where g: "gap = b # r" "is_space b" "list_all is_space r" using assms(3,4) by (cases gap) auto
  have "takeWhile (\<lambda>b. \<not> is_space b) (word @ gap @ [q]) = word"
    using assms(2) g by (auto simp: list_all_iff intro: takeWhile_append2 [THEN trans])
  moreover have q: "\<not> is_space q" using assms(1) by (auto simp: is_space_def SPACE_def)
  moreover have "dropWhile is_space (gap @ [q]) = [q]" using assms(3) q by (induction gap) auto
  then have "stripSpaces (gap @ [q]) = [q]" using q by (simp add: stripSpaces_def)
  ultimately show ?thesis using assms(1) g by (auto simp: profile_argument_def unquote_def)
qed

theorem profile_single_quote_witness: "profile_argument ([119] @ [32] @ [39]) = None"
  by (rule profile_single_quote) (simp_all add: is_space_def SPACE_def)

end
