(* ===== verification/Options.thy ===== *)
theory Options
  imports Profile
begin

text \<open>
  The parts of option.c that the command line uses: colours, the sets of delimiters and white space
  for both character sets, the defaults, and the completion of the options.
\<close>

section \<open>Colours\<close>

record Color =
  cname :: "byte list"
  csequence :: "byte list"
  backgroundSequence :: "byte list option"

definition colors :: "Color list" where
  "colors =
     map (\<lambda>(n, s, b). \<lparr>cname = str n, csequence = str s, backgroundSequence = map_option str b\<rparr>)
       [(''black'', ''30'', Some ''40''), (''red'', ''31'', Some ''41''), (''green'', ''32'', Some ''42''),
        (''brown'', ''33'', Some ''43''), (''blue'', ''34'', Some ''44''), (''magenta'', ''35'', Some ''45''),
        (''cyan'', ''36'', Some ''46''), (''gray'', ''37'', Some ''47''), (''dgray'', ''30;1'', None),
        (''bred'', ''31;1'', None), (''bgreen'', ''32;1'', None), (''yellow'', ''33;1'', None),
        (''bblue'', ''34;1'', None), (''bmagenta'', ''35;1'', None), (''bcyan'', ''36;1'', None),
        (''white'', ''37;1'', None)]"

definition find_color :: "env \<Rightarrow> byte list \<Rightarrow> Color list \<Rightarrow> Color option" where
  "find_color e name cs = find (\<lambda>c. strCaseCmp (tolower e) name (cname c) = 0) cs"

text \<open>The background colours are those before the first entry without a sequence.\<close>

definition background_colors :: "Color list" where
  "background_colors = takeWhile (\<lambda>c. backgroundSequence c \<noteq> None) colors"

definition SEQUENCE_BUFFER_LEN :: nat where
  "SEQUENCE_BUFFER_LEN = 20"

text \<open>
  The buffer of the sequence; \<open>None\<close> is a buffer that has not been written when it is copied.
\<close>

definition color_sequence :: "Color option \<Rightarrow> Color option \<Rightarrow> byte list option" where
  "color_sequence fg bg =
     map_option (take (SEQUENCE_BUFFER_LEN - 1))
       (case (fg, bg) of
          (Some f, Some b) \<Rightarrow> Some ([27, 91, 48, 59] @ csequence f @ [59] @ at_pointer (backgroundSequence b) @ [109])
        | (Some f, None) \<Rightarrow> Some ([27, 91, 48, 59] @ csequence f @ [109])
        | (None, Some b) \<Rightarrow> Some ([27, 91, 48] @ at_pointer (backgroundSequence b) @ [109])
        | (None, None) \<Rightarrow> None)"

text \<open>
  A custom sequence is moved to the start of the copy together with two bytes that lie behind the
  terminator; they stay behind it.
\<close>

definition parseColor :: "env \<Rightarrow> byte list \<Rightarrow> byte list run" where
  "parseColor e color =
     (if take 2 color = [101, 58] then
        bind_run (Some (parseEscapes (drop 2 color))) (\<lambda>t. Some (Inr (c_string t)))
      else
        let name = takeWhile (\<lambda>b. b \<noteq> 58) color;
            colon = (if length name < length color then Some (drop (length name + 1) color) else None)
        in if colon \<noteq> None \<and> 58 \<in> set (the colon) then Some (Inl (Fatal ''Invalid color specification''))
           else
             let fg = (if name = [] then None else find_color e name colors);
                 bg = (case colon of
                         None \<Rightarrow> None
                       | Some b \<Rightarrow> if b = [] then None else find_color e b background_colors)
             in if name \<noteq> [] \<and> fg = None then Some (Inl (Fatal ''Invalid color''))
                else if colon \<noteq> None \<and> the colon \<noteq> [] \<and> bg = None then Some (Inl (Fatal ''Invalid background color''))
                else map_option Inr (color_sequence fg bg))"

section \<open>Sets of characters\<close>

fun addCharactersSC :: "byte list \<Rightarrow> byte list \<Rightarrow> byte list option" where
  "addCharactersSC [] bitmap = Some bitmap"
| "addCharactersSC (c # cs) bitmap =
     (case SET_BIT bitmap (sint c) of None \<Rightarrow> None | Some b \<Rightarrow> addCharactersSC cs b)"

definition UCHAR_MAX :: int where
  "UCHAR_MAX = 255"

definition checkOverlapSC :: "option_t \<Rightarrow> unit res" where
  "checkOverlapSC opt =
     (if whitespaceSet opt \<and>
         list_ex (\<lambda>i. TEST_BIT (delimiters opt) i = Some True \<and> TEST_BIT (whitespace opt) i = Some True) [0..UCHAR_MAX]
      then Inl (Fatal ''Whitespace and delimiter sets overlap'') else Inr ())"

text \<open>Setting the bits of the characters that satisfy a test.\<close>

fun set_bits :: "(int \<Rightarrow> bool) \<Rightarrow> int list \<Rightarrow> byte list \<Rightarrow> byte list option" where
  "set_bits P [] bitmap = Some bitmap"
| "set_bits P (i # is) bitmap =
     (if P i then (case SET_BIT bitmap i of None \<Rightarrow> None | Some b \<Rightarrow> set_bits P is b) else set_bits P is bitmap)"

definition setPunctuationSC :: "env \<Rightarrow> option_t \<Rightarrow> option_t option" where
  "setPunctuationSC e opt = map_option (\<lambda>b. opt\<lparr>delimiters := b\<rparr>) (set_bits (ispunct e) [0..UCHAR_MAX] (delimiters opt))"

definition postProcessOptionsSC :: "env \<Rightarrow> option_t \<Rightarrow> option_t option" where
  "postProcessOptionsSC e opt =
     map_option (\<lambda>o1. if TEST_BIT (whitespace o1) 32 \<noteq> Some True then o1\<lparr>wdiffOutput := True\<rparr> else o1)
       (if \<not> whitespaceSet opt then
          map_option (\<lambda>b. opt\<lparr>whitespace := b\<rparr>)
            (set_bits (\<lambda>i. TEST_BIT (delimiters opt) i \<noteq> Some True \<and> isspace e i) [0..UCHAR_MAX] (whitespace opt))
        else Some opt)"

partial_function (option) add_clusters :: "env \<Rightarrow> option_t \<Rightarrow> Stream \<Rightarrow> CharData \<Rightarrow> UTF16Buffer vector \<Rightarrow>
    UTF16Buffer vector run" where
  "add_clusters e opt strm cluster lst =
     bind_run (getCluster (gcb_class e) strm (original cluster)) (\<lambda>(ok, buf, strm1).
       if \<not> ok then Some (Inr lst)
       else bind_run (Some (decomposeChar (normalize e (decomposition opt)) (cluster\<lparr>original := buf\<rparr>))) (\<lambda>cd.
              if list_ex (\<lambda>x. compareUTF16Buffer (converted cd) x = 0) (vdata lst) then add_clusters e opt strm1 cd lst
              else add_clusters e opt strm1 cd
                     (VECTOR_APPEND lst \<lparr>vdata = vdata (converted cd), allocated = length (vdata (converted cd))\<rparr>)))"

definition addCharactersUTF8 :: "env \<Rightarrow> option_t \<Rightarrow> byte list \<Rightarrow> UTF16Buffer vector \<Rightarrow> UTF16Buffer vector run" where
  "addCharactersUTF8 e opt chars lst =
     add_clusters e opt (newStringStream chars)
       \<lparr>singleChar = 0, original = VECTOR_INIT_ALLOCATED, converted = VECTOR_INIT_ALLOCATED, casefolded = VECTOR_INIT\<rparr> lst"

text \<open>The merge of the two sorted lists that looks for a common element.\<close>

fun lists_meet :: "UTF16Buffer list \<Rightarrow> UTF16Buffer list \<Rightarrow> bool" where
  "lists_meet [] ws = False"
| "lists_meet (d # ds) ws =
     (let ws' = dropWhile (\<lambda>w. compareUTF16Buffer d w > 0) ws
      in if ws' = [] then False
         else if compareUTF16Buffer d (hd ws') = 0 then True else lists_meet ds ws')"

fun any_punct :: "env \<Rightarrow> option_t \<Rightarrow> UTF16Buffer list \<Rightarrow> bool res" where
  "any_punct e opt [] = Inr False"
| "any_punct e opt (w # ws) = bind_res (isUTF16Punct e opt w) (\<lambda>p. if p then Inr True else any_punct e opt ws)"

definition checkOverlapUTF8 :: "env \<Rightarrow> option_t \<Rightarrow> unit res" where
  "checkOverlapUTF8 e opt =
     (if \<not> whitespaceSet opt then Inr ()
      else if lists_meet (vdata (delimiterList opt)) (vdata (whitespaceList opt)) then Inl (Fatal ''Whitespace and delimiter sets overlap'')
      else if punctuationMask opt = 0 then Inr ()
      else bind_res (any_punct e opt (vdata (whitespaceList opt))) (\<lambda>p.
             if p then Inl (Fatal ''Whitespace and delimiter sets overlap'') else Inr ()))"

text \<open>The general categories of punctuation and symbols.\<close>

definition setPunctuationUTF8 :: "option_t \<Rightarrow> option_t" where
  "setPunctuationUTF8 opt = opt\<lparr>punctuationMask := 0x3FF80000\<rparr>"

text \<open>\<open>qsort\<close> by the comparison of buffers; the lists have no duplicates, so the result is unique.\<close>

fun insort_buffer :: "UTF16Buffer \<Rightarrow> UTF16Buffer list \<Rightarrow> UTF16Buffer list" where
  "insort_buffer x [] = [x]"
| "insort_buffer x (y # ys) = (if compareUTF16Buffer x y \<le> 0 then x # y # ys else y # insort_buffer x ys)"

definition qsort_buffers :: "UTF16Buffer list \<Rightarrow> UTF16Buffer list" where
  "qsort_buffers xs = foldr insort_buffer xs []"

definition postProcessOptionsUTF8 :: "env \<Rightarrow> option_t \<Rightarrow> option_t res" where
  "postProcessOptionsUTF8 e opt =
     (let o1 = opt\<lparr>delimiterList := (delimiterList opt)\<lparr>vdata := qsort_buffers (vdata (delimiterList opt))\<rparr>,
                   whitespaceList := (whitespaceList opt)\<lparr>vdata := qsort_buffers (vdata (whitespaceList opt))\<rparr>\<rparr>;
          cd = \<lparr>singleChar = 0, original = VECTOR_INIT_ALLOCATED, converted = VECTOR_APPEND VECTOR_INIT_ALLOCATED 32,
                casefolded = VECTOR_INIT_ALLOCATED\<rparr>
      in bind_res (classifyChar e o1 cd) (\<lambda>cat. Inr (if cat \<noteq> CAT_WHITESPACE then o1\<lparr>wdiffOutput := True\<rparr> else o1)))"

section \<open>The table of functions\<close>

text \<open>A write outside the bitmap is \<open>None\<close>.\<close>

definition ok_or_memory :: "'a option \<Rightarrow> 'a run" where
  "ok_or_memory x = map_option Inr x"

definition addDelimiters :: "env \<Rightarrow> byte list \<Rightarrow> option_t \<Rightarrow> option_t run" where
  "addDelimiters e chars opt =
     (if UTF8Mode e then bind_run (addCharactersUTF8 e opt chars (delimiterList opt)) (\<lambda>l. Some (Inr (opt\<lparr>delimiterList := l\<rparr>)))
      else bind_run (ok_or_memory (addCharactersSC chars (delimiters opt))) (\<lambda>b. Some (Inr (opt\<lparr>delimiters := b\<rparr>))))"

definition addWhitespace :: "env \<Rightarrow> byte list \<Rightarrow> option_t \<Rightarrow> option_t run" where
  "addWhitespace e chars opt =
     (if UTF8Mode e then bind_run (addCharactersUTF8 e opt chars (whitespaceList opt)) (\<lambda>l. Some (Inr (opt\<lparr>whitespaceList := l\<rparr>)))
      else bind_run (ok_or_memory (addCharactersSC chars (whitespace opt))) (\<lambda>b. Some (Inr (opt\<lparr>whitespace := b\<rparr>))))"

definition checkOverlap :: "env \<Rightarrow> option_t \<Rightarrow> unit res" where
  "checkOverlap e opt = (if UTF8Mode e then checkOverlapUTF8 e opt else checkOverlapSC opt)"

definition setPunctuation :: "env \<Rightarrow> option_t \<Rightarrow> option_t run" where
  "setPunctuation e opt = (if UTF8Mode e then Some (Inr (setPunctuationUTF8 opt)) else ok_or_memory (setPunctuationSC e opt))"

definition initOptions :: "env \<Rightarrow> option_t \<Rightarrow> option_t" where
  "initOptions e opt =
     (if UTF8Mode e then opt\<lparr>whitespaceList := VECTOR_INIT_ALLOCATED, delimiterList := VECTOR_INIT_ALLOCATED\<rparr> else opt)"

definition postProcessOptions :: "env \<Rightarrow> option_t \<Rightarrow> option_t run" where
  "postProcessOptions e opt =
     (if UTF8Mode e then Some (postProcessOptionsUTF8 e opt) else ok_or_memory (postProcessOptionsSC e opt))"

section \<open>Defaults\<close>

definition default_string :: "byte list option \<Rightarrow> byte list option" where
  "default_string p = (if p = None then Some [] else p)"

definition noDefaultMarkers :: "option_t \<Rightarrow> option_t" where
  "noDefaultMarkers opt =
     opt\<lparr>addStart := default_string (addStart opt), addStop := default_string (addStop opt),
         delStart := default_string (delStart opt), delStop := default_string (delStop opt)\<rparr>"

definition initializeOptions :: "env \<Rightarrow> option_t" where
  "initializeOptions e =
     (initOptions e (zero_options\<lparr>printDeleted := True, printAdded := True, printCommon := True,
        matchContext := 2, output_to := Stdout\<rparr>))
       \<lparr>decomposition := NFD, needStartStop := True, paraDelimMarker := str ''<-->'', paraDelimMarkerLength := 4,
        profile := Some (str ''default'')\<rparr>"

definition count_false :: "bool list \<Rightarrow> nat" where
  "count_false bs = length (filter Not bs)"

definition completeDefaults :: "option_t \<Rightarrow> option_t" where
  "completeDefaults opt =
     (if \<not> dwfilterMode opt then
        let o1 = (if delStart opt = None then opt\<lparr>delStart := Some (str ''[-''), delStartLen := 2\<rparr> else opt);
            o2 = (if delStop o1 = None then o1\<lparr>delStop := Some (str ''-]''), delStopLen := 2\<rparr> else o1);
            o3 = (if addStart o2 = None then o2\<lparr>addStart := Some (str ''{+''), addStartLen := 2\<rparr> else o2);
            o4 = (if addStop o3 = None then o3\<lparr>addStop := Some (str ''+}''), addStopLen := 2\<rparr> else o3);
            o5 = (if \<not> printCommon o4 \<and> \<not> printAdded o4 \<and> \<not> printDeleted o4 then o4\<lparr>needMarkers := False\<rparr> else o4)
        in if count_false [printAdded o5, printDeleted o5, printCommon o5] = 2 then o5\<lparr>needStartStop := False\<rparr> else o5
      else opt\<lparr>delStart := Some [], delStartLen := 0, delStop := Some [], delStopLen := 0,
               addStart := Some [], addStartLen := 0, addStop := Some [], addStopLen := 0,
               printAdded := False, needMarkers := False, needStartStop := True\<rparr>)"

end
