(* ===== verification/Commandline.thy ===== *)
theory Commandline
  imports Options
begin

text \<open>
  The parser of the command line of dwdiff: the table of options in the order of \<open>parseArgs\<close>, the
  action of every option, the first pass that looks for \<open>--profile\<close>, \<open>--dwfilter\<close> and \<open>--help\<close>
  (option\_stripped.inc), and \<open>parseCmdLine\<close>. Whether the file of \<open>--dwfilter\<close> can be opened is a
  parameter.
\<close>

datatype dwopt =
    O_delimiters | O_punctuation | O_white_space | O_help | O_version | O_no_deleted | O_no_inserted | O_no_common
  | O_ignore_case | O_ignore_formatting | O_statistics | O_autopager | O_printer | O_less_mode | O_less | O_terminal
  | O_start_delete | O_stop_delete | O_start_insert | O_stop_insert | O_avoid_wraps | O_single_dash | O_double_dash
  | O_color | O_line_numbers | O_context | O_match_context | O_aggregate_changes | O_paragraph_separator
  | O_wdiff_output | O_dwfilter | O_reverse | O_repeat_markers | O_diff_input | O_algorithm | O_profile | O_no_profile

definition option_table :: "dwopt opt_entry list" where
  "option_table =
     [OPTION 100 ''delimiters'' REQUIRED_ARG O_delimiters,
      OPTION 80 ''punctuation'' NO_ARG O_punctuation,
      OPTION 87 ''white-space'' REQUIRED_ARG O_white_space,
      OPTION 104 ''help'' NO_ARG O_help,
      OPTION 118 ''version'' NO_ARG O_version,
      OPTION 49 ''no-deleted'' NO_ARG O_no_deleted,
      OPTION 50 ''no-inserted'' NO_ARG O_no_inserted,
      OPTION 51 ''no-common'' NO_ARG O_no_common,
      OPTION 105 ''ignore-case'' NO_ARG O_ignore_case,
      OPTION 73 ''ignore-formatting'' NO_ARG O_ignore_formatting,
      OPTION 115 ''statistics'' NO_ARG O_statistics,
      OPTION 97 ''autopager'' NO_ARG O_autopager,
      OPTION 112 ''printer'' NO_ARG O_printer,
      OPTION 108 ''less-mode'' NO_ARG O_less_mode,
      LONG_OPTION ''less'' NO_ARG O_less,
      OPTION 116 ''terminal'' NO_ARG O_terminal,
      OPTION 119 ''start-delete'' REQUIRED_ARG O_start_delete,
      OPTION 120 ''stop-delete'' REQUIRED_ARG O_stop_delete,
      OPTION 121 ''start-insert'' REQUIRED_ARG O_start_insert,
      OPTION 122 ''stop-insert'' REQUIRED_ARG O_stop_insert,
      OPTION 110 ''avoid-wraps'' NO_ARG O_avoid_wraps,
      SINGLE_DASH O_single_dash,
      DOUBLE_DASH O_double_dash,
      OPTION 99 ''color'' OPTIONAL_ARG O_color,
      OPTION 76 ''line-numbers'' OPTIONAL_ARG O_line_numbers,
      OPTION 67 ''context'' REQUIRED_ARG O_context,
      OPTION 109 ''match-context'' REQUIRED_ARG O_match_context,
      LONG_OPTION ''aggregate-changes'' NO_ARG O_aggregate_changes,
      OPTION 83 ''paragraph-separator'' OPTIONAL_ARG O_paragraph_separator,
      LONG_OPTION ''wdiff-output'' NO_ARG O_wdiff_output,
      LONG_OPTION ''dwfilter'' REQUIRED_ARG O_dwfilter,
      OPTION 114 ''reverse'' NO_ARG O_reverse,
      OPTION 82 ''repeat-markers'' NO_ARG O_repeat_markers,
      OPTION 117 ''diff-input'' NO_ARG O_diff_input,
      OPTION 65 ''algorithm'' REQUIRED_ARG O_algorithm,
      LONG_OPTION ''profile'' REQUIRED_ARG O_profile,
      LONG_OPTION ''no-profile'' NO_ARG O_no_profile]"

text \<open>
  The state of the parser: the context buffers, the options, the names of the files or the
  standard input for them, the number of file arguments, and whether an option points into a copy
  that has been freed.
\<close>

record parsestate = bufstate +
  popt :: option_t
  argOld :: "byte list option"
  argNew :: "byte list option"
  stdinOld :: bool
  stdinNew :: bool
  noOptionCount :: nat
  dangling :: bool

definition map_opt :: "(option_t \<Rightarrow> option_t) \<Rightarrow> 'a parsestate_scheme \<Rightarrow> 'a parsestate_scheme" where
  "map_opt f s = s\<lparr>popt := f (popt s)\<rparr>"

definition next_opt :: "(option_t \<Rightarrow> option_t) \<Rightarrow> 'a parsestate_scheme \<Rightarrow> 'a parsestate_scheme flow run" where
  "next_opt f s = Some (Inr (Next (map_opt f s)))"

text \<open>Options that have no effect when dwfilter calls the program.\<close>

definition unless_dwfilter :: "(option_t \<Rightarrow> option_t) \<Rightarrow> 'a parsestate_scheme \<Rightarrow> 'a parsestate_scheme flow run" where
  "unless_dwfilter f s = next_opt (\<lambda>opt. if dwfilterMode opt then opt else f opt) s"

definition no_deleted :: "option_t \<Rightarrow> option_t" where
  "no_deleted opt =
     (let o1 = opt\<lparr>printDeleted := False\<rparr>;
          o2 = (if \<not> printAdded o1 then o1\<lparr>needMarkers := True\<rparr> else o1)
      in if \<not> printCommon o2 \<or> \<not> printAdded o2 then o2\<lparr>needStartStop := False\<rparr> else o2)"

definition no_inserted :: "option_t \<Rightarrow> option_t" where
  "no_inserted opt =
     (let o1 = opt\<lparr>printAdded := False\<rparr>;
          o2 = (if \<not> printDeleted o1 then o1\<lparr>needMarkers := True\<rparr> else o1)
      in if \<not> printCommon o2 \<or> \<not> printDeleted o2 then o2\<lparr>needStartStop := False\<rparr> else o2)"

definition no_common :: "option_t \<Rightarrow> option_t" where
  "no_common opt = opt\<lparr>printCommon := False, needMarkers := True\<rparr>"

text \<open>A marker: its bytes stay in the string of the argument.\<close>

definition set_marker :: "(byte list \<Rightarrow> option_t \<Rightarrow> option_t) \<Rightarrow> byte list \<Rightarrow> bool \<Rightarrow> 'a parsestate_scheme \<Rightarrow> 'a parsestate_scheme flow run" where
  "set_marker f a copied s =
     bind_run (Some (parseEscapes a)) (\<lambda>t. Some (Inr (Next (s\<lparr>popt := f t (popt s), dangling := dangling s \<or> copied\<rparr>))))"

definition set_colors :: "byte list \<Rightarrow> byte list \<Rightarrow> option_t \<Rightarrow> option_t" where
  "set_colors d a opt =
     noDefaultMarkers (opt\<lparr>delColor := Some d, addColor := Some a, delColorLen := length d, addColorLen := length a\<rparr>)"

text \<open>The colours of \<open>--color\<close>, after \<open>colorMode\<close> has been set.\<close>

definition color_option :: "env \<Rightarrow> byte list option \<Rightarrow> 'a parsestate_scheme \<Rightarrow> 'a parsestate_scheme flow run" where
  "color_option e arg s =
     (case arg of
        None \<Rightarrow>
          bind_run (parseColor e (str ''bred'')) (\<lambda>d. bind_run (parseColor e (str ''bgreen'')) (\<lambda>a. next_opt (set_colors d a) s))
      | Some v \<Rightarrow>
          if strCaseCmp (tolower e) v (str ''list'') = 0 then Some (Inr (ExitSuccess s))
          else
            let del = takeWhile (\<lambda>b. b \<noteq> 44) v;
                comma = (if length del < length v then Some (drop (length del + 1) v) else None)
            in if comma \<noteq> None \<and> 44 \<in> set (the comma) then Some (Inl (Fatal ''Invalid color specification''))
               else bind_run (parseColor e (if del = [] then str ''bred'' else del)) (\<lambda>d.
                      bind_run (parseColor e (case comma of None \<Rightarrow> str ''bgreen'' | Some c \<Rightarrow> c)) (\<lambda>a. next_opt (set_colors d a) s)))"

definition set_algorithm :: "byte list \<Rightarrow> option_t \<Rightarrow> option_t res" where
  "set_algorithm a opt =
     (if a = str ''best'' then Inr (opt\<lparr>minimal := True, speed_large_files := False\<rparr>)
      else if a = str ''normal'' then Inr (opt\<lparr>minimal := False, speed_large_files := False\<rparr>)
      else if a = str ''fast'' then Inr (opt\<lparr>minimal := False, speed_large_files := True\<rparr>)
      else Inl (Fatal ''Invalid algorithm name''))"

text \<open>An argument for a file: the standard input for a single dash, otherwise the name.\<close>

definition stdin_argument :: "'a parsestate_scheme \<Rightarrow> 'a parsestate_scheme flow run" where
  "stdin_argument s =
     (let n = noOptionCount s; s1 = s\<lparr>noOptionCount := n + 1\<rparr>
      in if n = 0 then Some (Inr (Next (s1\<lparr>stdinOld := True\<rparr>)))
         else if n = 1 then
           if argOld s1 = None then Some (Inl (Fatal ''Can't read both files from standard input''))
           else Some (Inr (Next (s1\<lparr>stdinNew := True\<rparr>)))
         else Some (Inl (Fatal ''Too many files to compare'')))"

definition file_argument :: "byte list \<Rightarrow> nat \<Rightarrow> 'a parsestate_scheme \<Rightarrow> 'a parsestate_scheme flow run" where
  "file_argument cur ind s =
     (let n = noOptionCount s; s1 = s\<lparr>noOptionCount := n + 1\<rparr>
      in if n = 0 then Some (Inr (Next (s1\<lparr>argOld := Some cur\<rparr>)))
         else if n = 1 then Some (Inr (Next (s1\<lparr>argNew := Some cur\<rparr>)))
         else Some (Inl (Fatal ''Too many files to compare'')))"

definition with_arg :: "byte list option \<Rightarrow> (byte list \<Rightarrow> 'b run) \<Rightarrow> 'b run" where
  "with_arg arg f = (case arg of Some a \<Rightarrow> f a | None \<Rightarrow> None)"

definition set_chars :: "(option_t \<Rightarrow> option_t run) \<Rightarrow> 'a parsestate_scheme \<Rightarrow> 'a parsestate_scheme flow run" where
  "set_chars f s = bind_run (f (popt s)) (\<lambda>opt. Some (Inr (Next (s\<lparr>popt := opt\<rparr>))))"

definition parseArgs_action :: "env \<Rightarrow> (byte list \<Rightarrow> bool) \<Rightarrow> (dwopt, 'a parsestate_scheme) action" where
  "parseArgs_action e can_open k arg copied ind s =
     (case k of
        O_delimiters \<Rightarrow> with_arg arg (\<lambda>a. bind_run (Some (parseEscapes a)) (\<lambda>t. set_chars (addDelimiters e t) s))
      | O_punctuation \<Rightarrow> set_chars (setPunctuation e) s
      | O_white_space \<Rightarrow>
          with_arg arg (\<lambda>a. bind_run (Some (parseEscapes a)) (\<lambda>t. set_chars (\<lambda>opt. addWhitespace e t (opt\<lparr>whitespaceSet := True\<rparr>)) s))
      | O_help \<Rightarrow> Some (Inr (ExitSuccess s))
      | O_version \<Rightarrow> Some (Inr (ExitSuccess s))
      | O_no_deleted \<Rightarrow> unless_dwfilter no_deleted s
      | O_no_inserted \<Rightarrow> unless_dwfilter no_inserted s
      | O_no_common \<Rightarrow> unless_dwfilter no_common s
      | O_ignore_case \<Rightarrow> next_opt (\<lambda>opt. opt\<lparr>ignoreCase := True\<rparr>) s
      | O_ignore_formatting \<Rightarrow>
          if UTF8Mode e then next_opt (\<lambda>opt. opt\<lparr>decomposition := NFKD\<rparr>) s
          else Some (Inl (Fatal ''Option is only supported for UTF-8 mode''))
      | O_statistics \<Rightarrow> unless_dwfilter (\<lambda>opt. opt\<lparr>statistics_wanted := True\<rparr>) s
      | O_autopager \<Rightarrow> Some (Inl (Fatal ''Option is not supported''))
      | O_printer \<Rightarrow> unless_dwfilter (\<lambda>opt. noDefaultMarkers (opt\<lparr>printer := True\<rparr>)) s
      | O_less_mode \<Rightarrow> unless_dwfilter (\<lambda>opt. noDefaultMarkers (opt\<lparr>less_mode := True\<rparr>)) s
      | O_less \<Rightarrow> unless_dwfilter (\<lambda>opt. noDefaultMarkers (opt\<lparr>less_mode := True\<rparr>)) s
      | O_terminal \<Rightarrow> Some (Inl (Fatal ''Option is not supported''))
      | O_start_delete \<Rightarrow> with_arg arg (\<lambda>a. set_marker (\<lambda>t opt. opt\<lparr>delStartLen := length t, delStart := Some t\<rparr>) a copied s)
      | O_stop_delete \<Rightarrow> with_arg arg (\<lambda>a. set_marker (\<lambda>t opt. opt\<lparr>delStopLen := length t, delStop := Some t\<rparr>) a copied s)
      | O_start_insert \<Rightarrow> with_arg arg (\<lambda>a. set_marker (\<lambda>t opt. opt\<lparr>addStartLen := length t, addStart := Some t\<rparr>) a copied s)
      | O_stop_insert \<Rightarrow> with_arg arg (\<lambda>a. set_marker (\<lambda>t opt. opt\<lparr>addStopLen := length t, addStop := Some t\<rparr>) a copied s)
      | O_avoid_wraps \<Rightarrow> Some (Inl (Fatal ''Option is not supported''))
      | O_single_dash \<Rightarrow> stdin_argument s
      | O_double_dash \<Rightarrow> Some (Inr (NoMore s))
      | O_color \<Rightarrow>
          if dwfilterMode (popt s) then Some (Inr (Next s)) else color_option e arg (map_opt (\<lambda>opt. opt\<lparr>colorMode := True\<rparr>) s)
      | O_line_numbers \<Rightarrow>
          (case arg of
             Some a \<Rightarrow> bind_run (Some (PARSE_INT e 1 INT_MAX a)) (\<lambda>v. next_opt (\<lambda>opt. opt\<lparr>lineNumbers := nat v\<rparr>) s)
           | None \<Rightarrow> next_opt (\<lambda>opt. opt\<lparr>lineNumbers := DEFAULT_LINENUMBER_WIDTH\<rparr>) s)
      | O_context \<Rightarrow>
          with_arg arg (\<lambda>a. bind_run (Some (PARSE_INT e 0 INT_MAX a)) (\<lambda>v.
            let s1 = map_opt (\<lambda>opt. opt\<lparr>contextLines := nat v, context_wanted := True\<rparr>) s
            in Some (Inr (Next (initContextBuffers (popt s1) s1)))))
      | O_match_context \<Rightarrow>
          with_arg arg (\<lambda>a. bind_run (Some (PARSE_INT e 0 ((INT_MAX - 1) div 2) a)) (\<lambda>v.
            next_opt (\<lambda>opt. opt\<lparr>matchContext := nat v * 2\<rparr>) s))
      | O_aggregate_changes \<Rightarrow> next_opt (\<lambda>opt. opt\<lparr>aggregateChanges := True\<rparr>) s
      | O_paragraph_separator \<Rightarrow>
          if dwfilterMode (popt s) then Some (Inr (Next s))
          else (case arg of
                  None \<Rightarrow> next_opt (\<lambda>opt. opt\<lparr>paraDelim := True\<rparr>) s
                | Some a \<Rightarrow>
                    set_marker (\<lambda>t opt. opt\<lparr>paraDelim := True, paraDelimMarker := t, paraDelimMarkerLength := length t\<rparr>) a copied s)
      | O_wdiff_output \<Rightarrow> next_opt (\<lambda>opt. opt\<lparr>wdiffOutput := True\<rparr>) s
      | O_dwfilter \<Rightarrow>
          with_arg arg (\<lambda>a. if can_open a then next_opt (\<lambda>opt. opt\<lparr>dwfilterMode := True, output_to := Outfile a\<rparr>) s
                            else Some (Inl (Fatal ''Error opening temporary output file'')))
      | O_reverse \<Rightarrow> if dwfilterMode (popt s) then Some (Inr (Next s)) else Some (Inl (Fatal ''Option does not exist''))
      | O_repeat_markers \<Rightarrow> unless_dwfilter (\<lambda>opt. opt\<lparr>repeatMarkers := True\<rparr>) s
      | O_diff_input \<Rightarrow> unless_dwfilter (\<lambda>opt. opt\<lparr>diffInput := True\<rparr>) s
      | O_algorithm \<Rightarrow> with_arg arg (\<lambda>a. set_chars (\<lambda>opt. Some (set_algorithm a opt)) s)
      | O_profile \<Rightarrow> next_opt (\<lambda>opt. opt\<lparr>profile := arg\<rparr>) s
      | O_no_profile \<Rightarrow> next_opt (\<lambda>opt. opt\<lparr>profile := None\<rparr>) s)"

definition parseArgs :: "env \<Rightarrow> (byte list \<Rightarrow> bool) \<Rightarrow> byte list list \<Rightarrow> 'a parsestate_scheme \<Rightarrow> 'a parsestate_scheme flow run" where
  "parseArgs e can_open argv s =
     scan_args True option_table (parseArgs_action e can_open) file_argument False 1 argv (s\<lparr>noOptionCount := 0\<rparr>)"

text \<open>The first pass knows all options, but acts only on a few; unknown options are left for the second.\<close>

definition preParseArgs_action :: "(dwopt, 'a parsestate_scheme) action" where
  "preParseArgs_action k arg copied ind s =
     (case k of
        O_help \<Rightarrow> Some (Inr (ExitSuccess s))
      | O_double_dash \<Rightarrow> Some (Inr (NoMore s))
      | O_aggregate_changes \<Rightarrow> next_opt (\<lambda>opt. opt\<lparr>aggregateChanges := True\<rparr>) s
      | O_wdiff_output \<Rightarrow> next_opt (\<lambda>opt. opt\<lparr>wdiffOutput := True\<rparr>) s
      | O_dwfilter \<Rightarrow> next_opt (\<lambda>opt. opt\<lparr>dwfilterMode := True\<rparr>) s
      | O_profile \<Rightarrow> next_opt (\<lambda>opt. opt\<lparr>profile := arg\<rparr>) s
      | O_no_profile \<Rightarrow> next_opt (\<lambda>opt. opt\<lparr>profile := None\<rparr>) s
      | _ \<Rightarrow> Some (Inr (Next s)))"

definition preParseArgs :: "byte list list \<Rightarrow> 'a parsestate_scheme \<Rightarrow> 'a parsestate_scheme flow run" where
  "preParseArgs argv s =
     scan_args False option_table preParseArgs_action (\<lambda>cur ind s. Some (Inr (Next s))) False 1 argv s"

definition initial_parse :: "env \<Rightarrow> parsestate" where
  "initial_parse e =
     \<lparr>contextBuffers = [], pstate = PRE_BUFFERING_INITIAL, ring_index = 0, afterContextLines = 0,
      stdout_bytes = [], outfile_bytes = [], popt = initializeOptions e, argOld = None, argNew = None,
      stdinOld = False, stdinNew = False, noOptionCount = 0, dangling = False\<rparr>"

text \<open>Continue after a pass unless it has ended the program; the options of the last state are used.\<close>

definition after_pass :: "'s flow run \<Rightarrow> ('s \<Rightarrow> 's flow run) \<Rightarrow> 's flow run" where
  "after_pass m f =
     bind_run m (\<lambda>fl. case fl of ExitSuccess s \<Rightarrow> Some (Inr (ExitSuccess s)) | Next s \<Rightarrow> f s | NoMore s \<Rightarrow> f s | Stop s \<Rightarrow> f s)"

text \<open>The checks of \<open>parseCmdLine\<close> after the arguments have been read.\<close>

definition check_files :: "'a parsestate_scheme \<Rightarrow> 'a parsestate_scheme res" where
  "check_files s =
     (if diffInput (popt s) then
        if argNew s \<noteq> None then Inl (Fatal ''Only one input file accepted with --diff-input'')
        else Inr (if argOld s = None then s\<lparr>stdinOld := True\<rparr> else s)
      else if argNew s = None \<and> \<not> stdinNew s then Inl (Fatal ''Need two files to compare'')
      else Inr s)"

definition finish_options :: "env \<Rightarrow> 'a parsestate_scheme \<Rightarrow> 'a parsestate_scheme flow run" where
  "finish_options e s =
     bind_run (Some (check_files s)) (\<lambda>s1.
       bind_run (postProcessOptions e (completeDefaults (popt s1))) (\<lambda>opt.
         bind_run (Some (checkOverlap e opt)) (\<lambda>_. Some (Inr (Next (s1\<lparr>popt := opt\<rparr>))))))"

definition parseCmdLine :: "env \<Rightarrow> (byte list \<Rightarrow> bool) \<Rightarrow> byte list option \<Rightarrow> (byte list \<Rightarrow> int + byte list) \<Rightarrow> byte list list \<Rightarrow>
    parsestate flow run" where
  "parseCmdLine e can_open dir fopen argv =
     after_pass (preParseArgs argv (initial_parse e)) (\<lambda>s.
       bind_run (case profile (popt s) of None \<Rightarrow> Some (Inr []) | Some p \<Rightarrow> loadProfile dir fopen (str ''.dwdiffrc'') p) (\<lambda>opts.
         after_pass (applyProfileOptions (parseArgs e can_open) opts s) (\<lambda>s1.
           after_pass (parseArgs e can_open argv s1) (\<lambda>s2. finish_options e s2))))"

end
