(* ===== verification/Optionsafety.thy ===== *)
theory Optionsafety
  imports Commandline
begin

text \<open>
  What the parsers of arguments keep. The locale \<open>argument_parser\<close> is the contract of the table of
  actions of a parser: every action and every file argument keeps a property of the state that
  may depend on the index of the next argument. The loop then keeps it for every command line.
  It is interpreted here on both passes of dwdiff with the well-formedness of the options, in
  Charsets with a property of the character sets, and in Dwfilter on the parser of dwfilter.
\<close>

section \<open>The contract\<close>

text \<open>A property of the state with which parsing goes on.\<close>

definition flow_inv :: "('s \<Rightarrow> bool) \<Rightarrow> 's flow \<Rightarrow> bool" where
  "flow_inv P fl = (case fl of Next s \<Rightarrow> P s | NoMore s \<Rightarrow> P s | Stop s \<Rightarrow> P s | ExitSuccess s \<Rightarrow> True)"

lemma flow_inv_simps [simp]:
  "flow_inv P (Next s) = P s" "flow_inv P (NoMore s) = P s" "flow_inv P (Stop s) = P s" "flow_inv P (ExitSuccess s) = True"
  by (simp_all add: flow_inv_def)

text \<open>What a computation returns if it returns a value.\<close>

definition result_inv :: "('a \<Rightarrow> bool) \<Rightarrow> 'a run \<Rightarrow> bool" where
  "result_inv P r \<longleftrightarrow> (\<forall>x. r = Some (Inr x) \<longrightarrow> P x)"

lemma result_inv_simps [simp]:
  "result_inv P None" "result_inv P (Some (Inl e))" "result_inv P (Some (Inr x)) = P x"
  by (simp_all add: result_inv_def)

lemma result_inv_bind:
  assumes "result_inv Q m" "\<And>x. Q x \<Longrightarrow> result_inv P (f x)"
  shows "result_inv P (bind_run m f)"
  using assms by (cases m) (auto simp: bind_run_def result_inv_def split: sum.splits)

lemma result_inv_mono: "result_inv P m \<Longrightarrow> (\<And>x. P x \<Longrightarrow> Q x) \<Longrightarrow> result_inv Q m"
  by (auto simp: result_inv_def)

lemma flow_inv_mono: "flow_inv P fl \<Longrightarrow> (\<And>s. P s \<Longrightarrow> Q s) \<Longrightarrow> flow_inv Q fl"
  by (auto simp: flow_inv_def split: flow.splits)

text \<open>
  \<open>files k\<close> says that the action \<open>k\<close> takes the place of a file argument: its index counts as
  used. Such an action belongs to the single dash.
\<close>

locale argument_parser =
  fixes tbl :: "'k opt_entry list"
    and act :: "('k, 's) action"
    and no_option :: "byte list \<Rightarrow> nat \<Rightarrow> 's \<Rightarrow> 's flow run"
    and files :: "'k \<Rightarrow> bool"
    and P :: "nat \<Rightarrow> 's \<Rightarrow> bool"
  assumes act_keeps: "P i s \<Longrightarrow> result_inv (flow_inv (P (if files k then Suc i else i))) (act k arg copied i s)"
    and no_option_keeps: "P i s \<Longrightarrow> result_inv (flow_inv (P (Suc i))) (no_option cur i s)"
    and later: "P i s \<Longrightarrow> i \<le> j \<Longrightarrow> P j s"
    and single_dash: "o' \<in> set tbl \<Longrightarrow> files (okey o') \<Longrightarrow> shortName o' = Some c \<Longrightarrow> c = 0"
begin

text \<open>The property at the index after the arguments that have been used; the next one is used only if there is one.\<close>

definition kept_after :: "nat \<Rightarrow> byte list option \<Rightarrow> bool \<times> 's flow \<Rightarrow> bool" where
  "kept_after i following x \<longleftrightarrow>
     flow_inv (P (if fst x then Suc (Suc i) else Suc i)) (snd x) \<and> (fst x \<longrightarrow> following \<noteq> None)"

lemma kept_after_simps [simp]:
  "kept_after i following (False, fl) = flow_inv (P (Suc i)) fl"
  "kept_after i (Some a) (True, fl) = flow_inv (P (Suc (Suc i))) fl"
  by (simp_all add: kept_after_def)

lemma flow_later: "flow_inv (P i) fl \<Longrightarrow> i \<le> j \<Longrightarrow> flow_inv (P j) fl"
  using later by (auto elim: flow_inv_mono)

lemma act_next: "P i s \<Longrightarrow> result_inv (flow_inv (P (Suc i))) (act k arg copied i s)"
  using act_keeps [of i s k arg copied] flow_later [of i] by (auto elim!: result_inv_mono split: if_splits)

lemma act_step:
  "P i s \<Longrightarrow> result_inv (kept_after i following) (bind_run (act k arg copied i s) (\<lambda>fl. Some (Inr (False, fl))))"
  by (rule result_inv_bind [OF act_next]) simp_all

lemma act_following:
  "P i s \<Longrightarrow> result_inv (kept_after i (Some a)) (bind_run (act k arg copied (Suc i) s) (\<lambda>fl. Some (Inr (True, fl))))"
  by (rule result_inv_bind [OF act_next]) (auto intro: later)

lemma short_keeps:
  "P i s \<Longrightarrow> (\<exists>k. files k) \<longrightarrow> 0 \<notin> set cs \<Longrightarrow> result_inv (kept_after i following) (short_options strict tbl act cs following copied i s)"
proof (induction cs arbitrary: s copied)
  case Nil
  have "P (Suc i) s" by (rule later [OF Nil(1)]) simp
  with act_step [OF Nil(1)] act_following [OF Nil(1)] show ?case
    by (auto split: option.split arg_req.split)
next
  case (Cons c cs)
  have s1: "P (Suc i) s" by (rule later [OF Cons.prems(1)]) simp
  show ?case
  proof (cases "find_short tbl c")
    case (Some o')
    show ?thesis
    proof (cases "argReq o'")
      case NO_ARG
      have "o' \<in> set tbl" "shortName o' = Some c" using Some by (auto simp: find_short_def find_Some_iff)
      then have "\<not> files (okey o')" using single_dash Cons.prems(2) by auto
      with act_keeps [OF Cons.prems(1), of "okey o'"]
      have *: "result_inv (flow_inv (P i)) (act (okey o') None False i s)" by simp
      have "result_inv (kept_after i following)
          (case fl of
             Next s1 \<Rightarrow> if cs = [] then Some (Inr (False, Next s1)) else short_options strict tbl act cs following True i s1
           | _ \<Rightarrow> Some (Inr (False, fl)))" if "flow_inv (P i) fl" for fl
        using flow_later [OF that, of "Suc i"] that Cons.IH Cons.prems(2) by (cases fl) auto
      from result_inv_bind [OF * this] show ?thesis using Some NO_ARG by simp
    qed (use Some act_step [OF Cons.prems(1)] act_following [OF Cons.prems(1)] in \<open>auto split: option.split\<close>)
  qed (use s1 in simp)
qed

lemma long_keeps: "P i s \<Longrightarrow> result_inv (kept_after i following) (long_option strict tbl act cur following i s)"
  using act_step [of i s] act_following [of i s] later [of i s "Suc i"]
  by (auto simp: long_option_def Let_def split: option.split arg_req.split)

lemma one_keeps:
  assumes "P i s" "(\<exists>k. files k) \<longrightarrow> 0 \<notin> set cur"
  shows "result_inv (kept_after i following) (one_argument strict tbl act no_option optnomore i cur following s)"
proof -
  have "result_inv (kept_after i following) (bind_run (no_option cur i s) (\<lambda>fl. Some (Inr (False, fl))))"
    by (rule result_inv_bind [OF no_option_keeps [OF assms(1)]]) simp
  moreover have "(\<exists>k. files k) \<longrightarrow> 0 \<notin> set (tl cur)" using assms(2) by (cases cur) auto
  ultimately show ?thesis
    using short_keeps [OF assms(1)] long_keeps [OF assms(1)] by (simp add: one_argument_def)
qed

lemma scan_keeps:
  "P i s \<Longrightarrow> \<forall>a \<in> set args. (\<exists>k. files k) \<longrightarrow> 0 \<notin> set a \<Longrightarrow>
     result_inv (flow_inv (P (i + length args))) (scan_args strict tbl act no_option optnomore i args s)"
proof (induction args arbitrary: i s optnomore rule: length_induct)
  case (1 args)
  show ?case
  proof (cases args)
    case Nil
    with "1.prems" show ?thesis by simp
  next
    case (Cons cur rest)
    have "(\<exists>k. files k) \<longrightarrow> 0 \<notin> set cur" using "1.prems"(2) Cons by simp
    note one = one_keeps [OF "1.prems"(1) this, of "first_of rest" strict optnomore]
    have go: "result_inv (flow_inv (P (i + length args))) (scan_args strict tbl act no_option om j rs s1)"
      if "P j s1" "length rs < length args" "set rs \<subseteq> set args" "j + length rs = i + length args" for om j rs s1
      using "1.IH" [rule_format, OF that(2,1)] "1.prems"(2) that(3,4) by auto
    have "result_inv (flow_inv (P (i + length args)))
        (let ind' = (if consumed then i + 2 else i + 1); rest' = (if consumed then tl rest else rest)
         in case fl of
              Next s1 \<Rightarrow> scan_args strict tbl act no_option optnomore ind' rest' s1
            | NoMore s1 \<Rightarrow> scan_args strict tbl act no_option True ind' rest' s1
            | Stop s1 \<Rightarrow> Some (Inr (Stop s1))
            | ExitSuccess s1 \<Rightarrow> Some (Inr (ExitSuccess s1)))"
      if "kept_after i (first_of rest) (consumed, fl)" for consumed fl
    proof -
      define j rs where "j = (if consumed then i + 2 else i + 1)" and "rs = (if consumed then tl rest else rest)"
      have "consumed \<longrightarrow> rest \<noteq> []" and fl: "flow_inv (P j) fl"
        using that by (auto simp: kept_after_def first_of_def j_def split: list.splits)
      then have n: "j + length rs = i + length args" "length rs < length args" "set rs \<subseteq> set args"
        unfolding j_def rs_def Cons by (cases rest; auto)+
      show ?thesis unfolding j_def [symmetric] rs_def [symmetric] Let_def
        using go [OF _ n(2,3,1)] fl later [of j _ "i + length args"] n(1) by (cases fl) auto
    qed
    note step = this
    show ?thesis unfolding Cons scan_args.simps(2)
      by (rule result_inv_bind [OF one], unfold case_prod_unfold, unfold Cons [symmetric], rule step) simp
  qed
qed

end

section \<open>The options of dwdiff\<close>

text \<open>A block of bytes and its length; a null pointer has length 0.\<close>

definition sized :: "byte list option \<Rightarrow> nat \<Rightarrow> bool" where
  "sized p n \<longleftrightarrow> n = length (at_pointer p)"

definition opt_wf :: "option_t \<Rightarrow> bool" where
  "opt_wf opt \<longleftrightarrow>
     sized (delStart opt) (delStartLen opt) \<and> sized (delStop opt) (delStopLen opt) \<and>
     sized (addStart opt) (addStartLen opt) \<and> sized (addStop opt) (addStopLen opt) \<and>
     sized (delColor opt) (delColorLen opt) \<and> sized (addColor opt) (addColorLen opt) \<and>
     (colorMode opt \<longrightarrow> delColor opt \<noteq> None \<and> addColor opt \<noteq> None) \<and>
     length (delimiters opt) = BITMASK_SIZE \<and> length (whitespace opt) = BITMASK_SIZE \<and>
     paraDelimMarkerLength opt = length (paraDelimMarker opt) \<and>
     even (matchContext opt) \<and> int (matchContext opt) < INT_MAX \<and> int (lineNumbers opt) \<le> INT_MAX \<and> int (contextLines opt) \<le> INT_MAX"

text \<open>
  The state of the parser: there are context buffers for the number of lines, and a second file
  only after a first one; the standard input is the second file only after a named one.
\<close>

definition parse_wf :: "'a parsestate_scheme \<Rightarrow> bool" where
  "parse_wf s \<longleftrightarrow> opt_wf (popt s) \<and>
     (context_wanted (popt s) \<longrightarrow> contextBuffers s = replicate (contextLines (popt s) + 1) VECTOR_INIT) \<and>
     (noOptionCount s > 0 \<or> argNew s \<noteq> None \<longrightarrow> argOld s \<noteq> None \<or> stdinOld s) \<and> (stdinNew s \<longrightarrow> argOld s \<noteq> None)"

text \<open>A change of the options that keeps them well formed and leaves the number of context lines alone.\<close>

definition opt_step :: "option_t \<Rightarrow> option_t \<Rightarrow> bool" where
  "opt_step opt opt' \<longleftrightarrow> (opt_wf opt \<longrightarrow> opt_wf opt') \<and> context_wanted opt' = context_wanted opt \<and> contextLines opt' = contextLines opt"

lemmas option_defs = opt_step_def opt_wf_def sized_def at_pointer_def

lemma parse_step: "parse_wf s \<Longrightarrow> opt_step (popt s) opt \<Longrightarrow> parse_wf (s\<lparr>popt := opt\<rparr>)"
  by (simp add: parse_wf_def opt_step_def)

lemma parse_step_dangling: "parse_wf s \<Longrightarrow> opt_step (popt s) opt \<Longrightarrow> parse_wf (s\<lparr>popt := opt, dangling := b\<rparr>)"
  by (simp add: parse_wf_def opt_step_def)

lemma next_opt_keeps: "parse_wf s \<Longrightarrow> opt_step (popt s) (f (popt s)) \<Longrightarrow> result_inv (flow_inv parse_wf) (next_opt f s)"
  by (simp add: next_opt_def map_opt_def parse_step)

lemma unless_keeps: "parse_wf s \<Longrightarrow> opt_step (popt s) (f (popt s)) \<Longrightarrow> result_inv (flow_inv parse_wf) (unless_dwfilter f s)"
  unfolding unless_dwfilter_def by (rule next_opt_keeps) (auto simp: opt_step_def)

lemma set_chars_keeps:
  "parse_wf s \<Longrightarrow> result_inv (opt_step (popt s)) (f (popt s)) \<Longrightarrow> result_inv (flow_inv parse_wf) (set_chars f s)"
  unfolding set_chars_def by (erule result_inv_bind) (simp add: parse_step)

lemma set_marker_keeps:
  "parse_wf s \<Longrightarrow> (\<And>t. opt_step (popt s) (f t (popt s))) \<Longrightarrow> result_inv (flow_inv parse_wf) (set_marker f a copied s)"
  unfolding set_marker_def by (rule result_inv_bind [of "\<lambda>_. True"]) (simp_all add: result_inv_def parse_step_dangling)

lemma with_arg_keeps: "(\<And>a. result_inv Q (f a)) \<Longrightarrow> result_inv Q (with_arg arg f)"
  by (simp add: with_arg_def split: option.split)

lemma escapes_keeps: "(\<And>t. result_inv Q (f t)) \<Longrightarrow> result_inv Q (bind_run (Some (parseEscapes a)) f)"
  by (rule result_inv_bind [of "\<lambda>_. True"]) (simp_all add: result_inv_def)

lemma PARSE_INT_range: "PARSE_INT e lo hi a = Inr v \<Longrightarrow> lo \<le> v \<and> v \<le> hi"
  by (auto simp: PARSE_INT_def case_prod_unfold Let_def split: if_splits)

lemma number_keeps:
  "(\<And>v. lo \<le> v \<Longrightarrow> v \<le> hi \<Longrightarrow> result_inv Q (f v)) \<Longrightarrow> result_inv Q (bind_run (Some (PARSE_INT e lo hi a)) f)"
  by (rule result_inv_bind [of "\<lambda>v. lo \<le> v \<and> v \<le> hi"]) (auto simp: result_inv_def dest: PARSE_INT_range)

section \<open>The bit sets\<close>

lemma SET_BIT_length: "SET_BIT x b = Some y \<Longrightarrow> length y = length x"
  by (auto simp: SET_BIT_def Let_def split: if_splits)

lemma addCharactersSC_length: "addCharactersSC cs x = Some y \<Longrightarrow> length y = length x"
  by (induction cs arbitrary: x) (auto dest: SET_BIT_length split: option.splits)

lemma set_bits_length: "set_bits P is x = Some y \<Longrightarrow> length y = length x"
  by (induction "is" arbitrary: x) (auto dest: SET_BIT_length split: option.splits if_splits)

lemma set_field_step:
  "opt_step opt (opt\<lparr>delimiterList := l\<rparr>)" "opt_step opt (opt\<lparr>whitespaceList := l\<rparr>)" "opt_step opt (setPunctuationUTF8 opt)"
  by (simp_all add: option_defs setPunctuationUTF8_def)

lemma addCharactersSC_keeps:
  "(\<And>b. length b = length x \<Longrightarrow> result_inv Q (f b)) \<Longrightarrow> result_inv Q (bind_run (ok_or_memory (addCharactersSC cs x)) f)"
  by (rule result_inv_bind [of "\<lambda>b. length b = length x"]) (auto simp: result_inv_def ok_or_memory_def dest: addCharactersSC_length)

lemma any_result: "(\<And>x. result_inv Q (f x)) \<Longrightarrow> result_inv Q (bind_run m f)"
  by (rule result_inv_bind [of "\<lambda>_. True"]) (simp_all add: result_inv_def)

lemma addDelimiters_step: "result_inv (opt_step opt) (addDelimiters e cs opt)"
  unfolding addDelimiters_def
  by (cases "UTF8Mode e"; simp; intro any_result addCharactersSC_keeps; simp add: option_defs)

lemma addWhitespace_step: "result_inv (opt_step opt) (addWhitespace e cs (opt\<lparr>whitespaceSet := True\<rparr>))"
  unfolding addWhitespace_def
  by (cases "UTF8Mode e"; simp; intro any_result addCharactersSC_keeps; simp add: option_defs)

lemma setPunctuation_step: "result_inv (opt_step opt) (setPunctuation e opt)"
  unfolding setPunctuation_def setPunctuationSC_def
  by (auto simp: result_inv_def set_field_step ok_or_memory_def) (simp add: option_defs set_bits_length)

lemma set_algorithm_step: "result_inv (opt_step opt) (Some (set_algorithm a opt))"
  by (auto simp: result_inv_def set_algorithm_def option_defs split: if_splits)

section \<open>The actions\<close>

lemma noDefaultMarkers_step: "opt_step opt (noDefaultMarkers opt)"
  by (auto simp: option_defs noDefaultMarkers_def default_string_def split: option.splits)

lemma opt_step_trans: "opt_step a b \<Longrightarrow> opt_step b c \<Longrightarrow> opt_step a c"
  by (simp add: opt_step_def)

lemma set_colors_wf: "parse_wf (map_opt (\<lambda>opt. opt\<lparr>colorMode := False\<rparr>) s) \<Longrightarrow> parse_wf (map_opt (set_colors d a) s)"
  by (auto simp: parse_wf_def map_opt_def set_colors_def option_defs noDefaultMarkers_def default_string_def split: option.splits)

lemma color_keeps:
  assumes "parse_wf s"
  shows "result_inv (flow_inv parse_wf) (color_option e arg (map_opt (\<lambda>opt. opt\<lparr>colorMode := True\<rparr>) s))"
proof -
  have "parse_wf (map_opt (set_colors d a) (map_opt (\<lambda>opt. opt\<lparr>colorMode := True\<rparr>) s))" for d a
    by (rule set_colors_wf) (use assms in \<open>simp add: parse_wf_def map_opt_def option_defs\<close>)
  then show ?thesis
    unfolding color_option_def
    by (auto simp: next_opt_def Let_def split: option.split intro!: any_result)
qed

lemma files_keep:
  "parse_wf s \<Longrightarrow> result_inv (flow_inv parse_wf) (stdin_argument s)"
  "parse_wf s \<Longrightarrow> result_inv (flow_inv parse_wf) (file_argument cur i s)"
  by (auto simp: parse_wf_def stdin_argument_def file_argument_def Let_def)

lemma no_deleted_step: "opt_step opt (no_deleted opt)" "opt_step opt (no_inserted opt)" "opt_step opt (no_common opt)"
  by (simp_all add: option_defs no_deleted_def no_inserted_def no_common_def Let_def)

lemma context_keeps:
  "parse_wf s \<Longrightarrow> 0 \<le> v \<Longrightarrow> v \<le> INT_MAX \<Longrightarrow>
     parse_wf (let s1 = map_opt (\<lambda>opt. opt\<lparr>contextLines := nat v, context_wanted := True\<rparr>) s in initContextBuffers (popt s1) s1)"
  by (simp add: parse_wf_def map_opt_def initContextBuffers_def option_defs)

lemma parseArgs_action_keeps:
  assumes wf: "parse_wf s"
  shows "result_inv (flow_inv parse_wf) (parseArgs_action e can_open k arg copied i s)"
proof -
  have c: "result_inv (flow_inv parse_wf) (Some (Inr (Next (initContextBuffers (popt (map_opt (\<lambda>opt. opt\<lparr>contextLines := nat v, context_wanted := True\<rparr>) s))
      (map_opt (\<lambda>opt. opt\<lparr>contextLines := nat v, context_wanted := True\<rparr>) s)))))" if "0 \<le> v" "v \<le> INT_MAX" for v
    using context_keeps [OF wf that] by (simp add: Let_def)
  have m: "opt_step opt (opt\<lparr>matchContext := nat v * 2\<rparr>)" if "0 \<le> v" "v \<le> (INT_MAX - 1) div 2" for opt v
    using that by (simp add: option_defs INT_MAX_def)
  note keeps = next_opt_keeps [OF wf] unless_keeps [OF wf] set_chars_keeps [OF wf] set_marker_keeps [OF wf] with_arg_keeps
    escapes_keeps number_keeps color_keeps [OF wf] files_keep(1) [OF wf]
  show ?thesis
  proof (cases k)
    case O_context
    then show ?thesis unfolding parseArgs_action_def Let_def by (auto intro!: keeps c)
  next
    case O_match_context
    then show ?thesis unfolding parseArgs_action_def by (auto intro!: keeps m)
  next
    case O_delimiters
    then show ?thesis unfolding parseArgs_action_def by (auto intro!: keeps addDelimiters_step)
  next
    case O_white_space
    then show ?thesis unfolding parseArgs_action_def by (auto intro!: keeps addWhitespace_step)
  next
    case O_color
    then show ?thesis unfolding parseArgs_action_def using wf by (auto intro!: keeps)
  next
    case O_printer
    then show ?thesis unfolding parseArgs_action_def
      by (auto intro!: keeps opt_step_trans [OF _ noDefaultMarkers_step] simp: option_defs)
  next
    case O_less_mode
    then show ?thesis unfolding parseArgs_action_def
      by (auto intro!: keeps opt_step_trans [OF _ noDefaultMarkers_step] simp: option_defs)
  next
    case O_less
    then show ?thesis unfolding parseArgs_action_def
      by (auto intro!: keeps opt_step_trans [OF _ noDefaultMarkers_step] simp: option_defs)
  next
    case O_line_numbers
    then show ?thesis unfolding parseArgs_action_def
      by (auto intro!: keeps simp: option_defs INT_MAX_def DEFAULT_LINENUMBER_WIDTH_def split: option.split)
  qed (use wf in \<open>auto simp: parseArgs_action_def option_defs intro!: keeps no_deleted_step setPunctuation_step set_algorithm_step split: option.split\<close>)
qed

lemma preParseArgs_action_keeps: "parse_wf s \<Longrightarrow> result_inv (flow_inv parse_wf) (preParseArgs_action k arg copied i s)"
  unfolding preParseArgs_action_def by (cases k) (auto intro!: next_opt_keeps simp: option_defs)

interpretation dwargs: argument_parser option_table "parseArgs_action e can_open" file_argument "\<lambda>_. False" "\<lambda>_. parse_wf" for e can_open
  by unfold_locales (auto intro: parseArgs_action_keeps files_keep)

interpretation preargs: argument_parser option_table preParseArgs_action "\<lambda>cur i s. Some (Inr (Next s))" "\<lambda>_. False" "\<lambda>_. parse_wf"
  by unfold_locales (auto intro: preParseArgs_action_keeps)

section \<open>The command line\<close>

lemma after_pass_keeps:
  "result_inv (flow_inv P) m \<Longrightarrow> (\<And>s. P s \<Longrightarrow> result_inv (flow_inv Q) (f s)) \<Longrightarrow> result_inv (flow_inv Q) (after_pass m f)"
  unfolding after_pass_def by (erule result_inv_bind) (auto split: flow.split)

lemma profile_keeps:
  "(\<And>a s. P s \<Longrightarrow> result_inv (flow_inv P) (parse a s)) \<Longrightarrow> P s \<Longrightarrow> result_inv (flow_inv P) (applyProfileOptions parse opts s)"
proof (induction opts arbitrary: s)
  case (Cons a opts)
  show ?case unfolding applyProfileOptions.simps
    by (rule result_inv_bind [OF Cons.prems(1) [OF Cons.prems(2)]]) (use Cons in \<open>auto split: flow.split\<close>)
qed simp

lemma parseArgs_keeps: "parse_wf s \<Longrightarrow> result_inv (flow_inv parse_wf) (parseArgs e can_open argv s)"
  using dwargs.scan_keeps [of "s\<lparr>noOptionCount := 0\<rparr>" argv]
  by (simp add: parseArgs_def parse_wf_def)

lemma preParseArgs_keeps: "parse_wf s \<Longrightarrow> result_inv (flow_inv parse_wf) (preParseArgs argv s)"
  using preargs.scan_keeps [of s argv] by (simp add: preParseArgs_def)

lemma initial_parse_wf: "parse_wf (initial_parse e)"
  by (simp add: parse_wf_def initial_parse_def initializeOptions_def initOptions_def option_defs zero_options_def INT_MAX_def
      str_def BITMASK_SIZE_def)

text \<open>The options that the program runs with.\<close>

definition marker_wf :: "byte list option \<Rightarrow> nat \<Rightarrow> bool" where
  "marker_wf p n \<longleftrightarrow> (\<exists>t. p = Some t \<and> length t = n)"

definition run_wf :: "'a parsestate_scheme \<Rightarrow> bool" where
  "run_wf s \<longleftrightarrow> parse_wf s \<and>
     marker_wf (delStart (popt s)) (delStartLen (popt s)) \<and> marker_wf (delStop (popt s)) (delStopLen (popt s)) \<and>
     marker_wf (addStart (popt s)) (addStartLen (popt s)) \<and> marker_wf (addStop (popt s)) (addStopLen (popt s)) \<and>
     (argOld s \<noteq> None \<or> stdinOld s) \<and> (diffInput (popt s) \<or> argNew s \<noteq> None \<or> stdinNew s)"

lemma completeDefaults_step: "opt_step opt (completeDefaults opt)"
  by (auto simp: completeDefaults_def Let_def option_defs str_def)

lemma completeDefaults_markers:
  "opt_wf opt \<Longrightarrow> let o1 = completeDefaults opt in marker_wf (delStart o1) (delStartLen o1) \<and> marker_wf (delStop o1) (delStopLen o1) \<and>
     marker_wf (addStart o1) (addStartLen o1) \<and> marker_wf (addStop o1) (addStopLen o1)"
  by (auto simp: completeDefaults_def Let_def option_defs str_def marker_wf_def)

text \<open>The sets, their tests and the choice of the output format touch nothing else.\<close>

definition same_markers :: "option_t \<Rightarrow> option_t \<Rightarrow> bool" where
  "same_markers o1 o2 \<longleftrightarrow> opt_step o1 o2 \<and> diffInput o2 = diffInput o1 \<and>
     delStart o2 = delStart o1 \<and> delStartLen o2 = delStartLen o1 \<and> delStop o2 = delStop o1 \<and> delStopLen o2 = delStopLen o1 \<and>
     addStart o2 = addStart o1 \<and> addStartLen o2 = addStartLen o1 \<and> addStop o2 = addStop o1 \<and> addStopLen o2 = addStopLen o1"

lemma same_markers_field:
  "length b = length (whitespace opt) \<Longrightarrow> same_markers opt (opt\<lparr>whitespace := b\<rparr>)" "same_markers opt (opt\<lparr>wdiffOutput := True\<rparr>)"
  "same_markers opt opt" "same_markers opt (opt\<lparr>delimiterList := ds, whitespaceList := ws\<rparr>)"
  by (simp_all add: same_markers_def option_defs)

lemma same_markers_trans: "same_markers a b \<Longrightarrow> same_markers b c \<Longrightarrow> same_markers a c"
  unfolding same_markers_def using opt_step_trans by auto

lemma same_markers_if: "same_markers a b \<Longrightarrow> same_markers a (if P then b\<lparr>wdiffOutput := True\<rparr> else b)"
  using same_markers_field(2) same_markers_trans by auto

lemma postProcessOptions_step: "result_inv (same_markers opt) (postProcessOptions e opt)"
proof (cases "UTF8Mode e")
  case True
  have "result_inv (same_markers opt) (Some (bind_res (classifyChar e o1 cd) (\<lambda>cat. Inr (if cat \<noteq> CAT_WHITESPACE then o1\<lparr>wdiffOutput := True\<rparr> else o1))))"
    if "same_markers opt o1" for o1 cd
    using same_markers_if [OF that] by (simp add: bind_res_def split: sum.split)
  from this [OF same_markers_field(4)] True show ?thesis
    by (simp add: postProcessOptions_def postProcessOptionsUTF8_def Let_def)
next
  case False
  have "same_markers opt o1"
    if "(if \<not> whitespaceSet opt then map_option (\<lambda>b. opt\<lparr>whitespace := b\<rparr>) (set_bits P is (whitespace opt)) else Some opt) = Some o1"
    for o1 P "is"
    using that by (auto split: if_splits dest!: set_bits_length intro: same_markers_field)
  note w = this
  have "result_inv (same_markers opt) (ok_or_memory (map_option (\<lambda>o1. if C o1 then o1\<lparr>wdiffOutput := True\<rparr> else o1) m))"
    if "\<And>o1. m = Some o1 \<Longrightarrow> same_markers opt o1" for m C
    using same_markers_if that by (cases m) (simp_all add: ok_or_memory_def)
  note r = this [OF w]
  from False show ?thesis unfolding postProcessOptions_def postProcessOptionsSC_def by (simp only: if_False) (rule r)
qed

lemma finish_options_wf:
  assumes "parse_wf s"
  shows "result_inv (flow_inv run_wf) (finish_options e s)"
proof -
  have c: "parse_wf s1 \<and> (argOld s1 \<noteq> None \<or> stdinOld s1) \<and> (diffInput (popt s1) \<or> argNew s1 \<noteq> None \<or> stdinNew s1)"
    if "check_files s = Inr s1" for s1
    using that assms by (auto simp: check_files_def parse_wf_def split: if_splits)
  have "run_wf (s1\<lparr>popt := opt\<rparr>)"
    if "check_files s = Inr s1" "same_markers (completeDefaults (popt s1)) opt" for s1 opt
  proof -
    from c [OF that(1)] have "parse_wf s1" by blast
    moreover have "opt_step (popt s1) opt" "diffInput opt = diffInput (completeDefaults (popt s1))"
      using that(2) opt_step_trans [OF completeDefaults_step] by (auto simp: same_markers_def)
    moreover have "diffInput (completeDefaults (popt s1)) = diffInput (popt s1)"
      by (simp add: completeDefaults_def Let_def)
    moreover have "opt_wf (popt s1)" using c [OF that(1)] by (simp add: parse_wf_def)
    from completeDefaults_markers [OF this] have
      "marker_wf (delStart opt) (delStartLen opt) \<and> marker_wf (delStop opt) (delStopLen opt) \<and>
       marker_wf (addStart opt) (addStartLen opt) \<and> marker_wf (addStop opt) (addStopLen opt)"
      using that(2) by (simp add: same_markers_def Let_def)
    ultimately show ?thesis using c [OF that(1)] parse_step by (auto simp: run_wf_def)
  qed
  then show ?thesis unfolding finish_options_def
    by (intro result_inv_bind [of "\<lambda>s1. check_files s = Inr s1"] result_inv_bind [OF postProcessOptions_step] any_result)
      (auto simp: result_inv_def)
qed

lemma parseCmdLine_wf: "result_inv (flow_inv run_wf) (parseCmdLine e can_open dir fopen argv)"
  unfolding parseCmdLine_def
  by (intro after_pass_keeps [OF preParseArgs_keeps [OF initial_parse_wf]] any_result
      after_pass_keeps [OF profile_keeps] after_pass_keeps [OF parseArgs_keeps] finish_options_wf) (erule parseArgs_keeps)

end
