(* ===== verification/Charsets.thy ===== *)
theory Charsets
  imports Optionsafety
begin

text \<open>
  The sets of delimiters and white space: the bits of a set after the options have been read, and
  the sorted lists of the UTF-8 mode. The sets do not overlap when the program starts.
\<close>

section \<open>Bits\<close>

lemma low_bits: "c AND 7 = (c mod 8 :: int)" "drop_bit 3 c = (c div 8 :: int)"
proof -
  have "c AND mask 3 = take_bit 3 c" by (simp add: take_bit_eq_mask)
  moreover have "mask 3 = (7 :: int)" by (simp add: mask_eq_exp_minus_1)
  ultimately show "c AND 7 = c mod 8" by (simp add: take_bit_eq_mod)
qed (simp add: drop_bit_int_def)

lemma TEST_BIT_bit: "TEST_BIT x c = (if 0 \<le> c \<and> nat (c div 8) < length x then Some (bit (x ! nat (c div 8)) (nat (c mod 8))) else None)"
proof -
  have "0 \<le> c div 8 \<longleftrightarrow> 0 \<le> c" by linarith
  then show ?thesis by (simp add: TEST_BIT_def low_bits Let_def bit_iff_and_push_bit_not_eq_0)
qed

lemma SET_BIT_bit: "SET_BIT x b = (if 0 \<le> b \<and> nat (b div 8) < length x
    then Some (x[nat (b div 8) := set_bit (nat (b mod 8)) (x ! nat (b div 8))]) else None)"
proof -
  have "0 \<le> b div 8 \<longleftrightarrow> 0 \<le> b" by linarith
  then show ?thesis by (simp add: SET_BIT_def low_bits Let_def set_bit_eq_or)
qed

lemma set_bits_total:
  "(\<And>i. i \<in> set is \<Longrightarrow> 0 \<le> i \<and> i < 256) \<Longrightarrow> length x = BITMASK_SIZE \<Longrightarrow>
     \<exists>y. set_bits P is x = Some y \<and> length y = BITMASK_SIZE \<and>
       (\<forall>c. 0 \<le> c \<longrightarrow> c < 256 \<longrightarrow> (TEST_BIT y c = Some True \<longleftrightarrow> TEST_BIT x c = Some True \<or> c \<in> set is \<and> P c))"
proof (induction "is" arbitrary: x)
  case (Cons i "is")
  have "0 \<le> i \<and> i < 256" using Cons.prems(1) by simp
  moreover from this have "nat (i div 8) < 32" by linarith
  ultimately obtain x1 where x1: "SET_BIT x i = Some x1" using Cons.prems(2) by (auto simp: SET_BIT_bit BITMASK_SIZE_def)
  show ?case
  proof (cases "P i")
    case True
    from Cons.IH [of x1] Cons.prems SET_BIT_length [OF x1] obtain y where
      "set_bits P is x1 = Some y" "length y = BITMASK_SIZE"
      "\<forall>c. 0 \<le> c \<longrightarrow> c < 256 \<longrightarrow> (TEST_BIT y c = Some True \<longleftrightarrow> TEST_BIT x1 c = Some True \<or> c \<in> set is \<and> P c)" by auto
    then show ?thesis using True x1 TEST_SET_BIT [OF x1] by auto
  next
    case False
    from Cons.IH [of x] Cons.prems obtain y where
      "set_bits P is x = Some y" "length y = BITMASK_SIZE"
      "\<forall>c. 0 \<le> c \<longrightarrow> c < 256 \<longrightarrow> (TEST_BIT y c = Some True \<longleftrightarrow> TEST_BIT x c = Some True \<or> c \<in> set is \<and> P c)" by auto
    then show ?thesis using False by auto
  qed
qed simp

section \<open>White space before the option\<close>

text \<open>Without the option \<open>-W\<close> the set of white space is empty until the options are completed.\<close>

definition set_wf :: "'a parsestate_scheme \<Rightarrow> bool" where
  "set_wf s \<longleftrightarrow> (\<not> whitespaceSet (popt s) \<longrightarrow> whitespace (popt s) = replicate BITMASK_SIZE 0)"

definition same_set :: "option_t \<Rightarrow> option_t \<Rightarrow> bool" where
  "same_set o1 o2 \<longleftrightarrow> whitespaceSet o2 \<or> whitespaceSet o2 = whitespaceSet o1 \<and> whitespace o2 = whitespace o1"

lemma set_step: "set_wf s \<Longrightarrow> same_set (popt s) (popt t) \<Longrightarrow> set_wf t"
  by (auto simp: set_wf_def same_set_def)

lemma set_next: "set_wf s \<Longrightarrow> same_set (popt s) (f (popt s)) \<Longrightarrow> result_inv (flow_inv set_wf) (next_opt f s)"
  by (auto simp: next_opt_def map_opt_def intro: set_step)

lemma set_unless: "set_wf s \<Longrightarrow> same_set (popt s) (f (popt s)) \<Longrightarrow> result_inv (flow_inv set_wf) (unless_dwfilter f s)"
  unfolding unless_dwfilter_def by (rule set_next) (auto simp: same_set_def)

lemma set_set_chars: "set_wf s \<Longrightarrow> result_inv (same_set (popt s)) (f (popt s)) \<Longrightarrow> result_inv (flow_inv set_wf) (set_chars f s)"
  unfolding set_chars_def by (erule result_inv_bind) (auto intro: set_step)

lemma set_set_marker:
  "set_wf s \<Longrightarrow> (\<And>t. same_set (popt s) (f t (popt s))) \<Longrightarrow> result_inv (flow_inv set_wf) (set_marker f a copied s)"
  unfolding set_marker_def by (rule any_result) (auto intro: set_step)

lemma set_addDelimiters: "result_inv (same_set opt) (addDelimiters e cs opt)"
  unfolding addDelimiters_def by (cases "UTF8Mode e"; simp; rule any_result; simp add: same_set_def)

lemma set_addWhitespace: "result_inv (same_set opt) (addWhitespace e cs (opt\<lparr>whitespaceSet := True\<rparr>))"
  unfolding addWhitespace_def by (cases "UTF8Mode e"; simp; rule any_result; simp add: same_set_def)

lemma set_setPunctuation: "result_inv (same_set opt) (setPunctuation e opt)"
  unfolding setPunctuation_def setPunctuationSC_def setPunctuationUTF8_def
  by (auto simp: result_inv_def ok_or_memory_def same_set_def)

lemma set_color:
  "set_wf s \<Longrightarrow> result_inv (flow_inv set_wf) (color_option e arg (map_opt (\<lambda>opt. opt\<lparr>colorMode := True\<rparr>) s))"
  unfolding color_option_def
  by (auto simp: next_opt_def Let_def map_opt_def set_wf_def set_colors_def noDefaultMarkers_def split: option.split intro!: any_result)

lemma set_fields:
  "same_set opt (no_deleted opt)" "same_set opt (no_inserted opt)" "same_set opt (no_common opt)"
  "same_set (opt :: option_t) o1 \<Longrightarrow> same_set opt (noDefaultMarkers o1)" "result_inv (same_set opt) (Some (set_algorithm a opt))"
  by (auto simp: same_set_def no_deleted_def no_inserted_def no_common_def noDefaultMarkers_def set_algorithm_def Let_def)

lemma parseArgs_action_set:
  assumes wf: "set_wf s"
  shows "result_inv (flow_inv set_wf) (parseArgs_action e can_open k arg copied i s)"
proof -
  note keeps = set_next [OF wf] set_unless [OF wf] set_set_chars [OF wf] set_set_marker [OF wf] with_arg_keeps escapes_keeps number_keeps
    set_color [OF wf] set_fields set_addDelimiters set_addWhitespace set_setPunctuation
  have f: "result_inv (flow_inv set_wf) (stdin_argument s)" using wf by (simp add: stdin_argument_def set_wf_def Let_def)
  have c: "set_wf (initContextBuffers opt (map_opt (\<lambda>opt. opt\<lparr>contextLines := v, context_wanted := True\<rparr>) s))" for opt v
    using wf by (simp add: set_wf_def map_opt_def initContextBuffers_def)
  show ?thesis
  proof (cases k)
    case O_context
    then show ?thesis by (auto simp: parseArgs_action_def Let_def c intro!: keeps)
  next
    case O_printer
    then show ?thesis by (auto simp: parseArgs_action_def same_set_def noDefaultMarkers_def intro!: keeps(1,2))
  next
    case O_less_mode
    then show ?thesis by (auto simp: parseArgs_action_def same_set_def noDefaultMarkers_def intro!: keeps(1,2))
  next
    case O_less
    then show ?thesis by (auto simp: parseArgs_action_def same_set_def noDefaultMarkers_def intro!: keeps(1,2))
  qed (use wf f in \<open>auto simp: parseArgs_action_def same_set_def no_deleted_def no_inserted_def no_common_def Let_def intro!: keeps split: option.split\<close>)
qed

interpretation setargs: argument_parser option_table "parseArgs_action e can_open" file_argument "\<lambda>_. False" "\<lambda>_. set_wf" for e can_open
  by unfold_locales (auto intro: parseArgs_action_set simp: file_argument_def set_wf_def Let_def)

lemma preParseArgs_action_set: "set_wf s \<Longrightarrow> result_inv (flow_inv set_wf) (preParseArgs_action k arg copied i s)"
  unfolding preParseArgs_action_def by (cases k) (auto intro!: set_next simp: same_set_def)

interpretation presets: argument_parser option_table preParseArgs_action "\<lambda>cur i s. Some (Inr (Next s))" "\<lambda>_. False" "\<lambda>_. set_wf"
  by unfold_locales (auto intro: preParseArgs_action_set)

lemma parseArgs_set: "set_wf s \<Longrightarrow> result_inv (flow_inv set_wf) (parseArgs e can_open argv s)"
  using setargs.scan_keeps [of "s\<lparr>noOptionCount := 0\<rparr>" argv] by (simp add: parseArgs_def set_wf_def)

lemma preParseArgs_set: "set_wf s \<Longrightarrow> result_inv (flow_inv set_wf) (preParseArgs argv s)"
  using presets.scan_keeps [of s argv] by (simp add: preParseArgs_def)

section \<open>No overlap\<close>

definition disjoint_sets :: "option_t \<Rightarrow> bool" where
  "disjoint_sets opt \<longleftrightarrow>
     (\<forall>c. 0 \<le> c \<and> c \<le> UCHAR_MAX \<longrightarrow> \<not> (TEST_BIT (delimiters opt) c = Some True \<and> TEST_BIT (whitespace opt) c = Some True))"

lemma TEST_BIT_zero: "TEST_BIT (replicate n 0) c \<noteq> Some True"
  by (simp add: TEST_BIT_bit)

lemma checkOverlapSC_disjoint: "checkOverlapSC opt = Inr u \<Longrightarrow> whitespaceSet opt \<Longrightarrow> disjoint_sets opt"
  by (auto simp: checkOverlapSC_def disjoint_sets_def list_ex_iff split: if_splits)

lemma postProcessOptionsSC_disjoint:
  assumes "postProcessOptionsSC e opt = Some o1" "\<not> whitespaceSet opt" "whitespace opt = replicate BITMASK_SIZE 0"
  shows "disjoint_sets o1"
proof -
  let ?P = "\<lambda>i. TEST_BIT (delimiters opt) i \<noteq> Some True \<and> isspace e i"
  have "\<And>i. i \<in> set [0..UCHAR_MAX] \<Longrightarrow> 0 \<le> i \<and> i < 256" by (auto simp: UCHAR_MAX_def)
  from set_bits_total [of "[0..UCHAR_MAX]" "whitespace opt" ?P, OF this] assms(3) obtain y where
    y: "set_bits ?P [0..UCHAR_MAX] (whitespace opt) = Some y"
      "\<forall>c. 0 \<le> c \<longrightarrow> c < 256 \<longrightarrow> (TEST_BIT y c = Some True \<longleftrightarrow> TEST_BIT (whitespace opt) c = Some True \<or> c \<in> set [0..UCHAR_MAX] \<and> ?P c)"
    by (metis (no_types, lifting) length_replicate)
  have "o1 = opt\<lparr>whitespace := y\<rparr> \<or> o1 = opt\<lparr>whitespace := y, wdiffOutput := True\<rparr>"
    using assms(1,2) y(1) by (auto simp: postProcessOptionsSC_def split: if_splits)
  then have "delimiters o1 = delimiters opt" "whitespace o1 = y" by auto
  then show ?thesis using y(2) assms(3) TEST_BIT_zero by (auto simp: disjoint_sets_def UCHAR_MAX_def)
qed

section \<open>Sorted lists of characters\<close>

text \<open>The order of the comparison, for \<open>qsort\<close>, \<open>bsearch\<close> and the merge.\<close>

definition buffer_le :: "UTF16Buffer \<Rightarrow> UTF16Buffer \<Rightarrow> bool" where
  "buffer_le a b \<longleftrightarrow> compareUTF16Buffer a b \<le> 0"

lemma compare_lt_trans: "compareUTF16Buffer a b < 0 \<Longrightarrow> compareUTF16Buffer b c < 0 \<Longrightarrow> compareUTF16Buffer a c < 0"
  unfolding compareUTF16Buffer_less by (rule lexordp_trans)

lemma compare_eq_cong: "compareUTF16Buffer a b = 0 \<Longrightarrow> compareUTF16Buffer a c = compareUTF16Buffer b c"
  unfolding compareUTF16Buffer_zero by (simp only: compareUTF16Buffer_def used_def)

lemma compare_eq_cong_right: "compareUTF16Buffer b c = 0 \<Longrightarrow> compareUTF16Buffer a b = compareUTF16Buffer a c"
  unfolding compareUTF16Buffer_zero by (simp only: compareUTF16Buffer_def used_def)

lemma compare_less_le: "compareUTF16Buffer a b < 0 \<Longrightarrow> buffer_le b c \<Longrightarrow> compareUTF16Buffer a c < 0"
  unfolding buffer_le_def using compare_lt_trans [of a b c] compare_eq_cong_right [of b c a] by fastforce

lemma compare_le_less: "buffer_le a b \<Longrightarrow> compareUTF16Buffer b c < 0 \<Longrightarrow> compareUTF16Buffer a c < 0"
  unfolding buffer_le_def using compare_lt_trans [of a b c] compare_eq_cong [of a b c] by fastforce

lemma buffer_le_trans: "buffer_le a b \<Longrightarrow> buffer_le b c \<Longrightarrow> buffer_le a c"
  using compare_less_le [of a b c] compare_eq_cong [of a b c] unfolding buffer_le_def by fastforce

lemma buffer_le_total: "\<not> buffer_le a b \<Longrightarrow> buffer_le b a"
  using compareUTF16Buffer_swap [of a b] by (simp add: buffer_le_def)

definition sorted_buffers :: "UTF16Buffer list \<Rightarrow> bool" where
  "sorted_buffers xs \<longleftrightarrow> sorted_wrt buffer_le xs"

lemma set_insort_buffer [simp]: "set (insort_buffer x xs) = insert x (set xs)"
  by (induction xs) auto

lemma insort_buffer_sorted: "sorted_buffers xs \<Longrightarrow> sorted_buffers (insort_buffer x xs)"
proof (induction xs)
  case (Cons y ys)
  then show ?case
    using buffer_le_trans [of x y] buffer_le_total [of x y] by (auto simp: sorted_buffers_def buffer_le_def [symmetric])
qed (simp add: sorted_buffers_def)

lemma qsort_buffers_sorted: "sorted_buffers (qsort_buffers xs)" "set (qsort_buffers xs) = set xs"
proof -
  show "sorted_buffers (qsort_buffers xs)" by (induction xs) (auto simp: qsort_buffers_def insort_buffer_sorted, simp add: sorted_buffers_def)
  show "set (qsort_buffers xs) = set xs" by (induction xs) (auto simp: qsort_buffers_def)
qed

lemma bsearch_loop_iff:
  "sorted_buffers xs \<Longrightarrow> u \<le> length xs \<Longrightarrow>
     bsearch_loop compareUTF16Buffer k xs l u \<noteq> None \<longleftrightarrow> (\<exists>i. l \<le> i \<and> i < u \<and> compareUTF16Buffer k (xs ! i) = 0)"
proof (induction "compareUTF16Buffer" k xs l u rule: bsearch_loop.induct)
  case (1 k xs l u)
  define m where "m = (l + u) div 2"
  show ?case
  proof (cases "l < u")
    case True
    then have m: "l \<le> m" "m < u" "m < length xs" using "1.prems"(2) by (auto simp: m_def)
    have le: "buffer_le (xs ! i) (xs ! j)" if "i < j" "j < length xs" for i j
      using "1.prems"(1) that by (simp add: sorted_buffers_def sorted_wrt_iff_nth_less)
    consider "compareUTF16Buffer k (xs ! m) < 0" | "compareUTF16Buffer k (xs ! m) > 0" | "compareUTF16Buffer k (xs ! m) = 0" by linarith
    then show ?thesis
    proof cases
      case 1
      have "compareUTF16Buffer k (xs ! i) < 0" if "m \<le> i" "i < u" for i
        using compare_less_le [OF 1 le, of i] 1 that "1.prems"(2) by (cases "m = i") auto
      then have "(\<exists>i. l \<le> i \<and> i < m \<and> compareUTF16Buffer k (xs ! i) = 0) \<longleftrightarrow> (\<exists>i. l \<le> i \<and> i < u \<and> compareUTF16Buffer k (xs ! i) = 0)"
        using m by (metis less_irrefl less_trans not_le)
      then show ?thesis using "1.hyps"(1) [OF True m_def refl] 1 True "1.prems" m
        by (subst bsearch_loop.simps) (simp add: m_def [symmetric])
    next
      case 2
      have "compareUTF16Buffer (xs ! m) k < 0" using 2 compareUTF16Buffer_swap [of k "xs ! m"] by simp
      from compare_le_less [OF le this] have "compareUTF16Buffer (xs ! i) k < 0" if "i \<le> m" for i
        using that m \<open>compareUTF16Buffer (xs ! m) k < 0\<close> by (cases "i = m") auto
      then have "compareUTF16Buffer k (xs ! i) > 0" if "i \<le> m" for i
        using that compareUTF16Buffer_swap [of "xs ! i" k] by fastforce
      note high = this
      have "(\<exists>i. m + 1 \<le> i \<and> i < u \<and> compareUTF16Buffer k (xs ! i) = 0) \<longleftrightarrow> (\<exists>i. l \<le> i \<and> i < u \<and> compareUTF16Buffer k (xs ! i) = 0)"
      proof (rule iff_exI)
        fix i
        show "m + 1 \<le> i \<and> i < u \<and> compareUTF16Buffer k (xs ! i) = 0 \<longleftrightarrow> l \<le> i \<and> i < u \<and> compareUTF16Buffer k (xs ! i) = 0"
          using m high [of i] by (cases "i \<le> m") auto
      qed
      then show ?thesis using "1.hyps"(2) [OF True m_def refl] 2 True "1.prems" m
        by (subst bsearch_loop.simps) (simp add: m_def [symmetric])
    next
      case 3
      then show ?thesis using True m by (subst bsearch_loop.simps) (auto simp: m_def [symmetric])
    qed
  next
    case False
    then show ?thesis by (subst bsearch_loop.simps) simp
  qed
qed

lemma bsearch_iff:
  assumes "sorted_buffers xs"
  shows "bsearch compareUTF16Buffer k xs \<noteq> None \<longleftrightarrow> vdata k \<in> vdata ` set xs"
proof -
  have "bsearch compareUTF16Buffer k xs \<noteq> None \<longleftrightarrow> (\<exists>i < length xs. vdata k = vdata (xs ! i))"
    unfolding bsearch_def using bsearch_loop_iff [OF assms, of "length xs" k 0] by (simp add: compareUTF16Buffer_zero)
  also have "\<dots> \<longleftrightarrow> vdata k \<in> vdata ` set xs" by (metis (no_types, lifting) image_iff in_set_conv_nth)
  finally show ?thesis .
qed

lemma lists_meet_iff:
  "sorted_buffers ds \<Longrightarrow> sorted_buffers ws \<Longrightarrow> lists_meet ds ws \<longleftrightarrow> vdata ` set ds \<inter> vdata ` set ws \<noteq> {}"
proof (induction ds arbitrary: ws)
  case (Cons d ds)
  note IH = Cons.IH
  let ?P = "\<lambda>w. compareUTF16Buffer d w > 0"
  define ws' where "ws' = dropWhile ?P ws"
  have split: "ws = takeWhile ?P ws @ ws'" by (simp add: ws'_def)
  have s': "sorted_buffers ws'" and sd: "sorted_buffers ds" and d: "\<And>d'. d' \<in> set ds \<Longrightarrow> buffer_le d d'"
    using Cons.prems split by (auto simp: sorted_buffers_def sorted_wrt_append ws'_def)
  have low: "vdata d' \<noteq> vdata w" if "w \<in> set (takeWhile ?P ws)" "buffer_le d d'" for w d'
  proof -
    have "compareUTF16Buffer w d < 0" using set_takeWhileD [OF that(1)] compareUTF16Buffer_swap [of d w] by simp
    from compare_less_le [OF this that(2)] show ?thesis using compareUTF16Buffer_zero [of w d'] by auto
  qed
  have drop: "vdata ` set (d # ds) \<inter> vdata ` set ws = vdata ` set (d # ds) \<inter> vdata ` set ws'"
  proof -
    have "vdata ` set (d # ds) \<inter> vdata ` set (takeWhile ?P ws) = {}"
      using low [of _ d] low d by (auto simp: buffer_le_def compareUTF16Buffer_zero) (metis (no_types) compareUTF16Buffer_zero order_refl)
    then show ?thesis by (subst split) (auto simp only: set_append image_Un)
  qed
  show ?case
  proof (cases ws')
    case Nil
    then show ?thesis using drop by (simp add: ws'_def [symmetric])
  next
    case (Cons w v)
    then have le: "compareUTF16Buffer d w \<le> 0" using hd_dropWhile [of ?P ws] by (simp add: ws'_def)
    show ?thesis
    proof (cases "compareUTF16Buffer d w = 0")
      case True
      then show ?thesis unfolding drop using Cons by (simp add: ws'_def [symmetric]) (simp add: compareUTF16Buffer_zero)
    next
      case False
      have "compareUTF16Buffer d x < 0" if "x \<in> set ws'" for x
        using that s' False le Cons compare_less_le [of d w x] by (auto simp: sorted_buffers_def)
      then have "vdata d \<notin> vdata ` set ws'" by (metis (no_types) compareUTF16Buffer_zero imageE less_irrefl)
      then show ?thesis unfolding drop using IH [OF sd s'] False Cons by (simp add: ws'_def [symmetric])
    qed
  qed
qed simp

section \<open>The characters of a run\<close>

lemma completeDefaults_sets:
  "whitespaceSet (completeDefaults opt) = whitespaceSet opt" "whitespace (completeDefaults opt) = whitespace opt"
  by (simp_all add: completeDefaults_def Let_def)

lemma any_punct_False: "any_punct e opt ws = Inr False \<Longrightarrow> w \<in> set ws \<Longrightarrow> isUTF16Punct e opt w = Inr False"
  by (induction ws) (auto simp: bind_res_def split: sum.splits if_splits)

text \<open>The character sets when the program starts: no character is both a delimiter and white space.\<close>

definition chars_disjoint :: "env \<Rightarrow> option_t \<Rightarrow> bool" where
  "chars_disjoint e opt \<longleftrightarrow>
     (if UTF8Mode e
      then whitespaceSet opt \<longrightarrow> (\<forall>c. isWhitespaceUTF8 e opt c = Inr True \<longrightarrow> isDelimiterUTF8 e opt c = Inr False)
      else disjoint_sets opt)"

lemma checkOverlapUTF8_disjoint:
  assumes "checkOverlapUTF8 e opt = Inr u" "whitespaceSet opt" "isWhitespaceUTF8 e opt c = Inr True"
    "sorted_buffers (vdata (delimiterList opt))" "sorted_buffers (vdata (whitespaceList opt))"
  shows "isDelimiterUTF8 e opt c = Inr False"
proof -
  have meet: "\<not> lists_meet (vdata (delimiterList opt)) (vdata (whitespaceList opt))"
    using assms(1,2) by (auto simp: checkOverlapUTF8_def split: if_splits)
  have w: "vdata (converted c) \<in> vdata ` set (vdata (whitespaceList opt))"
    using assms(2,3) bsearch_iff [OF assms(5)] by (simp add: isWhitespaceUTF8_def)
  then have d: "vdata (converted c) \<notin> vdata ` set (vdata (delimiterList opt))"
    using meet lists_meet_iff [OF assms(4,5)] by blast
  have "isUTF16Punct e opt (converted c) = Inr False" if "punctuationMask opt \<noteq> 0"
  proof -
    have "any_punct e opt (vdata (whitespaceList opt)) = Inr False"
      using assms(1,2) meet that by (auto simp: checkOverlapUTF8_def bind_res_def split: if_splits sum.splits)
    moreover from w obtain x where "x \<in> set (vdata (whitespaceList opt))" "vdata (converted c) = vdata x" by blast
    ultimately show ?thesis using any_punct_False by (simp add: isUTF16Punct_def)
  qed
  with d bsearch_iff [OF assms(4)] show ?thesis by (simp add: isDelimiterUTF8_def)
qed

lemma finish_disjoint:
  assumes "set_wf s"
  shows "result_inv (flow_inv (\<lambda>s'. chars_disjoint e (popt s'))) (finish_options e s)"
proof -
  have "chars_disjoint e opt"
    if "check_files s = Inr s1" "postProcessOptions e (completeDefaults (popt s1)) = Some (Inr opt)" "checkOverlap e opt = Inr u" for s1 opt u
  proof (cases "UTF8Mode e")
    case True
    have "\<exists>d w. vdata (delimiterList opt) = qsort_buffers d \<and> vdata (whitespaceList opt) = qsort_buffers w"
      using that(2) True
      by (auto simp: postProcessOptions_def postProcessOptionsUTF8_def Let_def bind_res_def split: sum.splits if_splits)
    then have "sorted_buffers (vdata (delimiterList opt))" "sorted_buffers (vdata (whitespaceList opt))"
      using qsort_buffers_sorted(1) by metis+
    with checkOverlapUTF8_disjoint [of e opt u] that(3) True show ?thesis by (simp add: chars_disjoint_def checkOverlap_def)
  next
    case False
    have "popt s1 = popt s" using that(1) by (auto simp: check_files_def split: if_splits)
    with assms have "\<not> whitespaceSet (popt s1) \<longrightarrow> whitespace (popt s1) = replicate BITMASK_SIZE 0" by (simp add: set_wf_def)
    moreover have "postProcessOptionsSC e (completeDefaults (popt s1)) = Some opt"
      using that(2) False by (simp add: postProcessOptions_def ok_or_memory_def)
    moreover from this have "whitespaceSet (popt s1) \<Longrightarrow> whitespaceSet opt"
      by (auto simp: postProcessOptionsSC_def completeDefaults_sets split: if_splits)
    ultimately show ?thesis
      using postProcessOptionsSC_disjoint [of e "completeDefaults (popt s1)" opt] checkOverlapSC_disjoint [of opt u] that(3) False
      by (auto simp: chars_disjoint_def checkOverlap_def completeDefaults_sets)
  qed
  then show ?thesis unfolding finish_options_def
    by (intro result_inv_bind [of "\<lambda>s1. check_files s = Inr s1"]
        result_inv_bind [of "\<lambda>opt. \<exists>s1. check_files s = Inr s1 \<and> postProcessOptions e (completeDefaults (popt s1)) = Some (Inr opt)"]
        result_inv_bind [of "\<lambda>u. checkOverlap e opt = Inr u" for opt]) (auto simp: result_inv_def bind_run_def split: sum.splits)
qed

lemma initial_set: "set_wf (initial_parse e)"
  by (simp add: set_wf_def initial_parse_def initializeOptions_def initOptions_def zero_options_def)

lemma parseCmdLine_disjoint: "result_inv (flow_inv (\<lambda>s. chars_disjoint e (popt s))) (parseCmdLine e can_open dir fopen argv)"
  unfolding parseCmdLine_def
  by (intro after_pass_keeps [OF preParseArgs_set [OF initial_set]] any_result
      after_pass_keeps [OF profile_keeps] after_pass_keeps [OF parseArgs_set] finish_disjoint) (erule parseArgs_set)

text \<open>
  C32: the sorted lists mean what the lists before sorting mean: the binary search finds a
  character exactly if it is in the list, and the merge of two lists finds an overlap exactly if
  they have a common character.
\<close>

theorem sorted_lists_search:
  "(bsearch compareUTF16Buffer k (qsort_buffers xs) \<noteq> None \<longleftrightarrow> vdata k \<in> vdata ` set xs) \<and>
   (lists_meet (qsort_buffers xs) (qsort_buffers ys) \<longleftrightarrow> vdata ` set xs \<inter> vdata ` set ys \<noteq> {})"
  using bsearch_iff [OF qsort_buffers_sorted(1), of k xs] lists_meet_iff [OF qsort_buffers_sorted(1) qsort_buffers_sorted(1), of xs ys]
  by (simp add: qsort_buffers_sorted(2))

end
