(* ===== verification/Entry.thy ===== *)
theory Entry
  imports Program Charsets
begin

text \<open>
  The program from its command line: the parser of the options, the two files, and the comparison.
  The standard input is a parameter.
\<close>

section \<open>The main function\<close>

text \<open>A file of \<open>option\<close> after parsing: a name, the standard input, or neither.\<close>

definition parsed_file :: "os \<Rightarrow> byte list \<Rightarrow> byte list option \<Rightarrow> bool \<Rightarrow> InputFile" where
  "parsed_file w stdin name from_stdin =
     \<lparr>iname = name, iinput = (if from_stdin then newFileStream (Some (fileWrapFD (os_read w stdin) [] FILE_READ)) else None),
      diffTokens = VECTOR_INIT, itokens = newStringStream [], iwhitespace = newStringStream [], lastPrinted = 0,
      iwhitespaceBuffer = VECTOR_INIT, whitespaceBufferUsed = False\<rparr>"

text \<open>The static variables when the options have been read.\<close>

definition start_state :: "os \<Rightarrow> env \<Rightarrow> disk \<Rightarrow> mkstemp_result list \<Rightarrow> byte list \<Rightarrow> 'a parsestate_scheme \<Rightarrow> progstate" where
  "start_state w e d ms stdin p =
     (let chars = (if UTF8Mode e then VECTOR_INIT_ALLOCATED else VECTOR_INIT)
      in \<lparr>contextBuffers = contextBuffers p, pstate = PRE_BUFFERING_INITIAL, ring_index = 0, afterContextLines = 0,
          stdout_bytes = [], outfile_bytes = [], oldLineNumber = 1, newLineNumber = 1,
          lastWasLinefeed = True, lastWasDelete = False, lastWasCarriageReturn = False,
          charData = \<lparr>singleChar = 0, original = chars, converted = chars, casefolded = chars\<rparr>,
          oldFile = parsed_file w stdin (argOld p) (stdinOld p), newFile = parsed_file w stdin (argNew p) (stdinNew p),
          statistics = \<lparr>stat_added = 0, stat_deleted = 0, oldChanged = 0, newChanged = 0, oldTotal = 0, newTotal = 0\<rparr>,
          differences = 0, hash_table = init_hash, baseHashMax = 0,
          currentWord = VECTOR_INIT, whitespaceBuffer = VECTOR_INIT, tokenWritten = False,
          temps = init_temps d, mkstemps = ms\<rparr>)"

text \<open>
  What the program leaves behind: the exit status, the numbers of the statistics if they are
  asked for, and the state with the output; no state if an option has ended the program.
\<close>

definition main_program :: "os \<Rightarrow> uninit \<Rightarrow> env \<Rightarrow> (byte list \<Rightarrow> bool) \<Rightarrow> byte list option \<Rightarrow> (byte list \<Rightarrow> int + byte list) \<Rightarrow>
    disk \<Rightarrow> mkstemp_result list \<Rightarrow> byte list \<Rightarrow> byte list list \<Rightarrow>
    (int \<times> ((int \<times> (int \<times> int) \<times> (int \<times> int) \<times> (int \<times> int)) option \<times>
      (int \<times> (int \<times> int) \<times> (int \<times> int) \<times> (int \<times> int)) option) option \<times> progstate option) run" where
  "main_program w mem e can_open dir fopen d ms stdin argv =
     bind_run (parseCmdLine e can_open dir fopen argv) (\<lambda>fl.
       case fl of
         ExitSuccess p \<Rightarrow> Some (Inr (0, None, None))
       | Next p \<Rightarrow>
           bind_run (run_program w mem e (popt p) (start_state w e d ms stdin p)) (\<lambda>(status, s).
             Some (Inr (status, if statistics_wanted (popt p) then Some (print_statistics (statistics s)) else None, Some s)))
       | _ \<Rightarrow> None)"

section \<open>Command lines\<close>

lemma file_name_argument:
  "name = [] \<or> hd name \<noteq> 45 \<Longrightarrow>
     one_argument strict tbl act no_option om i name following s = bind_run (no_option name i s) (\<lambda>fl. Some (Inr (False, fl)))"
  by (auto simp: one_argument_def)

text \<open>The digits are not white space.\<close>

lemma PARSE_INT_0: "\<not> isspace e 48 \<Longrightarrow> 0 \<le> hi \<Longrightarrow> PARSE_INT e 0 hi [48] = Inr 0"
  by (simp add: PARSE_INT_def strtol_def is_digit_def Let_def LONG_MAX_def)

lemma find_short_m: "find_short option_table 109 = Some (OPTION 109 ''match-context'' REQUIRED_ARG O_match_context)"
  by (simp add: find_short_def option_table_def OPTION_def LONG_OPTION_def SINGLE_DASH_def DOUBLE_DASH_def)

lemma default_arguments:
  assumes "name0 = [] \<or> hd name0 \<noteq> 45" "name1 = [] \<or> hd name1 \<noteq> 45" "\<not> isspace e 48"
  shows "parseArgs e can_open [str ''-m0'', name0, name1] s =
    Some (Inr (Next (s\<lparr>popt := (popt s)\<lparr>matchContext := 0\<rparr>, noOptionCount := 2, argOld := Some name0, argNew := Some name1\<rparr>)))"
  "preParseArgs [str ''-m0'', name0, name1] s = Some (Inr (Next s))"
proof -
  have m: "str ''-m0'' = [45, 109, 48]" by (simp add: str_def)
  show "parseArgs e can_open [str ''-m0'', name0, name1] s =
    Some (Inr (Next (s\<lparr>popt := (popt s)\<lparr>matchContext := 0\<rparr>, noOptionCount := 2, argOld := Some name0, argNew := Some name1\<rparr>)))"
    unfolding parseArgs_def m
    by (simp add: one_argument_def [of _ _ _ _ _ _ "[45, 109, 48]"] file_name_argument [OF assms(1)] file_name_argument [OF assms(2)]
        find_short_m OPTION_def parseArgs_action_def with_arg_def PARSE_INT_0 [OF assms(3)] INT_MAX_def next_opt_def map_opt_def
        file_argument_def Let_def)
  show "preParseArgs [str ''-m0'', name0, name1] s = Some (Inr (Next s))"
    unfolding preParseArgs_def m
    by (simp add: one_argument_def [of _ _ _ _ _ _ "[45, 109, 48]"] file_name_argument [OF assms(1)] file_name_argument [OF assms(2)]
        find_short_m OPTION_def preParseArgs_action_def)
qed

section \<open>The options of a run without sets\<close>

text \<open>Without options for sets, white space is what \<open>isspace\<close> says and there are no delimiters.\<close>

definition isspace_category :: "env \<Rightarrow> byte \<Rightarrow> category" where
  "isspace_category e b = (if isspace e (uint b) then CAT_WHITESPACE else CAT_OTHER)"

lemma finish_default_sets:
  assumes "\<not> UTF8Mode e" "delimiters (popt s) = replicate BITMASK_SIZE 0" "whitespace (popt s) = replicate BITMASK_SIZE 0"
    "\<not> whitespaceSet (popt s)" "\<not> diffInput (popt s)" "argNew s \<noteq> None"
  shows "\<exists>y wd. finish_options e s = Some (Inr (Next (s\<lparr>popt := (completeDefaults (popt s))\<lparr>whitespace := y, wdiffOutput := wd\<rparr>\<rparr>))) \<and>
    (wdiffOutput (popt s) \<longrightarrow> wd) \<and> byte_category ((completeDefaults (popt s))\<lparr>whitespace := y, wdiffOutput := wd\<rparr>) = isspace_category e"
proof -
  define o1 where "o1 = completeDefaults (popt s)"
  have o1: "delimiters o1 = replicate BITMASK_SIZE 0" "whitespace o1 = replicate BITMASK_SIZE 0" "\<not> whitespaceSet o1"
    "wdiffOutput o1 = wdiffOutput (popt s)"
    using assms(2-4) by (simp_all add: o1_def completeDefaults_def Let_def)
  let ?P = "\<lambda>i. TEST_BIT (delimiters o1) i \<noteq> Some True \<and> isspace e i"
  have "\<And>i. i \<in> set [0..UCHAR_MAX] \<Longrightarrow> 0 \<le> i \<and> i < 256" by (auto simp: UCHAR_MAX_def)
  from set_bits_total [of "[0..UCHAR_MAX]" "whitespace o1" ?P, OF this] o1(2) obtain y where
    y: "set_bits ?P [0..UCHAR_MAX] (whitespace o1) = Some y"
      "\<forall>c. 0 \<le> c \<longrightarrow> c < 256 \<longrightarrow> (TEST_BIT y c = Some True \<longleftrightarrow> TEST_BIT (whitespace o1) c = Some True \<or> c \<in> set [0..UCHAR_MAX] \<and> ?P c)"
    by (metis (no_types, lifting) length_replicate)
  define wd where "wd = (if TEST_BIT y 32 \<noteq> Some True then True else wdiffOutput o1)"
  have "postProcessOptionsSC e o1 = Some (o1\<lparr>whitespace := y, wdiffOutput := wd\<rparr>)"
    unfolding postProcessOptionsSC_def using o1(3) y(1) by (simp add: wd_def)
  moreover have "check_files s = Inr s" using assms(5,6) by (simp add: check_files_def)
  moreover have "checkOverlapSC (o1\<lparr>whitespace := y, wdiffOutput := wd\<rparr>) = Inr ()" using o1(3) by (simp add: checkOverlapSC_def)
  ultimately have f: "finish_options e s = Some (Inr (Next (s\<lparr>popt := o1\<lparr>whitespace := y, wdiffOutput := wd\<rparr>\<rparr>)))"
    using assms(1) by (simp add: finish_options_def o1_def postProcessOptions_def checkOverlap_def ok_or_memory_def)
  have t: "TEST_BIT y (uint b) = Some True \<longleftrightarrow> isspace e (uint b)" for b :: byte
  proof -
    have "0 \<le> uint b" "uint b < 256" using uint_lt2p [of b] by simp_all
    with y(2) o1(1,2) TEST_BIT_zero show ?thesis by (auto simp: UCHAR_MAX_def)
  qed
  have "byte_category (o1\<lparr>whitespace := y, wdiffOutput := wd\<rparr>) = isspace_category e"
    by (rule ext) (use t o1(1) TEST_BIT_zero in \<open>simp add: byte_category_def isspace_category_def\<close>)
  with f o1(4) show ?thesis unfolding o1_def [symmetric]
    by (intro exI [of _ y] exI [of _ wd] conjI) (simp_all add: wd_def)
qed

lemma start_state_initial:
  "\<not> UTF8Mode e \<Longrightarrow> contextBuffers p = [] \<Longrightarrow> argOld p = Some name0 \<Longrightarrow> argNew p = Some name1 \<Longrightarrow> \<not> stdinOld p \<Longrightarrow> \<not> stdinNew p \<Longrightarrow>
     start_state w e d ms stdin p = initial_state d ms name0 name1"
  by (simp add: start_state_def initial_state_def initial_file_def parsed_file_def)

text \<open>The world of a run on two named files in a locale of single bytes, without a profile.\<close>

definition world_ok :: "os \<Rightarrow> env \<Rightarrow> disk \<Rightarrow> mkstemp_result list \<Rightarrow> byte list \<Rightarrow> byte list \<Rightarrow> byte list \<Rightarrow> byte list \<Rightarrow> bool" where
  "world_ok w e d ms name0 bs0 name1 bs1 \<longleftrightarrow>
     \<not> UTF8Mode e \<and> os_ok w \<and> mkstemp_ok d ms \<and> d name0 = Some bs0 \<and> d name1 = Some bs1 \<and>
     int (length bs0) + int (length bs1) < OFFSET_MAX \<and> (name0 = [] \<or> hd name0 \<noteq> 45) \<and> (name1 = [] \<or> hd name1 \<noteq> 45) \<and>
     \<not> isspace e 0 \<and> \<not> isspace e 1 \<and> \<not> isspace e 48"

lemma completeDefaults_fields:
  "context_wanted (completeDefaults opt) = context_wanted opt" "lineNumbers (completeDefaults opt) = lineNumbers opt"
  "colorMode (completeDefaults opt) = colorMode opt" "repeatMarkers (completeDefaults opt) = repeatMarkers opt"
  "less_mode (completeDefaults opt) = less_mode opt" "printer (completeDefaults opt) = printer opt"
  "paraDelim (completeDefaults opt) = paraDelim opt" "output_to (completeDefaults opt) = output_to opt"
  "ignoreCase (completeDefaults opt) = ignoreCase opt" "statistics_wanted (completeDefaults opt) = statistics_wanted opt"
  "matchContext (completeDefaults opt) = matchContext opt" "diffInput (completeDefaults opt) = diffInput opt"
  "printDeleted (completeDefaults opt) = printDeleted opt" "printCommon (completeDefaults opt) = printCommon opt"
  by (simp_all add: completeDefaults_def Let_def)

lemma completeDefaults_prints:
  "\<not> dwfilterMode opt \<Longrightarrow> printAdded (completeDefaults opt) = printAdded opt"
  "\<not> dwfilterMode opt \<Longrightarrow> printCommon opt \<Longrightarrow> needMarkers (completeDefaults opt) = needMarkers opt"
  by (simp_all add: completeDefaults_def Let_def)

text \<open>The options before the defaults are completed.\<close>

lemma initializeOptions_fields:
  assumes "\<not> UTF8Mode e"
  shows "delimiters (initializeOptions e) = replicate BITMASK_SIZE 0" "whitespace (initializeOptions e) = replicate BITMASK_SIZE 0"
    "\<not> whitespaceSet (initializeOptions e)" "\<not> diffInput (initializeOptions e)" "plain (initializeOptions e)"
    "printCommon (initializeOptions e)" "printAdded (initializeOptions e)" "printDeleted (initializeOptions e)" "\<not> needMarkers (initializeOptions e)"
    "\<not> ignoreCase (initializeOptions e)" "\<not> statistics_wanted (initializeOptions e)" "\<not> paraDelim (initializeOptions e)"
    "\<not> dwfilterMode (initializeOptions e)" "profile (initializeOptions e) = Some (str ''default'')"
  using assms by (simp_all add: plain_def initializeOptions_def initOptions_def zero_options_def)

lemma default_command_line:
  assumes "world_ok w e d ms name0 bs0 name1 bs1"
  shows "\<exists>p. parseCmdLine e can_open None fopen [str ''-m0'', name0, name1] = Some (Inr (Next p)) \<and>
    start_ok w e (popt p) d ms name0 bs0 name1 bs1 \<and> start_state w e d ms stdin p = initial_state d ms name0 name1 \<and>
    plain (popt p) \<and> printCommon (popt p) \<and> \<not> needMarkers (popt p) \<and> \<not> ignoreCase (popt p) \<and> \<not> statistics_wanted (popt p) \<and>
    byte_category (popt p) = isspace_category e"
proof -
  from assms have a: "\<not> UTF8Mode e" "os_ok w" "mkstemp_ok d ms" "d name0 = Some bs0" "d name1 = Some bs1"
    "int (length bs0) + int (length bs1) < OFFSET_MAX" "name0 = [] \<or> hd name0 \<noteq> 45" "name1 = [] \<or> hd name1 \<noteq> 45"
    "\<not> isspace e 0" "\<not> isspace e 1" "\<not> isspace e 48" by (simp_all add: world_ok_def)
  define s where "s = (initial_parse e)\<lparr>popt := (initializeOptions e)\<lparr>matchContext := 0\<rparr>, noOptionCount := 2,
    argOld := Some name0, argNew := Some name1\<rparr>"
  have "parseCmdLine e can_open None fopen [str ''-m0'', name0, name1] = finish_options e s"
    unfolding parseCmdLine_def
    by (simp add: default_arguments [OF a(7,8,11)] after_pass_def loadProfile_def s_def initial_parse_def split: option.split)
  moreover have s: "delimiters (popt s) = replicate BITMASK_SIZE 0" "whitespace (popt s) = replicate BITMASK_SIZE 0"
    "\<not> whitespaceSet (popt s)" "\<not> diffInput (popt s)" "argNew s \<noteq> None"
    by (simp_all add: s_def initializeOptions_fields [OF a(1)])
  moreover from finish_default_sets [OF a(1) s] obtain y wd where
    f: "finish_options e s = Some (Inr (Next (s\<lparr>popt := (completeDefaults (popt s))\<lparr>whitespace := y, wdiffOutput := wd\<rparr>\<rparr>)))"
      "byte_category ((completeDefaults (popt s))\<lparr>whitespace := y, wdiffOutput := wd\<rparr>) = isspace_category e" by blast
  define opt where "opt = (completeDefaults (popt s))\<lparr>whitespace := y, wdiffOutput := wd\<rparr>"
  have opt: "plain opt" "printCommon opt" "\<not> needMarkers opt" "\<not> ignoreCase opt" "\<not> statistics_wanted opt" "\<not> paraDelim opt"
    "matchContext opt = 0" "\<not> diffInput opt"
    using initializeOptions_fields [OF a(1)]
    by (simp_all add: plain_def opt_def s_def completeDefaults_fields completeDefaults_prints)
  have "start_ok w e opt d ms name0 bs0 name1 bs1"
    using a opt(6-8) by (simp add: start_ok_def f(2) [folded opt_def] isspace_category_def)
  moreover have "start_state w e d ms stdin (s\<lparr>popt := opt\<rparr>) = initial_state d ms name0 name1"
    by (rule start_state_initial) (simp_all add: s_def initial_parse_def a(1))
  ultimately show ?thesis using opt(1-5) f [folded opt_def] by (intro exI [of _ "s\<lparr>popt := opt\<rparr>"] conjI) simp_all
qed

section \<open>A command line that prints the new file\<close>

definition new_file_arguments :: "byte list list" where
  "new_file_arguments = [str ''-m0'', str ''-1'', str ''-y'', [], str ''-z'', [], str ''--wdiff-output'']"

lemma find_options:
  "find_short option_table 49 = Some (OPTION 49 ''no-deleted'' NO_ARG O_no_deleted)"
  "find_short option_table 121 = Some (OPTION 121 ''start-insert'' REQUIRED_ARG O_start_insert)"
  "find_short option_table 122 = Some (OPTION 122 ''stop-insert'' REQUIRED_ARG O_stop_insert)"
  "find_long option_table (str ''wdiff-output'') = Some (LONG_OPTION ''wdiff-output'' NO_ARG O_wdiff_output)"
  by (simp_all add: find_short_def find_long_def option_table_def OPTION_def LONG_OPTION_def SINGLE_DASH_def DOUBLE_DASH_def str_def)

lemma one_short:
  "find_short tbl c = Some \<lparr>shortName = x, longName = l, argReq = NO_ARG, okey = k\<rparr> \<Longrightarrow> c \<noteq> 45 \<Longrightarrow>
     one_argument strict tbl act no_option False i [45, c] following s =
       bind_run (act k None False i s) (\<lambda>fl. Some (Inr (False, fl)))"
  "find_short tbl c = Some \<lparr>shortName = x, longName = l, argReq = REQUIRED_ARG, okey = k\<rparr> \<Longrightarrow> c \<noteq> 45 \<Longrightarrow>
     one_argument strict tbl act no_option False i [45, c] (Some a) s =
       bind_run (act k (Some a) False (Suc i) s) (\<lambda>fl. Some (Inr (True, fl)))"
  "find_short tbl c = Some \<lparr>shortName = x, longName = l, argReq = REQUIRED_ARG, okey = k\<rparr> \<Longrightarrow> c \<noteq> 45 \<Longrightarrow>
     one_argument strict tbl act no_option False i (45 # c # b # bs) following s =
       bind_run (act k (Some (b # bs)) False i s) (\<lambda>fl. Some (Inr (False, fl)))"
proof -
  assume f: "find_short tbl c = Some \<lparr>shortName = x, longName = l, argReq = NO_ARG, okey = k\<rparr>" "c \<noteq> 45"
  then show "one_argument strict tbl act no_option False i [45, c] following s =
       bind_run (act k None False i s) (\<lambda>fl. Some (Inr (False, fl)))"
    by (auto simp: one_argument_def split: flow.split intro!: arg_cong [of _ _ "bind_run (act k None False i s)"])
qed (simp_all add: one_argument_def)

lemma one_long:
  assumes "find_long tbl name = Some \<lparr>shortName = x, longName = l, argReq = NO_ARG, okey = k\<rparr>" "61 \<notin> set name"
  shows "one_argument strict tbl act no_option False i (45 # 45 # name) following s =
       bind_run (act k None False i s) (\<lambda>fl. Some (Inr (False, fl)))"
proof -
  have "takeWhile (\<lambda>b. b \<noteq> 61) name = name" using assms(2) by auto
  with assms(1) show ?thesis by (simp add: one_argument_def long_option_def Let_def del: takeWhile_eq_all_conv)
qed

lemma new_file_command:
  assumes "name0 = [] \<or> hd name0 \<noteq> 45" "name1 = [] \<or> hd name1 \<noteq> 45" "\<not> isspace e 48" "\<not> dwfilterMode (popt s)" "printAdded (popt s)" "printCommon (popt s)"
  shows "parseArgs e can_open (new_file_arguments @ [name0, name1]) s =
    Some (Inr (Next (s\<lparr>popt := (popt s)\<lparr>matchContext := 0, printDeleted := False, addStartLen := 0, addStart := Some [],
      addStopLen := 0, addStop := Some [], wdiffOutput := True\<rparr>, noOptionCount := 2, argOld := Some name0, argNew := Some name1\<rparr>)))"
  "preParseArgs (new_file_arguments @ [name0, name1]) s = Some (Inr (Next (s\<lparr>popt := (popt s)\<lparr>wdiffOutput := True\<rparr>\<rparr>)))"
proof -
  note one = one_short(3) [OF find_short_m [unfolded OPTION_def]] one_short(1) [OF find_options(1) [unfolded OPTION_def]]
    one_short(2) [OF find_options(2) [unfolded OPTION_def]] one_short(2) [OF find_options(3) [unfolded OPTION_def]]
    one_long [OF find_options(4) [unfolded LONG_OPTION_def]]
    file_name_argument [OF assms(1)] file_name_argument [OF assms(2)]
  have a: "str ''-m0'' = [45, 109, 48]" "str ''-1'' = [45, 49]" "str ''-y'' = [45, 121]" "str ''-z'' = [45, 122]"
    "str ''--wdiff-output'' = 45 # 45 # str ''wdiff-output''" "61 \<notin> set (str ''wdiff-output'')"
    by (simp_all add: str_def)
  show "parseArgs e can_open (new_file_arguments @ [name0, name1]) s =
    Some (Inr (Next (s\<lparr>popt := (popt s)\<lparr>matchContext := 0, printDeleted := False, addStartLen := 0, addStart := Some [],
      addStopLen := 0, addStop := Some [], wdiffOutput := True\<rparr>, noOptionCount := 2, argOld := Some name0, argNew := Some name1\<rparr>)))"
    unfolding parseArgs_def new_file_arguments_def
    by (simp add: a one first_of_def parseArgs_action_def with_arg_def PARSE_INT_0 [OF assms(3)] INT_MAX_def next_opt_def map_opt_def
        unless_dwfilter_def no_deleted_def set_marker_def file_argument_def Let_def assms(4-6))
  show "preParseArgs (new_file_arguments @ [name0, name1]) s = Some (Inr (Next (s\<lparr>popt := (popt s)\<lparr>wdiffOutput := True\<rparr>\<rparr>)))"
    unfolding preParseArgs_def new_file_arguments_def
    by (simp add: a one first_of_def preParseArgs_action_def next_opt_def map_opt_def)
qed

lemma new_file_command_line:
  assumes "world_ok w e d ms name0 bs0 name1 bs1"
  shows "\<exists>p. parseCmdLine e can_open None fopen (new_file_arguments @ [name0, name1]) = Some (Inr (Next p)) \<and>
    start_ok w e (popt p) d ms name0 bs0 name1 bs1 \<and> start_state w e d ms stdin p = initial_state d ms name0 name1 \<and>
    plain (popt p) \<and> new_only (popt p) \<and> \<not> statistics_wanted (popt p) \<and> byte_category (popt p) = isspace_category e"
proof -
  from assms have a: "\<not> UTF8Mode e" "os_ok w" "mkstemp_ok d ms" "d name0 = Some bs0" "d name1 = Some bs1"
    "int (length bs0) + int (length bs1) < OFFSET_MAX" "name0 = [] \<or> hd name0 \<noteq> 45" "name1 = [] \<or> hd name1 \<noteq> 45"
    "\<not> isspace e 0" "\<not> isspace e 1" "\<not> isspace e 48" by (simp_all add: world_ok_def)
  note i = initializeOptions_fields [OF a(1)]
  define s where "s = (initial_parse e)\<lparr>popt := (initializeOptions e)\<lparr>matchContext := 0, printDeleted := False, addStartLen := 0,
    addStart := Some [], addStopLen := 0, addStop := Some [], wdiffOutput := True\<rparr>, noOptionCount := 2,
    argOld := Some name0, argNew := Some name1\<rparr>"
  have p: "popt (initial_parse e) = initializeOptions e" by (simp add: initial_parse_def)
  have "parseCmdLine e can_open None fopen (new_file_arguments @ [name0, name1]) = finish_options e s"
    unfolding parseCmdLine_def
    by (simp add: new_file_command [OF a(7,8,11)] after_pass_def loadProfile_def s_def p i)
  moreover have s: "delimiters (popt s) = replicate BITMASK_SIZE 0" "whitespace (popt s) = replicate BITMASK_SIZE 0"
    "\<not> whitespaceSet (popt s)" "\<not> diffInput (popt s)" "argNew s \<noteq> None"
    by (simp_all add: s_def i)
  moreover from finish_default_sets [OF a(1) s] obtain y wd where
    f: "finish_options e s = Some (Inr (Next (s\<lparr>popt := (completeDefaults (popt s))\<lparr>whitespace := y, wdiffOutput := wd\<rparr>\<rparr>)))"
      "wdiffOutput (popt s) \<longrightarrow> wd"
      "byte_category ((completeDefaults (popt s))\<lparr>whitespace := y, wdiffOutput := wd\<rparr>) = isspace_category e" by blast
  define opt where "opt = (completeDefaults (popt s))\<lparr>whitespace := y, wdiffOutput := wd\<rparr>"
  have opt: "plain opt" "\<not> statistics_wanted opt" "\<not> paraDelim opt" "matchContext opt = 0" "\<not> diffInput opt"
    using i by (simp_all add: plain_def opt_def s_def completeDefaults_fields)
  have "addStartLen (completeDefaults (popt s)) = 0" "addStopLen (completeDefaults (popt s)) = 0"
    by (simp_all add: completeDefaults_def Let_def s_def i)
  then have "new_only opt"
    using i f(2) by (simp add: new_only_def start_text_def stop_text_def opt_def s_def completeDefaults_fields completeDefaults_prints)
  moreover have "start_ok w e opt d ms name0 bs0 name1 bs1"
    using a opt(3-5) by (simp add: start_ok_def f(3) [folded opt_def] isspace_category_def)
  moreover have "start_state w e d ms stdin (s\<lparr>popt := opt\<rparr>) = initial_state d ms name0 name1"
    by (rule start_state_initial) (simp_all add: s_def initial_parse_def a(1))
  ultimately show ?thesis using opt(1,2) f [folded opt_def] by (intro exI [of _ "s\<lparr>popt := opt\<rparr>"] conjI) simp_all
qed

lemma main_program_run:
  "parseCmdLine e can_open dir fopen argv = Some (Inr (Next p)) \<Longrightarrow> \<not> statistics_wanted (popt p) \<Longrightarrow>
     run_program w mem e (popt p) (start_state w e d ms stdin p) = Some (Inr (status, s)) \<Longrightarrow>
     main_program w mem e can_open dir fopen d ms stdin argv = Some (Inr (status, None, Some s))"
  by (simp add: main_program_def)

lemma keys_same_case: "\<not> ignoreCase opt \<Longrightarrow> keys e opt bs = words_of (byte_category opt) bs"
  by (simp add: keys_def low_def map_idI)

end
