(* ===== verification/Switches.thy ===== *)
theory Switches
  imports Entry
begin

text \<open>
  The switches that suppress words, in any order, and the argument of an option at the end of a
  group of short options.
\<close>

text \<open>The C locale, for the examples.\<close>

definition example_env :: env where
  "example_env = \<lparr>UTF8Mode = False, gcb_class = (\<lambda>_. 0), normalize = (\<lambda>_ us. us), strFoldCase = (\<lambda>us. us), char_type = (\<lambda>_. 0),
     isUWhiteSpace = (\<lambda>_. False), tolower = (\<lambda>c. c), ispunct = (\<lambda>_. False), isspace = (\<lambda>c. c = 32 \<or> 9 \<le> c \<and> c \<le> 13)\<rparr>"

section \<open>Suppressing words\<close>

definition hide_options :: "dwopt set" where
  "hide_options = {O_no_deleted, O_no_inserted, O_no_common}"

definition hide_argument :: "dwopt \<Rightarrow> byte list" where
  "hide_argument k = (case k of O_no_deleted \<Rightarrow> str ''-1'' | O_no_inserted \<Rightarrow> str ''-2'' | _ \<Rightarrow> str ''-3'')"

definition hide :: "dwopt \<Rightarrow> option_t \<Rightarrow> option_t" where
  "hide k = (case k of O_no_deleted \<Rightarrow> no_deleted | O_no_inserted \<Rightarrow> no_inserted | _ \<Rightarrow> no_common)"

lemma find_hide:
  "find_short option_table 50 = Some (OPTION 50 ''no-inserted'' NO_ARG O_no_inserted)"
  "find_short option_table 51 = Some (OPTION 51 ''no-common'' NO_ARG O_no_common)"
  by (simp_all add: find_short_def option_table_def OPTION_def LONG_OPTION_def SINGLE_DASH_def DOUBLE_DASH_def)

lemma hide_one:
  assumes "k \<in> hide_options" "\<not> dwfilterMode (popt s)"
  shows "one_argument True option_table (parseArgs_action e can_open) file_argument False i (hide_argument k) following s =
    Some (Inr (False, Next (s\<lparr>popt := hide k (popt s)\<rparr>)))"
proof -
  have a: "str ''-1'' = [45, 49]" "str ''-2'' = [45, 50]" "str ''-3'' = [45, 51]" by (simp_all add: str_def)
  note one = one_short(1) [OF find_options(1) [unfolded OPTION_def]] one_short(1) [OF find_hide(1) [unfolded OPTION_def]]
    one_short(1) [OF find_hide(2) [unfolded OPTION_def]]
  from assms(1) consider "k = O_no_deleted" | "k = O_no_inserted" | "k = O_no_common" by (auto simp: hide_options_def)
  then show ?thesis
    by cases (simp_all add: hide_argument_def a one hide_def parseArgs_action_def unless_dwfilter_def next_opt_def map_opt_def assms(2))
qed

lemma hide_dwfilter: "dwfilterMode (hide k opt) = dwfilterMode opt"
  by (simp add: hide_def no_deleted_def no_inserted_def no_common_def Let_def split: dwopt.split)

lemma hide_scan:
  "set ks \<subseteq> hide_options \<Longrightarrow> \<not> dwfilterMode (popt s) \<Longrightarrow>
     scan_args True option_table (parseArgs_action e can_open) file_argument False i (map hide_argument ks) s =
       Some (Inr (Next (s\<lparr>popt := fold hide ks (popt s)\<rparr>)))"
proof (induction ks arbitrary: i s)
  case (Cons k ks)
  then show ?case by (simp add: hide_one hide_dwfilter)
qed simp

text \<open>The switches seen so far.\<close>

definition hidden_so_far :: "dwopt set \<Rightarrow> option_t \<Rightarrow> bool" where
  "hidden_so_far K opt \<longleftrightarrow>
     printDeleted opt = (O_no_deleted \<notin> K) \<and> printAdded opt = (O_no_inserted \<notin> K) \<and> printCommon opt = (O_no_common \<notin> K) \<and>
     needMarkers opt = (O_no_common \<in> K \<or> O_no_deleted \<in> K \<and> O_no_inserted \<in> K) \<and>
     (needStartStop opt \<longrightarrow> \<not> (O_no_deleted \<in> K \<and> O_no_inserted \<in> K)) \<and>
     (\<not> needStartStop opt \<longrightarrow> count_false [printAdded opt, printDeleted opt, printCommon opt] \<ge> 2) \<and> \<not> dwfilterMode opt"

lemma hide_step: "k \<in> hide_options \<Longrightarrow> hidden_so_far K opt \<Longrightarrow> hidden_so_far (insert k K) (hide k opt)"
  by (auto simp: hide_options_def hidden_so_far_def hide_def no_deleted_def no_inserted_def no_common_def Let_def count_false_def split: if_splits)

lemma hide_all: "set ks \<subseteq> hide_options \<Longrightarrow> hidden_so_far K opt \<Longrightarrow> hidden_so_far (K \<union> set ks) (fold hide ks opt)"
proof (induction ks arbitrary: K opt)
  case (Cons k ks)
  then have "hidden_so_far (insert k K) (hide k opt)" by (simp add: hide_step)
  from Cons.IH [OF _ this] Cons.prems(1) show ?case by simp
qed simp

lemma completeDefaults_hidden:
  assumes "hidden_so_far K opt"
  shows "needMarkers (completeDefaults opt) =
      ((printCommon opt \<or> printAdded opt \<or> printDeleted opt) \<and> (\<not> printCommon opt \<or> \<not> printDeleted opt \<and> \<not> printAdded opt))"
    "needStartStop (completeDefaults opt) = (count_false [printAdded opt, printDeleted opt, printCommon opt] \<le> 1)"
  using assms by (auto simp: hidden_so_far_def completeDefaults_def Let_def count_false_def)

lemma hide_card:
  "K \<subseteq> hide_options \<Longrightarrow>
     card K = (if O_no_deleted \<in> K then 1 else 0) + (if O_no_inserted \<in> K then 1 else 0) + (if O_no_common \<in> K then 1 else 0)"
proof -
  assume "K \<subseteq> hide_options"
  then have "K \<in> Pow {O_no_deleted, O_no_inserted, O_no_common}" by (simp add: hide_options_def)
  then show ?thesis by (auto simp: Pow_insert)
qed

text \<open>
  C34: the switches \<open>-1\<close>, \<open>-2\<close> and \<open>-3\<close>, in any order and repeated, suppress the deleted, the
  inserted and the common words; after the defaults have been completed there is a line between
  changes exactly if the common words or all changed words are suppressed, but not everything,
  and there are markers around words exactly if at most one kind is suppressed.
\<close>

theorem hide_any_order:
  assumes "set ks \<subseteq> hide_options"
  shows "\<exists>s. parseArgs e can_open (map hide_argument ks) (initial_parse e) = Some (Inr (Next s)) \<and>
    (let opt = completeDefaults (popt s)
     in printDeleted opt = (O_no_deleted \<notin> set ks) \<and> printAdded opt = (O_no_inserted \<notin> set ks) \<and> printCommon opt = (O_no_common \<notin> set ks) \<and>
        needMarkers opt = (set ks \<noteq> hide_options \<and> (O_no_common \<in> set ks \<or> {O_no_deleted, O_no_inserted} \<subseteq> set ks)) \<and>
        needStartStop opt = (card (set ks) \<le> 1))"
proof -
  let ?s = "initial_parse e\<lparr>noOptionCount := 0\<rparr>"
  define opt where "opt = fold hide ks (popt ?s)"
  have "hidden_so_far {} (popt ?s)"
    by (simp add: hidden_so_far_def initial_parse_def initializeOptions_def initOptions_def zero_options_def)
  then have h: "hidden_so_far (set ks) opt" unfolding opt_def using hide_all [OF assms, of "{}"] by simp
  have f: "\<not> dwfilterMode opt" "\<not> dwfilterMode (popt ?s)"
    using h by (simp_all add: hidden_so_far_def initial_parse_def initializeOptions_def initOptions_def zero_options_def)
  note hide_card [OF assms]
  then have c: "card (set ks) \<le> 1 \<longleftrightarrow> count_false [printAdded opt, printDeleted opt, printCommon opt] \<le> 1"
    using h by (simp add: hidden_so_far_def count_false_def)
  have p: "parseArgs e can_open (map hide_argument ks) (initial_parse e) = Some (Inr (Next (?s\<lparr>popt := opt\<rparr>)))"
    unfolding parseArgs_def opt_def by (rule hide_scan [OF assms f(2)])
  have d: "printDeleted opt = (O_no_deleted \<notin> set ks)" "printAdded opt = (O_no_inserted \<notin> set ks)" "printCommon opt = (O_no_common \<notin> set ks)"
    using h unfolding hidden_so_far_def by blast+
  have e: "set ks = hide_options \<longleftrightarrow> O_no_deleted \<in> set ks \<and> O_no_inserted \<in> set ks \<and> O_no_common \<in> set ks"
    using assms by (auto simp: hide_options_def)
  have m: "needMarkers (completeDefaults opt) = (set ks \<noteq> hide_options \<and> (O_no_common \<in> set ks \<or> {O_no_deleted, O_no_inserted} \<subseteq> set ks))"
    unfolding completeDefaults_hidden(1) [OF h] d e by blast
  have n: "needStartStop (completeDefaults opt) = (card (set ks) \<le> 1)"
    unfolding completeDefaults_hidden(2) [OF h] c ..
  show ?thesis
    by (rule exI [of _ "?s\<lparr>popt := opt\<rparr>"], rule conjI, rule p)
      (simp add: Let_def m n completeDefaults_fields completeDefaults_prints(1) [OF f(1)] d)
qed

theorem hide_any_order_witness:
  "\<exists>s. parseArgs example_env (\<lambda>_. False) (map hide_argument [O_no_common, O_no_deleted]) (initial_parse example_env) = Some (Inr (Next s)) \<and>
     needMarkers (completeDefaults (popt s)) \<and> \<not> needStartStop (completeDefaults (popt s))"
proof -
  have "set [O_no_common, O_no_deleted] \<subseteq> hide_options" by (simp add: hide_options_def)
  from hide_any_order [OF this, of example_env "\<lambda>_. False"] show ?thesis by (auto simp: Let_def hide_options_def)
qed

section \<open>The argument of an option in a group\<close>



end
