(* ===== verification/Escapes.thy ===== *)
theory Escapes
  imports Arguments
begin

text \<open>
  What the escape sequences of option arguments do: the text is rewritten in place, every byte
  can be written as an escape sequence, and the range test of \<open>\U\<close> has a gap.
\<close>

section \<open>The length of the result\<close>

lemma encode_loop_length: "length (encode_loop n c) = n"
  by (induction n arbitrary: c) simp_all

lemma convertToUTF8_length: "length (convertToUTF8 c) \<le> 4" "convertToUTF8 c \<noteq> []"
proof -
  have "length (hd bs # tl bs) = length bs" if "bs \<noteq> []" for bs :: "byte list" using that by (cases bs) simp_all
  moreover have "encode_loop n c \<noteq> []" if "0 < n" for n using that encode_loop_length [of n c] by auto
  ultimately show "length (convertToUTF8 c) \<le> 4" by (simp add: convertToUTF8_def encode_loop_length Let_def)
  show "convertToUTF8 c \<noteq> []" by (simp add: convertToUTF8_def Let_def)
qed

lemma read_escape_length:
  "read_escape s = Inr (out, n) \<Longrightarrow> length out \<le> n \<and> 0 < n \<and> n \<le> length s"
  using order_trans [OF convertToUTF8_length(1), of 5] order_trans [OF convertToUTF8_length(1), of 9]
  by (auto simp: read_escape_def Let_def digits_upto_def length_takeWhile_le min_le_iff_disj le_SucI
      split: list.splits option.splits if_splits intro: order_trans)

lemma parseEscapes_length: "parseEscapes s = Inr t \<Longrightarrow> length t \<le> length s"
proof (induction s arbitrary: t rule: parseEscapes.induct)
  case (2 b s)
  show ?case
  proof (cases "b = 92")
    case True
    with "2.prems" obtain out n u where u: "read_escape s = Inr (out, n)" "parseEscapes (drop n s) = Inr u" "t = out @ u"
      by (auto simp: bind_res_def split: sum.splits)
    from "2.IH"(1) [OF True u(2)] read_escape_length [OF u(1)] u show ?thesis by auto
  next
    case False
    with "2.prems" obtain u where u: "parseEscapes s = Inr u" "t = b # u" by (auto simp: bind_res_def split: sum.splits)
    with "2.IH"(2) [OF False u(1)] show ?thesis by simp
  qed
qed simp

section \<open>Writing a byte as an escape sequence\<close>

definition hex_digit :: "nat \<Rightarrow> byte" where
  "hex_digit n = of_nat (if n < 10 then 48 + n else 87 + n)"

definition hex_escape :: "byte \<Rightarrow> byte list" where
  "hex_escape b = [92, 120, hex_digit (unat b div 16), hex_digit (unat b mod 16)]"

lemma hex_digit_ok:
  assumes "n < 16"
  shows "is_xdigit (hex_digit n) \<and> xdigit_value (hex_digit n) = int n"
proof -
  have "list_all (\<lambda>k. is_xdigit (hex_digit k) \<and> xdigit_value (hex_digit k) = int k) [0..<16]" by code_simp
  with assms show ?thesis by (simp add: list_all_iff)
qed

lemma parse_hex_escape: "parseEscapes (hex_escape b @ s) = bind_res (parseEscapes s) (\<lambda>t. Inr (b # t))"
proof -
  let ?h = "hex_digit (unat b div 16)" and ?l = "hex_digit (unat b mod 16)"
  have v: "uint b < 256" using uint_lt2p [of b] by simp
  have u: "unat b < 256" using uint_lt2p [of b] by (simp add: nat_less_iff flip: nat_uint_eq)
  then have h: "is_xdigit ?h" "xdigit_value ?h = int (unat b div 16)" using hex_digit_ok [of "unat b div 16"] by auto
  have l: "is_xdigit ?l" "xdigit_value ?l = int (unat b mod 16)" using hex_digit_ok [of "unat b mod 16"] by auto
  have small: "signed_take_bit 31 k = k" if "0 \<le> k" "k < 256" for k :: int
    using that by (intro signed_take_bit_int_eq_self) auto
  have "hex_value [?h, ?l] = int (unat b)"
  proof -
    have "int (unat b div 16) * 16 + int (unat b mod 16) = int (unat b)" by (metis div_mult_mod_eq of_nat_add of_nat_mult of_nat_numeral)
    then show ?thesis using v u h l small [of "int (unat b div 16)"] small [of "int (unat b)"] by (simp add: hex_value_def)
  qed
  then have "read_escape (120 # ?h # ?l # s) = Inr ([b], 3)"
    using h l v by (simp add: read_escape_def simple_escape_def digits_upto_def Let_def)
  then show ?thesis by (simp add: hex_escape_def)
qed

lemma parse_hex_escapes: "parseEscapes (concat (map hex_escape bs)) = Inr bs"
  by (induction bs) (simp_all add: parse_hex_escape)

section \<open>The gap in the range test\<close>

definition hex_number :: "byte list \<Rightarrow> int" where
  "hex_number ds = foldl (\<lambda>v d. v * 16 + xdigit_value d) 0 ds"

lemma hex_value_wraps: "hex_value ds = signed_take_bit 31 (hex_number ds)"
proof -
  have "foldl (\<lambda>v d. signed_take_bit 31 (v * 16 + xdigit_value d)) (signed_take_bit 31 v) ds =
      signed_take_bit 31 (foldl (\<lambda>v d. v * 16 + xdigit_value d) v ds)" for v
  proof (induction ds arbitrary: v)
    case (Cons d ds)
    have "signed_take_bit 31 (signed_take_bit 31 v * 16 + xdigit_value d) = signed_take_bit 31 (v * 16 + xdigit_value d)"
      by (metis signed_take_bit_add signed_take_bit_mult signed_take_bit_signed_take_bit min.idem)
    with Cons show ?case by simp
  qed simp
  from this [of 0] show ?thesis by (simp add: hex_value_def hex_number_def)
qed

lemma xdigit_range:
  assumes "is_xdigit d"
  shows "0 \<le> xdigit_value d \<and> xdigit_value d < 16"
proof -
  have "list_all (\<lambda>k. is_xdigit (word_of_nat k) \<longrightarrow> 0 \<le> xdigit_value (word_of_nat k) \<and> xdigit_value (word_of_nat k) < 16) [0..<256]"
    by code_simp
  moreover have "unat d < 256" using uint_lt2p [of d] by (simp add: nat_less_iff flip: nat_uint_eq)
  ultimately show ?thesis using assms by (auto simp: list_all_iff dest: bspec [of _ _ "unat d"])
qed

lemma foldl_hex:
  "list_all is_xdigit ds \<Longrightarrow> foldl (\<lambda>v d. v * 16 + xdigit_value d) v ds = v * 16 ^ length ds + hex_number ds \<and>
     0 \<le> hex_number ds \<and> hex_number ds < 16 ^ length ds"
proof (induction ds arbitrary: v rule: rev_induct)
  case (snoc d ds)
  then have "list_all is_xdigit ds" "is_xdigit d" by simp_all
  with snoc.IH [of v] xdigit_range [of d] show ?case by (simp add: hex_number_def algebra_simps)
qed (simp add: hex_number_def)

lemma signed_high: "2 ^ 31 \<le> k \<Longrightarrow> k < 2 ^ 32 \<Longrightarrow> signed_take_bit 31 k = k - 2 ^ 32" for k :: int
proof -
  assume k: "2 ^ 31 \<le> k" "k < 2 ^ 32"
  then have "k div 2 ^ 31 = 1" by (intro int_div_pos_eq [of _ _ _ "k - 2 ^ 31"]) simp_all
  then have "bit k 31" by (simp add: bit_iff_odd)
  moreover have "take_bit 32 k = k" using k by (intro take_bit_int_eq_self) simp_all
  ultimately show ?thesis by (simp add: signed_take_bit_eq_take_bit_minus)
qed

text \<open>A number from 80000000 on passes the test.\<close>

lemma read_U_escape:
  assumes "length ds = 8" "list_all is_xdigit ds" "2 ^ 31 \<le> hex_number ds" "hex_value ds AND 0xF800 \<noteq> 0xD800"
  shows "read_escape (85 # ds @ s) = Inr ([word_of_int (hex_number ds)], 9)"
proof -
  have "hex_number ds < 2 ^ 32" using foldl_hex [OF assms(2), of 0] assms(1) by simp
  with assms(3) have v: "hex_value ds = hex_number ds - 2 ^ 32" "hex_value ds < 0" by (simp_all add: hex_value_wraps signed_high)
  have "(word_of_int (hex_number ds - 2 ^ 32) :: byte) = word_of_int (hex_number ds)"
    by (rule word_of_int_eq_iff [THEN iffD2]) (simp add: take_bit_eq_mod mod_diff_right_eq [symmetric])
  with v assms show ?thesis
    by (simp add: read_escape_def simple_escape_def is_octal_def Let_def convertToUTF8_def)
qed

section \<open>Properties\<close>

text \<open>
  C35: an argument is rewritten in place: the result is never longer than the argument, and a
  text without a backslash stays as it is.
\<close>

theorem escapes_in_place:
  assumes "parseEscapes s = Inr t"
  shows "length t \<le> length s \<and> (92 \<notin> set s \<longrightarrow> t = s)"
proof -
  have "parseEscapes s = Inr s" if "92 \<notin> set s"
    using that by (induction s) auto
  with assms parseEscapes_length [OF assms] show ?thesis by auto
qed

theorem escapes_in_place_witness:
  "length [97, 226, 130, 172 :: byte] \<le> length [97, 92, 117, 50, 48, 97, 99 :: byte]"
proof -
  have "parseEscapes [97, 92, 117, 50, 48, 97, 99] = Inr [97, 226, 130, 172]" by code_simp
  from escapes_in_place [OF this] show ?thesis by simp
qed

text \<open>
  C36: every text, zero bytes included, can be given as an argument: writing each byte as a
  hexadecimal escape sequence gives the bytes back.
\<close>

theorem escapes_roundtrip: "parseEscapes (concat (map hex_escape bs)) = Inr bs"
  by (rule parse_hex_escapes)

text \<open>
  C37: the range test of \<open>\U\<close> has a gap: eight digits that stand for a number from 80000000 on wrap
  to a negative value, pass the test unless they look like a surrogate, and become one byte.
\<close>

theorem U_escape_gap:
  assumes "length ds = 8" "list_all is_xdigit ds" "2 ^ 31 \<le> hex_number ds" "hex_value ds AND 0xF800 \<noteq> 0xD800"
    "parseEscapes s = Inr t"
  shows "parseEscapes ([92, 85] @ ds @ s) = Inr (word_of_int (hex_number ds) # t)"
  using read_U_escape [OF assms(1-4), of s] assms(1,5) by simp

theorem U_escape_gap_witness: "parseEscapes ([92, 85] @ [70, 70, 70, 70, 70, 70, 70, 70] @ []) = Inr [255]"
proof -
  have "list_all is_xdigit [70, 70, 70, 70, 70, 70, 70, 70 :: byte]" by code_simp
  moreover have "(2 :: int) ^ 31 \<le> hex_number [70, 70, 70, 70, 70, 70, 70, 70]" "hex_number [70, 70, 70, 70, 70, 70, 70, 70] = 4294967295"
    by code_simp+
  moreover have "hex_value [70, 70, 70, 70, 70, 70, 70, 70] AND 0xF800 \<noteq> 0xD800" by code_simp
  ultimately have "parseEscapes ([92, 85] @ [70, 70, 70, 70, 70, 70, 70, 70] @ []) = Inr [word_of_int 4294967295]"
    using U_escape_gap [of "[70, 70, 70, 70, 70, 70, 70, 70]" "[]" "[]"] by simp
  then show ?thesis by simp
qed

end
