(* ===== verification/Dwfilter.thy ===== *)
theory Dwfilter
  imports Optionsafety
begin

text \<open>
  The program dwfilter (dwfilter.c): it reads its command line with the macros of optionMacros.h,
  runs dwdiff with its output in a temporary file, and runs the post processor on the result. The
  results of \<open>mkstemp\<close> and of the processes are parameters.
\<close>

section \<open>Options\<close>

text \<open>The indices of the arguments; the parser counts the arguments that are not options.\<close>

record filter_option =
  oldIndex :: nat
  newIndex :: nat
  reverse_files :: bool
  postProcessorStart :: nat
  fileCount :: nat

definition filter_table :: "dwopt opt_entry list" where
  "filter_table =
     [OPTION 100 ''delimiters'' REQUIRED_ARG O_delimiters,
      OPTION 80 ''punctuation'' NO_ARG O_punctuation,
      OPTION 87 ''white-space'' REQUIRED_ARG O_white_space,
      OPTION 104 ''help'' NO_ARG O_help,
      OPTION 118 ''version'' NO_ARG O_version,
      OPTION 105 ''ignore-case'' NO_ARG O_ignore_case,
      OPTION 73 ''ignore-formatting'' NO_ARG O_ignore_formatting,
      SINGLE_DASH O_single_dash,
      DOUBLE_DASH O_double_dash,
      OPTION 67 ''context'' REQUIRED_ARG O_context,
      OPTION 109 ''match-context'' REQUIRED_ARG O_match_context,
      LONG_OPTION ''aggregate-changes'' NO_ARG O_aggregate_changes,
      OPTION 65 ''algorithm'' REQUIRED_ARG O_algorithm,
      LONG_OPTION ''wdiff-output'' NO_ARG O_wdiff_output,
      OPTION 114 ''reverse'' NO_ARG O_reverse,
      LONG_OPTION ''profile'' REQUIRED_ARG O_profile,
      LONG_OPTION ''no-profile'' NO_ARG O_no_profile]"

text \<open>The third argument that is not an option is the post processor and ends the loop.\<close>

definition filter_file :: "nat \<Rightarrow> filter_option \<Rightarrow> filter_option flow run" where
  "filter_file ind s =
     (let n = fileCount s; s1 = s\<lparr>fileCount := n + 1\<rparr>
      in Some (Inr (if n = 0 then Next (s1\<lparr>oldIndex := ind\<rparr>)
                    else if n = 1 then Next (s1\<lparr>newIndex := ind\<rparr>)
                    else Stop (s1\<lparr>postProcessorStart := ind\<rparr>))))"

definition filter_action :: "(dwopt, filter_option) action" where
  "filter_action k arg copied ind s =
     (case k of
        O_help \<Rightarrow> Some (Inr (ExitSuccess s))
      | O_version \<Rightarrow> Some (Inr (ExitSuccess s))
      | O_single_dash \<Rightarrow> filter_file ind s
      | O_double_dash \<Rightarrow> Some (Inr (NoMore s))
      | O_reverse \<Rightarrow> Some (Inr (Next (s\<lparr>reverse_files := True\<rparr>)))
      | _ \<Rightarrow> Some (Inr (Next s)))"

definition zero_filter :: filter_option where
  "zero_filter = \<lparr>oldIndex = 0, newIndex = 0, reverse_files = False, postProcessorStart = 0, fileCount = 0\<rparr>"

definition check_count :: "filter_option \<Rightarrow> filter_option flow run" where
  "check_count s =
     (if fileCount s < 2 then Some (Inl (Fatal ''Need two files to compare''))
      else if fileCount s < 3 then Some (Inl (Fatal ''No post processor specified''))
      else Some (Inr (Next s)))"

definition filter_parseCmdLine :: "byte list list \<Rightarrow> filter_option flow run" where
  "filter_parseCmdLine argv =
     bind_run (scan_args True filter_table filter_action (\<lambda>cur ind s. filter_file ind s) False 1 argv zero_filter) (\<lambda>fl.
       case fl of ExitSuccess s \<Rightarrow> Some (Inr (ExitSuccess s)) | Next s \<Rightarrow> check_count s | NoMore s \<Rightarrow> check_count s | Stop s \<Rightarrow> check_count s)"

section \<open>Running the programs\<close>

text \<open>Writing the elements of an array with room for \<open>cap\<close> of them; \<open>None\<close> is a write behind its end.\<close>

fun put_args :: "nat \<Rightarrow> 'a list \<Rightarrow> 'a list \<Rightarrow> 'a list option" where
  "put_args cap xs [] = Some xs"
| "put_args cap xs (a # as) = (if length xs < cap then put_args cap (xs @ [a]) as else None)"

definition DWDIFF :: "byte list" where
  "DWDIFF = str ''dwdiff''"

definition OUTPUT_OPTION :: "byte list" where
  "OUTPUT_OPTION = str ''--dwfilter=''"

text \<open>The argument with an index; the name of the program has index 0. The null pointer at the end is \<open>None\<close>.\<close>

definition arg_at :: "byte list list \<Rightarrow> nat \<Rightarrow> byte list option" where
  "arg_at argv i = Some (argv ! (i - 1))"

definition dwdiff_args :: "byte list list \<Rightarrow> filter_option \<Rightarrow> byte list \<Rightarrow> byte list option list option" where
  "dwdiff_args argv s tempfile =
     put_args (postProcessorStart s + 3) []
       ([Some DWDIFF, Some (OUTPUT_OPTION @ tempfile)] @
        map (arg_at argv) (filter (\<lambda>i. i \<noteq> oldIndex s \<and> i \<noteq> newIndex s) [1..<postProcessorStart s]) @
        [arg_at argv (if reverse_files s then newIndex s else oldIndex s),
         arg_at argv (if reverse_files s then oldIndex s else newIndex s), None])"

definition processor_args :: "byte list list \<Rightarrow> filter_option \<Rightarrow> byte list \<Rightarrow> byte list option list option" where
  "processor_args argv s tempfile =
     put_args (length argv + 1 - postProcessorStart s + 3) []
       (map (arg_at argv) [postProcessorStart s..<length argv + 1] @
        [if reverse_files s then arg_at argv (oldIndex s) else Some tempfile,
         if reverse_files s then Some tempfile else arg_at argv (newIndex s), None])"

text \<open>
  \<open>execute\<close> runs a program with the arguments before the null pointer. \<open>exec\<close> gives the status
  with which the first or the second process ends, or the fault of \<open>fork\<close> or \<open>wait\<close>.
\<close>

definition execute :: "(byte list list \<Rightarrow> int res) \<Rightarrow> byte list option list \<Rightarrow> int run" where
  "execute exec args = Some (exec (map the (takeWhile (\<lambda>a. a \<noteq> None) args)))"

text \<open>The name of the temporary file, if \<open>mkstemp\<close> succeeds; it is removed at exit.\<close>

definition createTempfile :: "byte list option \<Rightarrow> byte list res" where
  "createTempfile mkstemp = (case mkstemp of None \<Rightarrow> Inl (Fatal ''Could not create temporary file'') | Some name \<Rightarrow> Inr name)"

definition filter_main :: "byte list option \<Rightarrow> (nat \<Rightarrow> byte list list \<Rightarrow> int res) \<Rightarrow> byte list list \<Rightarrow> int run" where
  "filter_main mkstemp exec argv =
     bind_run (filter_parseCmdLine argv) (\<lambda>fl.
       case fl of
         Next s \<Rightarrow>
           bind_run (Some (createTempfile mkstemp)) (\<lambda>tempfile.
             case dwdiff_args argv s tempfile of
               None \<Rightarrow> None
             | Some args \<Rightarrow>
                 bind_run (execute (exec 0) args) (\<lambda>status.
                   if status > 2 then Some (Inl (Fatal ''dwdiff returned an error''))
                   else (case processor_args argv s tempfile of
                           None \<Rightarrow> None
                         | Some args1 \<Rightarrow> execute (exec 1) args1)))
       | _ \<Rightarrow> Some (Inr 0))"

section \<open>The indices\<close>

definition indices_ok :: "nat \<Rightarrow> filter_option \<Rightarrow> bool" where
  "indices_ok i s \<longleftrightarrow> 1 \<le> i \<and> (fileCount s \<ge> 1 \<longrightarrow> 1 \<le> oldIndex s \<and> oldIndex s < i) \<and>
     (fileCount s \<ge> 2 \<longrightarrow> oldIndex s < newIndex s \<and> newIndex s < i) \<and>
     (fileCount s \<ge> 3 \<longrightarrow> newIndex s < postProcessorStart s \<and> postProcessorStart s < i)"

lemma filter_file_keeps: "indices_ok i s \<Longrightarrow> result_inv (flow_inv (indices_ok (Suc i))) (filter_file i s)"
  by (auto simp: filter_file_def indices_ok_def Let_def)

interpretation filterargs: argument_parser filter_table filter_action "\<lambda>cur. filter_file" "\<lambda>k. k = O_single_dash" indices_ok
proof
  show "result_inv (flow_inv (indices_ok (if k = O_single_dash then Suc i else i))) (filter_action k arg copied i s)"
    if "indices_ok i s" for i s k arg copied
    using that filter_file_keeps [OF that] by (cases k) (auto simp: filter_action_def indices_ok_def)
  show "c = 0" if "o' \<in> set filter_table" "okey o' = O_single_dash" "shortName o' = Some c" for o' c
    using that by (auto simp: filter_table_def OPTION_def LONG_OPTION_def SINGLE_DASH_def DOUBLE_DASH_def)
qed (auto simp: filter_file_keeps indices_ok_def)

lemma filter_parse_ok:
  assumes "\<forall>a \<in> set argv. 0 \<notin> set a" "filter_parseCmdLine argv = Some (Inr (Next s))"
  shows "1 \<le> oldIndex s" "oldIndex s < newIndex s" "newIndex s < postProcessorStart s" "postProcessorStart s \<le> length argv"
proof -
  have "result_inv (flow_inv (\<lambda>s. indices_ok (1 + length argv) s \<and> fileCount s \<ge> 3)) (filter_parseCmdLine argv)"
    unfolding filter_parseCmdLine_def
    by (rule result_inv_bind [OF filterargs.scan_keeps [of 1 zero_filter argv]])
      (use assms(1) in \<open>auto simp: indices_ok_def zero_filter_def check_count_def split: flow.splits\<close>)
  with assms(2) show "1 \<le> oldIndex s" "oldIndex s < newIndex s" "newIndex s < postProcessorStart s" "postProcessorStart s \<le> length argv"
    by (auto simp: result_inv_def indices_ok_def)
qed

section \<open>The two commands\<close>

lemma put_args_room: "length xs + length ys \<le> cap \<Longrightarrow> put_args cap xs ys = Some (xs @ ys)"
  by (induction ys arbitrary: xs) simp_all

lemma arg_at_slice:
  assumes "1 \<le> i" "j \<le> length argv + 1"
  shows "map (arg_at argv) [i..<j] = map Some (take (j - i) (drop (i - 1) argv))"
proof (rule nth_equalityI)
  fix l
  assume "l < length (map (arg_at argv) [i..<j])"
  then have "l < j - i" "i - 1 + l = i + l - 1" "l < length (take (j - i) (drop (i - 1) argv))" using assms by auto
  then show "map (arg_at argv) [i..<j] ! l = map Some (take (j - i) (drop (i - 1) argv)) ! l"
    using assms by (simp add: arg_at_def)
qed (use assms in auto)

lemma filter_upt_others:
  fixes old new stop :: nat
  assumes "1 \<le> old" "old < new" "new < stop"
  shows "filter (\<lambda>i. i \<noteq> old \<and> i \<noteq> new) [1..<stop] = [1..<old] @ [Suc old..<new] @ [Suc new..<stop]"
proof -
  have "[1..<stop] = [1..<old] @ old # [Suc old..<new] @ new # [Suc new..<stop]"
    using assms upt_add_eq_append [of 1 old "stop - old"] upt_add_eq_append [of "Suc old" new "stop - new"]
    by (simp add: upt_conv_Cons)
  then show ?thesis using assms by (auto simp: filter_id_conv)
qed

lemma takeWhile_args: "map the (takeWhile (\<lambda>a. a \<noteq> None) (map Some xs @ [None])) = xs"
  by (induction xs) simp_all

lemma split_arguments:
  assumes "1 \<le> old" "old < new" "new < stop" "stop \<le> length argv"
  shows "argv = take (old - 1) argv @ [argv ! (old - 1)] @ take (new - Suc old) (drop old argv) @ [argv ! (new - 1)] @
    take (stop - Suc new) (drop new argv) @ drop (stop - 1) argv"
proof -
  have "drop n argv = take (m - n) (drop n argv) @ drop m argv" if "n \<le> m" for n m
    using that by (metis append_take_drop_id drop_drop le_add_diff_inverse2)
  note d = this
  have "argv = take (old - 1) argv @ drop (old - 1) argv" by simp
  moreover have "drop (old - 1) argv = argv ! (old - 1) # drop old argv" using assms Cons_nth_drop_Suc [of "old - 1" argv] by simp
  moreover have "drop old argv = take (new - Suc old) (drop old argv) @ drop (new - 1) argv" using d [of old "new - 1"] assms by simp
  moreover have "drop (new - 1) argv = argv ! (new - 1) # drop new argv" using assms Cons_nth_drop_Suc [of "new - 1" argv] by simp
  moreover have "drop new argv = take (stop - Suc new) (drop new argv) @ drop (stop - 1) argv" using d [of new "stop - 1"] assms by simp
  ultimately show ?thesis by (metis append_Cons append_Nil)
qed

text \<open>
  C33: when the command line of dwfilter is complete, both arrays of arguments have room, dwdiff
  gets the options in their order and then the two files, in the other order with \<open>--reverse\<close>, and
  the post processor gets its own arguments with the output of dwdiff in the place of the old
  file, of the new one with \<open>--reverse\<close>. A status of dwdiff of at most 2 counts as success.
\<close>

theorem filter_commands:
  assumes "\<forall>a \<in> set argv. 0 \<notin> set a" "filter_parseCmdLine argv = Some (Inr (Next s))"
  shows "\<exists>a b c old new processor. argv = a @ [old] @ b @ [new] @ c @ processor \<and> processor \<noteq> [] \<and>
    filter_main (Some tempfile) exec argv =
      (let reverse = reverse_files s
       in case exec 0 ([DWDIFF, OUTPUT_OPTION @ tempfile] @ a @ b @ c @ (if reverse then [new, old] else [old, new])) of
            Inl e \<Rightarrow> Some (Inl e)
          | Inr status \<Rightarrow>
              if status > 2 then Some (Inl (Fatal ''dwdiff returned an error''))
              else Some (exec 1 (processor @ (if reverse then [old, tempfile] else [tempfile, new]))))"
proof -
  define i j k where "i = oldIndex s" and "j = newIndex s" and "k = postProcessorStart s"
  have n: "1 \<le> i" "i < j" "j < k" "k \<le> length argv" using filter_parse_ok [OF assms] by (simp_all add: i_def j_def k_def)
  define a b c p where "a = take (i - 1) argv" and "b = take (j - Suc i) (drop i argv)" and "c = take (k - Suc j) (drop j argv)"
    and "p = drop (k - 1) argv"
  have arr: "map (arg_at argv) (filter (\<lambda>l. l \<noteq> i \<and> l \<noteq> j) [1..<k]) = map Some (a @ b @ c)"
    unfolding filter_upt_others [OF n(1-3)]
    using n arg_at_slice [of 1 i argv] arg_at_slice [of "Suc i" j argv] arg_at_slice [of "Suc j" k argv] by (simp add: a_def b_def c_def)
  have arp: "map (arg_at argv) [k..<length argv + 1] = map Some p"
    using n arg_at_slice [of k "length argv + 1" argv] by (simp add: p_def)
  have len: "length a + length b + length c + 3 = k" "length p = length argv + 1 - k"
    using n by (simp_all add: a_def b_def c_def p_def)
  define f0 f1 where "f0 = argv ! (i - 1)" and "f1 = argv ! (j - 1)"
  have "dwdiff_args argv s tempfile = Some (map Some ([DWDIFF, OUTPUT_OPTION @ tempfile] @ a @ b @ c @
      (if reverse_files s then [f1, f0] else [f0, f1])) @ [None])"
    unfolding dwdiff_args_def arr [unfolded i_def j_def k_def] using len(1)
    by (subst put_args_room) (simp_all add: k_def arg_at_def f0_def f1_def i_def j_def)
  moreover have "processor_args argv s tempfile = Some (map Some (p @ (if reverse_files s then [f0, tempfile] else [tempfile, f1])) @ [None])"
    unfolding processor_args_def arp [unfolded k_def] using len(2)
    by (subst put_args_room) (simp_all add: k_def arg_at_def f0_def f1_def i_def j_def)
  ultimately have "filter_main (Some tempfile) exec argv =
      (let reverse = reverse_files s
       in case exec 0 ([DWDIFF, OUTPUT_OPTION @ tempfile] @ a @ b @ c @ (if reverse then [f1, f0] else [f0, f1])) of
            Inl e \<Rightarrow> Some (Inl e)
          | Inr status \<Rightarrow>
              if status > 2 then Some (Inl (Fatal ''dwdiff returned an error''))
              else Some (exec 1 (p @ (if reverse then [f0, tempfile] else [tempfile, f1]))))"
    unfolding filter_main_def execute_def createTempfile_def assms(2)
    by (simp only: bind_run_def Option.bind.simps sum.case flow.case option.case takeWhile_args Let_def split: sum.split)
  moreover have "argv = a @ [f0] @ b @ [f1] @ c @ p" unfolding a_def b_def c_def p_def f0_def f1_def by (rule split_arguments [OF n])
  moreover have "p \<noteq> []" using n by (simp add: p_def)
  ultimately show ?thesis by blast
qed

theorem filter_commands_witness:
  "\<exists>a b c old new processor. [[45, 114], [111], [110], [99 :: byte]] = a @ [old] @ b @ [new] @ c @ processor \<and> processor \<noteq> [] \<and>
     filter_main (Some [116]) (\<lambda>n args. Inr (if n = 0 then 2 else int (length args))) [[45, 114], [111], [110], [99]] =
       Some (Inr (int (length processor) + 2))"
proof -
  have p: "filter_parseCmdLine [[45, 114], [111], [110], [99]] =
      Some (Inr (Next \<lparr>oldIndex = 2, newIndex = 3, reverse_files = True, postProcessorStart = 4, fileCount = 3\<rparr>))"
    by code_simp
  have z: "\<forall>a \<in> set [[45, 114], [111], [110], [99]]. 0 \<notin> set (a :: byte list)" by simp
  have l: "int (length (xs @ [a, b])) = int (length xs) + 2" for xs :: "byte list list" and a b by simp
  show ?thesis
    using filter_commands [OF z p, of "[116]" "\<lambda>n args. Inr (if n = 0 then 2 else int (length args))"]
    by (simp only: Let_def sum.case filter_option.simps if_True l simp_thms) simp
qed

end
